(* ===== verification/Prelude.thy ===== *)
theory Prelude
  imports Main "HOL-Library.Word"
begin

text \<open>
  The vocabulary every component shares: bytes and Go strings, big-endian integers, the error
  values of the \<^verbatim>\<open>kasa\<close> package, the \<open>codec\<close> interface (an encoder with a decoder that
  undoes it) and the collections of facts the component proofs draw on.

  A Go string is a sequence of bytes; it is modelled as a \<^typ>\<open>string\<close>, whose characters are
  bytes. A \<^verbatim>\<open>[]byte\<close> is a list of 8-bit words.
\<close>

unbundle bit_operations_syntax

named_theorems kasa_splits \<open>case splits used to take a handler apart\<close>
named_theorems length_simps \<open>lengths of encoded data\<close>

subsection \<open>Lists\<close>

lemma find_SomeD: "find P xs = Some x \<Longrightarrow> P x" "find P xs = Some x \<Longrightarrow> x \<in> set xs"
  by (induction xs) (auto split: if_splits)

lemma map_of_filter_neq: "k \<noteq> k' \<Longrightarrow> map_of (filter (\<lambda>p. fst p \<noteq> k') ps) k = map_of ps k"
  by (induction ps) auto

subsection \<open>Bytes and strings\<close>

type_synonym byte = "8 word"

definition byte_of_char :: "char \<Rightarrow> byte" where
  "byte_of_char c = of_nat (of_char c)"

definition char_of_byte :: "byte \<Rightarrow> char" where
  "char_of_byte b = char_of (unat b)"

definition bytes_of :: "string \<Rightarrow> byte list" where
  "bytes_of s = map byte_of_char s"

definition string_of :: "byte list \<Rightarrow> string" where
  "string_of bs = map char_of_byte bs"

lemma unat_byte_of_char [simp]: "unat (byte_of_char c) = of_char c"
  by (simp add: byte_of_char_def unat_of_nat)

lemma unat_byte_less: "unat (b :: byte) < 256"
  using unsigned_less [of b, where ?'a = nat] by simp

lemma char_of_byte_of_char [simp]: "char_of_byte (byte_of_char c) = c"
  by (simp add: char_of_byte_def)

lemma byte_of_char_of_byte [simp]: "byte_of_char (char_of_byte b) = b"
  using unat_byte_less [of b] by (simp add: byte_of_char_def char_of_byte_def)

lemma string_of_bytes_of [simp]: "string_of (bytes_of s) = s"
  by (simp add: string_of_def bytes_of_def comp_def)

lemma bytes_of_string_of [simp]: "bytes_of (string_of bs) = bs"
  by (simp add: string_of_def bytes_of_def comp_def)

lemma length_bytes_of [length_simps, simp]: "length (bytes_of s) = length s"
  by (simp add: bytes_of_def)

subsection \<open>Big-endian 32-bit integers (\<^verbatim>\<open>encoding/binary\<close>)\<close>

definition put_be32 :: "32 word \<Rightarrow> byte list" where
  "put_be32 w = [ucast (drop_bit 24 w), ucast (drop_bit 16 w), ucast (drop_bit 8 w), ucast w]"

fun get_be32 :: "byte list \<Rightarrow> 32 word" where
  "get_be32 (a # b # c # d # rest) =
     push_bit 24 (ucast a) OR push_bit 16 (ucast b) OR push_bit 8 (ucast c) OR ucast d"
| "get_be32 _ = 0"

lemma length_put_be32 [length_simps, simp]: "length (put_be32 w) = 4"
  by (simp add: put_be32_def)

lemma get_put_be32 [simp]: "get_be32 (put_be32 w @ rest) = w"
proof -
  have "get_be32 (put_be32 w) = w"
    unfolding put_be32_def get_be32.simps
  proof (rule bit_word_eqI)
    fix n assume "n < LENGTH(32)"
    then show "bit (push_bit 24 (ucast (ucast (drop_bit 24 w) :: byte))
        OR push_bit 16 (ucast (ucast (drop_bit 16 w) :: byte))
        OR push_bit 8 (ucast (ucast (drop_bit 8 w) :: byte))
        OR (ucast (ucast w :: byte) :: 32 word)) n = bit w n"
      by (cases "n < 8"; cases "n < 16"; cases "n < 24") (auto simp: bit_simps not_less)
  qed
  then show ?thesis unfolding put_be32_def append_Cons get_be32.simps .
qed

lemma get_put_be32_nil [simp]: "get_be32 (put_be32 w) = w"
  by (metis append_Nil2 get_put_be32)

subsection \<open>The interface of an encoding\<close>

text \<open>
  Every layer of the wire protocols is an encoding with a partial decoder. What its clients rely
  on is one law: decoding what was encoded gives the value back.
\<close>

locale codec =
  fixes enc :: "'a \<Rightarrow> 'b" and dec :: "'b \<Rightarrow> 'a option" and ok :: "'a \<Rightarrow> bool"
  assumes dec_enc: "ok x \<Longrightarrow> dec (enc x) = Some x"
begin

lemma enc_inj: "ok x \<Longrightarrow> ok y \<Longrightarrow> enc x = enc y \<Longrightarrow> x = y"
  by (metis dec_enc option.inject)

lemma enc_inj_on: "inj_on enc {x. ok x}"
  by (rule inj_onI) (auto intro: enc_inj)

lemma dec_enc_the: "ok x \<Longrightarrow> the (dec (enc x)) = x"
  by (simp add: dec_enc)

end

lemma codec_compose:
  assumes "codec e1 d1 P" and "codec e2 d2 Q" and "\<And>x. P x \<Longrightarrow> Q (e1 x)"
  shows "codec (\<lambda>x. e2 (e1 x)) (\<lambda>y. Option.bind (d2 y) d1) P"
proof (rule codec.intro)
  fix x assume "P x"
  with assms show "Option.bind (d2 (e2 (e1 x))) d1 = Some x"
    by (simp add: codec.dec_enc [OF assms(1)] codec.dec_enc [OF assms(2)])
qed

interpretation be32: codec put_be32 "\<lambda>bs. if length bs < 4 then None else Some (get_be32 bs)" "\<lambda>_. True"
  by unfold_locales simp

interpretation chars: codec bytes_of "\<lambda>bs. Some (string_of bs)" "\<lambda>_. True"
  by unfold_locales simp

subsection \<open>Decimal integers (\<^verbatim>\<open>strconv.Itoa\<close>) and addresses\<close>

definition digit_char :: "int \<Rightarrow> char" where
  "digit_char d = char_of (48 + d)"

function nat_to_string :: "int \<Rightarrow> string" where
  "nat_to_string n =
     (if n < 10 then [digit_char n] else nat_to_string (n div 10) @ [digit_char (n mod 10)])"
  by pat_completeness auto
termination
  by (relation "measure nat") auto

declare nat_to_string.simps [simp del]

definition itoa :: "int \<Rightarrow> string" where
  "itoa i = (if i < 0 then CHR ''-'' # nat_to_string (- i) else nat_to_string i)"

definition digits_value :: "string \<Rightarrow> int" where
  "digits_value s = foldl (\<lambda>acc c. 10 * acc + (of_char c - 48)) 0 s"

definition atoi :: "string \<Rightarrow> int" where
  "atoi s = (case s of CHR ''-'' # r \<Rightarrow> - digits_value r | _ \<Rightarrow> digits_value s)"

lemma of_char_digit [simp]: "0 \<le> d \<Longrightarrow> d < 10 \<Longrightarrow> of_char (digit_char d) = 48 + d"
  by (simp add: digit_char_def)

lemma digits_value_nat [simp]: "0 \<le> n \<Longrightarrow> digits_value (nat_to_string n) = n"
proof (induction n rule: nat_to_string.induct)
  case (1 n)
  show ?case
  proof (cases "n < 10")
    case True
    then show ?thesis using 1 by (simp add: nat_to_string.simps [of n] digits_value_def)
  next
    case False
    with 1 have "foldl (\<lambda>acc c. 10 * acc + (of_char c - 48)) 0 (nat_to_string (n div 10)) = n div 10"
      by (simp add: digits_value_def)
    with False show ?thesis
      by (simp add: nat_to_string.simps [of n] digits_value_def)
  qed
qed

lemma nat_to_string_neq_Nil [simp]: "nat_to_string n \<noteq> []"
  by (simp add: nat_to_string.simps [of n])

lemma hd_nat_to_string: "0 \<le> n \<Longrightarrow> \<exists>d. 0 \<le> d \<and> d < 10 \<and> hd (nat_to_string n) = digit_char d"
proof (induction n rule: nat_to_string.induct)
  case (1 n)
  then show ?case
    by (cases "n < 10") (auto simp: nat_to_string.simps [of n] hd_append)
qed

lemma hd_nat_to_string_neq_minus: "0 \<le> n \<Longrightarrow> hd (nat_to_string n) \<noteq> CHR ''-''"
proof
  assume "0 \<le> n" "hd (nat_to_string n) = CHR ''-''"
  moreover obtain d where "0 \<le> d" "d < 10" "hd (nat_to_string n) = digit_char d"
    using hd_nat_to_string \<open>0 \<le> n\<close> by blast
  ultimately have "of_char (CHR ''-'') = 48 + d" by (metis of_char_digit)
  then show False using \<open>0 \<le> d\<close> by simp
qed

lemma atoi_itoa [simp]: "atoi (itoa i) = i"
proof (cases "i < 0")
  case True
  then show ?thesis by (simp add: atoi_def itoa_def)
next
  case False
  obtain c r where cr: "nat_to_string i = c # r"
    by (cases "nat_to_string i") auto
  have "c \<noteq> CHR ''-''" using hd_nat_to_string_neq_minus [of i] False by (simp add: cr)
  then have "atoi (c # r) = digits_value (c # r)"
    by (simp add: atoi_def split: char.splits bool.splits)
  then show ?thesis using False by (simp add: itoa_def flip: cr)
qed

interpretation decimal: codec itoa "\<lambda>s. Some (atoi s)" "\<lambda>_. True"
  by unfold_locales simp

lemma itoa_inject [simp]: "itoa i = itoa j \<longleftrightarrow> i = j"
  using decimal.enc_inj by blast

text \<open>An \<^verbatim>\<open>int\<close> result, which wraps at 64 bits.\<close>

definition wrap64 :: "int \<Rightarrow> int" where
  "wrap64 i = (i + 2 ^ 63) mod 2 ^ 64 - 2 ^ 63"

lemma wrap64_id [simp]: "- (2 ^ 63) \<le> i \<Longrightarrow> i < 2 ^ 63 \<Longrightarrow> wrap64 i = i"
  by (simp add: wrap64_def)

text \<open>\<^verbatim>\<open>net.JoinHostPort\<close>: a host that holds a colon is bracketed.\<close>

definition join_host_port :: "string \<Rightarrow> int \<Rightarrow> string" where
  "join_host_port host port =
     (if CHR '':'' \<in> set host then ''['' @ host @ '']:'' @ itoa port else host @ '':'' @ itoa port)"

subsection \<open>Errors of the \<^verbatim>\<open>kasa\<close> package\<close>

text \<open>
  One constructor for each error the package can return, with the data its message carries; the
  wording of the message is not modelled. \<open>AesUnauthorized\<close> wraps the error it was raised for,
  as \<^verbatim>\<open>fmt.Errorf("%w: %s", errAESUnauthorized, lastErr)\<close> does.
\<close>

datatype xor_error =
    RequestTooLong nat | ConnectFailed | DeadlineFailed | SendFailed
  | ReadLengthFailed | EmptyResponse | Oversized nat | ReadBodyFailed

datatype http_error = RequestFailed | BodyFailed | BodyOversized

datatype cipher_error =
    KeySize nat | PadLength nat | PadValue nat | PadBytes | TooShort nat | Unaligned nat

datatype klap_error =
    RandFailed | Handshake1Status int | Handshake1Length nat | KlapUnauthorized
  | Handshake2Status int | RequestStatus int | RejectedTwice

datatype aes_error =
    RsaFailed | BadHandshakeReply | BadBase64 | SessionKeyLength nat | BadLoginReply | NoToken
  | SessionExpired | ExpiredTwice | HttpStatus int | BadReply | UnauthorizedCode int
  | ReplyErrorCode int | LoginRefused

datatype dialect_error =
    BadResponse | NoSysinfo | SysinfoErrorCode int | NoOutletReadable | DeviceErrorCode int
  | BadDeviceInfo | BadBatch

datatype connect_error =
    UnsupportedScheme string | SocketFailed | ResolveFailed | ProbeFailed | NoAnswer string

datatype kasa_error =
    XorError xor_error
  | HttpError http_error
  | CipherError cipher_error
  | KlapError klap_error
  | AesError aes_error
  | AesUnauthorized kasa_error
  | DialectError dialect_error
  | ConnectError connect_error
  | CouldNotReach string "(string \<times> kasa_error) list"

text \<open>\<^verbatim>\<open>errors.Is(err, errKlapUnauthorized) || errors.Is(err, errAESUnauthorized)\<close>\<close>

fun is_unauthorized :: "kasa_error \<Rightarrow> bool" where
  "is_unauthorized (KlapError KlapUnauthorized) = True"
| "is_unauthorized (AesError (UnauthorizedCode _)) = True"
| "is_unauthorized (AesError LoginRefused) = True"
| "is_unauthorized (AesUnauthorized _) = True"
| "is_unauthorized _ = False"

lemmas result_splits [kasa_splits] = sum.splits option.splits prod.splits if_splits

end
