(* ===== verification/Transport.thy ===== *)
theory Transport
  imports Prelude
begin

text \<open>
  The interface between the dialects and the transports: the Go interface \<^verbatim>\<open>transport\<close> of
  \<^verbatim>\<open>kasa/iot.go\<close>, with the laws its clients rely on. A query may fail and may change the
  transport's session, but it keeps the transport well formed and never changes what identifies
  the device it talks to; closing likewise.
\<close>

type_synonym ('t, 'w) query_fun = "'t \<Rightarrow> byte list \<Rightarrow> 'w \<Rightarrow> (kasa_error + byte list) \<times> 't \<times> 'w"

locale transport =
  fixes query :: "'t \<Rightarrow> byte list \<Rightarrow> 'w \<Rightarrow> (kasa_error + byte list) \<times> 't \<times> 'w"
    and close :: "'t \<Rightarrow> 't"
    and valid :: "'t \<Rightarrow> bool"
    and config :: "'t \<Rightarrow> 'c"
  assumes query_valid: "valid t \<Longrightarrow> query t request w = (r, t', w') \<Longrightarrow> valid t'"
    and query_config: "query t request w = (r, t', w') \<Longrightarrow> config t' = config t"
    and close_valid: "valid t \<Longrightarrow> valid (close t)"
    and close_config: "config (close t) = config t"
begin

text \<open>A client may use several queries in a row, the world changing in between; the laws carry over
  the whole conversation.\<close>

inductive talk :: "'t \<Rightarrow> 't \<Rightarrow> bool" where
  talk_stop: "talk t t"
| talk_query: "query t request w = (r, t1, w1) \<Longrightarrow> talk t1 t2 \<Longrightarrow> talk t t2"

lemma talk_one: "query t request w = (r, t1, w1) \<Longrightarrow> talk t t1"
  by (rule talk_query [OF _ talk_stop])

lemma talk_trans: "talk t t1 \<Longrightarrow> talk t1 t2 \<Longrightarrow> talk t t2"
  by (induction rule: talk.induct) (auto intro: talk_query)

lemma talk_valid: "talk t t' \<Longrightarrow> valid t \<Longrightarrow> valid t'"
  by (induction rule: talk.induct) (auto dest: query_valid)

lemma talk_config: "talk t t' \<Longrightarrow> config t' = config t"
  by (induction rule: talk.induct) (auto dest: query_config)

lemmas talk_laws = talk_valid talk_config

end

text \<open>A query that records the requests it is given, to state how many a client makes.\<close>

definition traced_query :: "('t, 'w) query_fun \<Rightarrow> ('t, 'w \<times> byte list list) query_fun" where
  "traced_query Q t request wt =
     (case Q t request (fst wt) of (r, t, w) \<Rightarrow> (r, t, w, snd wt @ [request]))"

end
