(* ===== verification/Xor.thy ===== *)
theory Xor
  imports Transport
begin

text \<open>
  The legacy transport, \<^verbatim>\<open>kasa/xor.go\<close>: the autokey cipher and the framed exchange on TCP
  port 9999. The TCP connection is the record \<open>tcp_env\<close> of the operations the code calls, over a
  world \<^typ>\<open>'w\<close> that stands for the device at the other end and the network between.
\<close>

subsection \<open>The autokey cipher\<close>

definition xorKey :: byte where
  "xorKey = 0xAB"

definition xorPort :: int where
  "xorPort = 9999"

definition xorMaxPayload :: nat where
  "xorMaxPayload = 2 ^ 20"

text \<open>The two loops carry the running key; both start from \<open>xorKey\<close>.\<close>

fun xor_encrypt_loop :: "byte \<Rightarrow> byte list \<Rightarrow> byte list" where
  "xor_encrypt_loop key [] = []"
| "xor_encrypt_loop key (b # plain) = (let key' = b XOR key in key' # xor_encrypt_loop key' plain)"

definition xorEncrypt :: "byte list \<Rightarrow> byte list" where
  "xorEncrypt plain = xor_encrypt_loop xorKey plain"

fun xor_decrypt_loop :: "byte \<Rightarrow> byte list \<Rightarrow> byte list" where
  "xor_decrypt_loop key [] = []"
| "xor_decrypt_loop key (c # cipher) = (c XOR key) # xor_decrypt_loop c cipher"

definition xorDecrypt :: "byte list \<Rightarrow> byte list" where
  "xorDecrypt cipher = xor_decrypt_loop xorKey cipher"

lemma xor_xor_cancel [simp]: "(b XOR key) XOR key = (b :: byte)"
  by (simp add: xor.assoc)

lemma xor_decrypt_encrypt_loop: "xor_decrypt_loop key (xor_encrypt_loop key p) = p"
  by (induction key p rule: xor_encrypt_loop.induct) (simp_all add: Let_def)

lemma xor_encrypt_decrypt_loop: "xor_encrypt_loop key (xor_decrypt_loop key c) = c"
  by (induction key c rule: xor_decrypt_loop.induct) (simp_all add: Let_def)

lemma length_xor_encrypt_loop: "length (xor_encrypt_loop key p) = length p"
  by (induction key p rule: xor_encrypt_loop.induct) (simp_all add: Let_def)

lemma length_xor_decrypt_loop: "length (xor_decrypt_loop key c) = length c"
  by (induction key c rule: xor_decrypt_loop.induct) simp_all

lemma length_xorEncrypt [length_simps, simp]: "length (xorEncrypt p) = length p"
  by (simp add: xorEncrypt_def length_xor_encrypt_loop)

lemma length_xorDecrypt [length_simps, simp]: "length (xorDecrypt c) = length c"
  by (simp add: xorDecrypt_def length_xor_decrypt_loop)

lemma xorDecrypt_eq_Nil [simp]: "xorDecrypt c = [] \<longleftrightarrow> c = []"
  by (metis length_0_conv length_xorDecrypt)

interpretation xor_cipher: codec xorEncrypt "\<lambda>c. Some (xorDecrypt c)" "\<lambda>_. True"
  by unfold_locales (simp add: xorEncrypt_def xorDecrypt_def xor_decrypt_encrypt_loop)

lemma xorDecrypt_xorEncrypt [simp]: "xorDecrypt (xorEncrypt p) = p"
  using xor_cipher.dec_enc by simp

lemma xorEncrypt_xorDecrypt [simp]: "xorEncrypt (xorDecrypt c) = c"
  by (simp add: xorEncrypt_def xorDecrypt_def xor_encrypt_decrypt_loop)

subsection \<open>The transport\<close>

record xorTransport =
  xt_host :: string
  xt_port :: int
  xt_timeout :: int

text \<open>A context, as far as the package looks at it: its deadline, in nanoseconds.\<close>

record ctx =
  ctx_deadline :: "int option"

record 'w tcp_env =
  tcp_dial :: "int \<Rightarrow> string \<Rightarrow> 'w \<Rightarrow> bool \<times> 'w"
  tcp_now :: "'w \<Rightarrow> int"
  tcp_set_deadline :: "int \<Rightarrow> 'w \<Rightarrow> bool \<times> 'w"
  tcp_write :: "byte list \<Rightarrow> 'w \<Rightarrow> bool \<times> 'w"
  tcp_read :: "nat \<Rightarrow> 'w \<Rightarrow> byte list \<times> 'w"
  tcp_close :: "'w \<Rightarrow> 'w"

text \<open>
  \<^verbatim>\<open>io.ReadFull\<close> over \<open>tcp_read\<close>, which gives the bytes that arrive before the stream ends or
  the deadline passes: it succeeds exactly when the buffer could be filled.
\<close>

definition read_full :: "'w tcp_env \<Rightarrow> nat \<Rightarrow> 'w \<Rightarrow> byte list option \<times> 'w" where
  "read_full E n w =
     (case tcp_read E n w of (bs, w') \<Rightarrow>
        (if n \<le> length bs then Some (take n bs) else None, w'))"

definition xor_deadline :: "'w tcp_env \<Rightarrow> int \<Rightarrow> ctx \<Rightarrow> 'w \<Rightarrow> int" where
  "xor_deadline E timeout c w =
     (let deadline = tcp_now E w + timeout in
      case ctx_deadline c of
        None \<Rightarrow> deadline
      | Some d \<Rightarrow> if d < deadline then d else deadline)"

definition xor_frame :: "byte list \<Rightarrow> byte list" where
  "xor_frame request = put_be32 (of_nat (length request)) @ xorEncrypt request"

text \<open>The exchange on an open connection; \<open>xor_query\<close> closes it on every path, as the deferred
  call does.\<close>

definition xor_exchange ::
  "'w tcp_env \<Rightarrow> xorTransport \<Rightarrow> ctx \<Rightarrow> byte list \<Rightarrow> 'w \<Rightarrow> (kasa_error + byte list) \<times> 'w" where
  "xor_exchange E t c request w =
     (case tcp_set_deadline E (xor_deadline E (xt_timeout t) c w) w of (ok, w) \<Rightarrow>
      if \<not> ok then (Inl (XorError DeadlineFailed), w) else
      case tcp_write E (xor_frame request) w of (ok, w) \<Rightarrow>
      if \<not> ok then (Inl (XorError SendFailed), w) else
      case read_full E 4 w of
        (None, w) \<Rightarrow> (Inl (XorError ReadLengthFailed), w)
      | (Some header, w) \<Rightarrow>
          (let len = unat (get_be32 header) in
           if len = 0 then (Inl (XorError EmptyResponse), w)
           else if xorMaxPayload < len then (Inl (XorError (Oversized len)), w)
           else case read_full E len w of
               (None, w) \<Rightarrow> (Inl (XorError ReadBodyFailed), w)
             | (Some body, w) \<Rightarrow> (Inr (xorDecrypt body), w)))"

text \<open>The address dialled: port 9999 unless the transport names one.\<close>

definition xor_addr :: "xorTransport \<Rightarrow> string" where
  "xor_addr t = join_host_port (xt_host t) (if xt_port t = 0 then xorPort else xt_port t)"

definition xor_query ::
  "'w tcp_env \<Rightarrow> xorTransport \<Rightarrow> ctx \<Rightarrow> byte list \<Rightarrow> 'w \<Rightarrow> (kasa_error + byte list) \<times> 'w" where
  "xor_query E t c request w =
     (if xorMaxPayload < length request
      then (Inl (XorError (RequestTooLong (length request))), w)
      else case tcp_dial E (xt_timeout t) (xor_addr t) w of (ok, w) \<Rightarrow>
           if \<not> ok then (Inl (XorError ConnectFailed), w)
           else case xor_exchange E t c request w of (r, w) \<Rightarrow> (r, tcp_close E w))"

text \<open>\<^verbatim>\<open>Close\<close> does nothing: every query opens a connection of its own.\<close>

definition xor_close :: "xorTransport \<Rightarrow> xorTransport" where
  "xor_close t = t"

interpretation xor_conn: transport "\<lambda>t request w. case xor_query E t c request w of (r, w) \<Rightarrow> (r, t, w)"
    xor_close "\<lambda>_. True" "\<lambda>t. t" for E c
  by unfold_locales (simp_all add: xor_close_def split: prod.splits)

subsection \<open>Frames\<close>

lemma unat_of_nat_payload:
  "n \<le> xorMaxPayload \<Longrightarrow> unat (of_nat n :: 32 word) = n"
  by (simp add: unat_of_nat xorMaxPayload_def)

definition xor_unframe :: "byte list \<Rightarrow> byte list option" where
  "xor_unframe frame =
     (let len = unat (get_be32 frame) in
      if length frame = 4 + len then Some (xorDecrypt (drop 4 frame)) else None)"

text \<open>The length prefix is exact for every request the transport accepts.\<close>

interpretation xor_framing: codec xor_frame xor_unframe "\<lambda>p. length p \<le> xorMaxPayload"
  by unfold_locales (simp add: xor_frame_def xor_unframe_def unat_of_nat_payload)

subsection \<open>A conforming device\<close>

text \<open>
  The device the protocol describes: it decodes the framed request, computes its answer with
  \<open>dev\<close> and sends it back framed. Its world is the bytes still to be read by the exporter and the
  number of connections opened and closed.
\<close>

record xor_peer =
  inbox :: "byte list"
  opened :: nat
  closed :: nat

definition peer_env :: "(byte list \<Rightarrow> byte list) \<Rightarrow> xor_peer tcp_env" where
  "peer_env dev =
     \<lparr>tcp_dial = (\<lambda>_ _ w. (True, w\<lparr>inbox := [], opened := opened w + 1\<rparr>)),
      tcp_now = (\<lambda>_. 0),
      tcp_set_deadline = (\<lambda>_ w. (True, w)),
      tcp_write = (\<lambda>frame w. (True,
         case xor_unframe frame of
           None \<Rightarrow> w
         | Some request \<Rightarrow> w\<lparr>inbox := xor_frame (dev request)\<rparr>)),
      tcp_read = (\<lambda>n w. (take n (inbox w), w\<lparr>inbox := drop n (inbox w)\<rparr>)),
      tcp_close = (\<lambda>w. w\<lparr>closed := closed w + 1\<rparr>)\<rparr>"

lemma xor_query_peer:
  assumes "length request \<le> xorMaxPayload"
    and "0 < length (dev request)" and "length (dev request) \<le> xorMaxPayload"
  shows "\<exists>w'. xor_query (peer_env dev) t c request w = (Inr (dev request), w')
           \<and> opened w' = opened w + 1 \<and> closed w' = closed w + 1"
proof -
  have u: "xor_unframe (xor_frame request) = Some request"
    using assms(1) by (rule xor_framing.dec_enc)
  have n: "unat (of_nat (length (dev request)) :: 32 word) = length (dev request)"
    using assms(3) by (rule unat_of_nat_payload)
  let ?f = "xor_frame (dev request)"
  have hd: "take 4 ?f = put_be32 (of_nat (length (dev request)))"
    and tl: "drop 4 ?f = xorEncrypt (dev request)" and len: "4 \<le> length ?f"
    by (simp_all add: xor_frame_def)
  show ?thesis
    using assms
    by (simp add: xor_query_def xor_exchange_def peer_env_def read_full_def Let_def u hd tl len n)
qed

subsection \<open>What the connection sees\<close>

datatype tcp_event =
  Dial string bool | SetDeadline int | Write "byte list" | ReadFull nat | Close

definition traced :: "'w tcp_env \<Rightarrow> ('w \<times> tcp_event list) tcp_env" where
  "traced E =
     \<lparr>tcp_dial = (\<lambda>t addr (w, tr). case tcp_dial E t addr w of (ok, w) \<Rightarrow> (ok, w, tr @ [Dial addr ok])),
      tcp_now = (\<lambda>(w, tr). tcp_now E w),
      tcp_set_deadline = (\<lambda>d (w, tr). case tcp_set_deadline E d w of (ok, w) \<Rightarrow> (ok, w, tr @ [SetDeadline d])),
      tcp_write = (\<lambda>bs (w, tr). case tcp_write E bs w of (ok, w) \<Rightarrow> (ok, w, tr @ [Write bs])),
      tcp_read = (\<lambda>n (w, tr). case tcp_read E n w of (bs, w) \<Rightarrow> (bs, w, tr @ [ReadFull n])),
      tcp_close = (\<lambda>(w, tr). (tcp_close E w, tr @ [Close]))\<rparr>"

fun is_io :: "tcp_event \<Rightarrow> bool" where
  "is_io (SetDeadline _) = True"
| "is_io (Write _) = True"
| "is_io (ReadFull n) = (n \<le> max 4 xorMaxPayload)"
| "is_io _ = False"

lemma exchange_trace:
  assumes "xor_exchange (traced E) t c request (w, tr) = (r, w', tr')"
  shows "\<exists>io. tr' = tr @ io \<and> list_all is_io io"
  using assms
  by (auto simp: xor_exchange_def read_full_def traced_def Let_def split: kasa_splits)

subsection \<open>Properties\<close>

text \<open>C25. The cipher is a bijection on byte strings: decryption undoes encryption and encryption
  undoes decryption, for every message, and neither changes the length.\<close>

theorem xor_cipher_bijection:
  "xorDecrypt (xorEncrypt p) = p \<and> xorEncrypt (xorDecrypt p) = p
   \<and> length (xorEncrypt p) = length p \<and> length (xorDecrypt p) = length p"
  by simp

text \<open>C23. Against a device that follows the protocol, a query whose request and reply are within
  the 1 MiB limit returns exactly the device's reply, and leaves as many connections closed as it
  opened.\<close>

theorem xor_query_conforming_device:
  assumes "length request \<le> xorMaxPayload"
    and "0 < length (dev request)" and "length (dev request) \<le> xorMaxPayload"
  shows "\<exists>w'. xor_query (peer_env dev) t c request w = (Inr (dev request), w')
           \<and> opened w' = opened w + 1 \<and> closed w' = closed w + 1"
  using assms by (rule xor_query_peer)

theorem xor_query_conforming_device_witness:
  "\<exists>w'. xor_query (peer_env (\<lambda>r. rev r @ [1])) \<lparr>xt_host = ''h'', xt_port = 0, xt_timeout = 5\<rparr>
      \<lparr>ctx_deadline = None\<rparr> [7, 8] \<lparr>inbox = [], opened = 3, closed = 3\<rparr>
    = (Inr [8, 7, 1], w') \<and> opened w' = 4 \<and> closed w' = 4"
  using xor_query_conforming_device [of "[7, 8]" "\<lambda>r. rev r @ [1]"
      "\<lparr>xt_host = ''h'', xt_port = 0, xt_timeout = 5\<rparr>" "\<lparr>ctx_deadline = None\<rparr>"
      "\<lparr>inbox = [], opened = 3, closed = 3\<rparr>"]
  by (simp add: xorMaxPayload_def)

text \<open>C24. Whatever the network does, a query costs at most one connection and never leaks it: an
  oversized request touches nothing; otherwise the host is dialled once, and a connection that was
  established is closed exactly once, as the last thing the query does, with no read in between
  larger than the 1 MiB limit.\<close>

theorem xor_query_connection_discipline:
  "case xor_query (traced E) t c request (w, []) of (r, w', tr) \<Rightarrow>
     if xorMaxPayload < length request then tr = [] \<and> w' = w
     else \<exists>ok io. tr = Dial (xor_addr t) ok # (if ok then io @ [Close] else [])
            \<and> list_all is_io io"
proof -
  let ?addr = "xor_addr t"
  obtain ok w1 where d: "tcp_dial E (xt_timeout t) ?addr w = (ok, w1)" by fastforce
  obtain r w2 tr2 where x: "xor_exchange (traced E) t c request (w1, [Dial ?addr ok]) = (r, w2, tr2)"
    by (metis prod.collapse)
  obtain io where io: "tr2 = [Dial ?addr ok] @ io" "list_all is_io io"
    using exchange_trace [OF x] by blast
  have dt: "tcp_dial (traced E) (xt_timeout t) ?addr (w, []) = (ok, w1, [Dial ?addr ok])"
    using d by (simp add: traced_def)
  have cl: "tcp_close (traced E) (w2, tr2) = (tcp_close E w2, tr2 @ [Close])"
    by (simp add: traced_def)
  have q: "xor_query (traced E) t c request (w, []) =
      (if xorMaxPayload < length request
       then (Inl (XorError (RequestTooLong (length request))), w, [])
       else if \<not> ok then (Inl (XorError ConnectFailed), w1, [Dial ?addr ok])
       else (r, tcp_close E w2, tr2 @ [Close]))"
    unfolding xor_query_def dt using x cl by (cases ok) simp_all
  show ?thesis
    unfolding q using io by (cases ok) auto
qed

text \<open>A reply the transport accepts is never empty and never longer than the limit, whatever
  length the device declared and however many bytes it sent.\<close>

theorem xor_query_reply_bounds:
  assumes "xor_query E t c request w = (Inr reply, w')"
  shows "0 < length reply \<and> length reply \<le> xorMaxPayload"
  using assms
  by (auto simp: xor_query_def xor_exchange_def read_full_def Let_def split: kasa_splits)

theorem xor_query_reply_bounds_witness:
  "0 < length [8, 7, 1 :: byte] \<and> length [8, 7, 1 :: byte] \<le> xorMaxPayload"
proof -
  obtain w' where "xor_query (peer_env (\<lambda>r. rev r @ [1])) \<lparr>xt_host = ''h'', xt_port = 0, xt_timeout = 5\<rparr>
      \<lparr>ctx_deadline = None\<rparr> [7, 8] \<lparr>inbox = [], opened = 3, closed = 3\<rparr> = (Inr [8, 7, 1], w')"
    using xor_query_peer [of "[7, 8]" "\<lambda>r. rev r @ [1]"]
    by (simp add: xorMaxPayload_def) blast
  then show ?thesis by (rule xor_query_reply_bounds)
qed

end
