(* ===== verification/Cipher.thy ===== *)
theory Cipher
  imports Prelude
begin

text \<open>
  The cryptography the two HTTP transports share: PKCS#7 padding (\<^verbatim>\<open>pkcs7Pad\<close> and
  \<^verbatim>\<open>pkcs7Unpad\<close> of \<^verbatim>\<open>kasa/klap.go\<close>) and cipher block chaining. The digests and the AES block
  function of Go's \<^verbatim>\<open>crypto\<close> packages are the parameter \<open>crypto\<close>; \<open>crypto_ok\<close> states the
  documented facts the protocol relies on: digest sizes, and that a block decrypts to what was
  encrypted.
\<close>

subsection \<open>Padding\<close>

definition pkcs7Pad :: "byte list \<Rightarrow> nat \<Rightarrow> byte list" where
  "pkcs7Pad data blockSize =
     (let n = blockSize - length data mod blockSize in data @ replicate n (of_nat n))"

definition pkcs7Unpad :: "byte list \<Rightarrow> nat \<Rightarrow> kasa_error + byte list" where
  "pkcs7Unpad data blockSize =
     (if data = [] \<or> length data mod blockSize \<noteq> 0
      then Inl (CipherError (PadLength (length data)))
      else let n = unat (last data) in
        if n = 0 \<or> blockSize < n \<or> length data < n then Inl (CipherError (PadValue n))
        else if list_ex (\<lambda>b. unat b \<noteq> n) (drop (length data - n) data)
        then Inl (CipherError PadBytes)
        else Inr (take (length data - n) data))"

lemma length_pkcs7Pad [length_simps]:
  "0 < k \<Longrightarrow> length (pkcs7Pad data k) = (length data div k + 1) * k"
proof -
  assume k: "0 < k"
  then have "length data mod k < k" by simp
  then have "length (pkcs7Pad data k) = length data - length data mod k + k"
    by (simp add: pkcs7Pad_def Let_def)
  also have "\<dots> = (length data div k + 1) * k"
    by (simp add: minus_mod_eq_div_mult)
  finally show ?thesis .
qed

lemma pad_count_bounds: "0 < k \<Longrightarrow> 0 < k - n mod k \<and> k - n mod k \<le> (k :: nat)"
  by simp

lemma pkcs7Unpad_pad:
  assumes "0 < k" and "k < 256"
  shows "pkcs7Unpad (pkcs7Pad data k) k = Inr data"
proof -
  define n where "n = k - length data mod k"
  have n: "0 < n" "n \<le> k" using assms(1) by (simp_all add: n_def)
  then have u: "unat (of_nat n :: byte) = n" using assms(2) by (simp add: unat_of_nat)
  have p: "pkcs7Pad data k = data @ replicate n (of_nat n)"
    by (simp add: pkcs7Pad_def n_def Let_def)
  have dvd: "length (pkcs7Pad data k) mod k = 0"
    using assms(1) by (simp add: length_pkcs7Pad)
  have last: "last (pkcs7Pad data k) = of_nat n"
    using n by (simp add: p last_replicate)
  show ?thesis
    using n dvd last by (simp add: pkcs7Unpad_def p u Let_def list_ex_iff)
qed

lemma of_nat_eq_byte: "unat b = n \<Longrightarrow> b = (of_nat n :: byte)"
  by (drule sym) simp

lemma pad_residue:
  assumes "0 < n" "n \<le> k" and dvd: "(m + n) mod k = (0 :: nat)"
  shows "k - m mod k = n"
proof -
  have l: "m mod k < k" using assms by simp
  moreover have "(m mod k + n) mod k = 0" using dvd by (simp add: mod_add_left_eq)
  ultimately have r: "0 < m mod k + n" "m mod k + n < 2 * k" "k dvd m mod k + n"
    using assms(1,2) l by (linarith, linarith, auto)
  then obtain q where q: "m mod k + n = k * q" by (auto elim: dvdE)
  with r have "q = 1" by (cases q; cases "q - 1") auto
  with q show ?thesis by simp
qed

lemma pkcs7Unpad_only_pad:
  assumes "pkcs7Unpad x k = Inr data" and "0 < k"
  shows "x = pkcs7Pad data k"
proof -
  define n where "n = unat (last x)"
  have u: "(if x = [] \<or> length x mod k \<noteq> 0 then Inl (CipherError (PadLength (length x)))
      else if n = 0 \<or> k < n \<or> length x < n then Inl (CipherError (PadValue n))
      else if list_ex (\<lambda>b. unat b \<noteq> n) (drop (length x - n) x) then Inl (CipherError PadBytes)
      else Inr (take (length x - n) x)) = Inr data"
    using assms(1) unfolding pkcs7Unpad_def Let_def n_def [symmetric] .
  have ne: "x \<noteq> []" and dvd: "length x mod k = 0"
    using u by (auto split: if_split_asm)
  have n0: "0 < n" and nk: "n \<le> k" and nx: "n \<le> length x"
    using u ne dvd by (auto split: if_split_asm)
  have data: "data = take (length x - n) x" and bytes: "\<forall>b \<in> set (drop (length x - n) x). unat b = n"
    using u ne dvd n0 nk nx by (simp_all add: list_ex_iff split: if_split_asm)
  have tail: "drop (length x - n) x = replicate n (of_nat n)"
  proof -
    have "\<forall>b \<in> set (drop (length x - n) x). b = of_nat n"
      using bytes of_nat_eq_byte by blast
    then have "drop (length x - n) x = replicate (length (drop (length x - n) x)) (of_nat n)"
      by (metis replicate_eqI)
    then show ?thesis using nx by simp
  qed
  have split: "x = data @ replicate n (of_nat n)"
    using tail data by (metis append_take_drop_id)
  have ld: "length x = length data + n" by (subst split) simp
  have "k - length data mod k = n"
    using dvd n0 nk by (simp add: ld pad_residue)
  then show ?thesis using split by (simp add: pkcs7Pad_def Let_def)
qed

lemma pkcs7Unpad_iff:
  assumes "0 < k" and "k < 256"
  shows "pkcs7Unpad x k = Inr data \<longleftrightarrow> x = pkcs7Pad data k"
  using pkcs7Unpad_pad [OF assms] pkcs7Unpad_only_pad [OF _ assms(1)] by metis

text \<open>C26. Unpadding accepts exactly the padded blocks: for every block size PKCS#7 allows, it returns
  \<open>data\<close> on an input precisely when that input is \<open>data\<close> padded, so a trailer that is not a valid
  pad is an error and never corrupt plaintext.\<close>

theorem pkcs7_accepts_exactly_padded:
  assumes "0 < blockSize" and "blockSize < 256"
  shows "pkcs7Unpad x blockSize = Inr data \<longleftrightarrow> x = pkcs7Pad data blockSize"
  using assms by (rule pkcs7Unpad_iff)

theorem pkcs7_accepts_exactly_padded_witness:
  "(pkcs7Unpad [7, 3, 3, 3] 4 = Inr [7]) = ([7, 3, 3, 3] = pkcs7Pad [7] 4)
   \<and> pkcs7Pad [7] 4 = [7, 3, 3, 3] \<and> pkcs7Unpad [7, 9, 3, 3] 4 \<noteq> Inr [7]"
proof -
  have p: "pkcs7Pad [7] 4 = [7, 3, 3, 3]"
    by code_simp
  show ?thesis
    using pkcs7_accepts_exactly_padded [of 4 "[7, 3, 3, 3]" "[7]"]
      pkcs7_accepts_exactly_padded [of 4 "[7, 9, 3, 3]" "[7]"] by (simp add: p)
qed

interpretation pkcs7: codec "\<lambda>d. pkcs7Pad d 16" "\<lambda>x. case pkcs7Unpad x 16 of Inl _ \<Rightarrow> None | Inr d \<Rightarrow> Some d"
    "\<lambda>_. True"
  by unfold_locales (simp add: pkcs7Unpad_pad)

subsection \<open>Cipher block chaining\<close>

definition xor_block :: "byte list \<Rightarrow> byte list \<Rightarrow> byte list" where
  "xor_block a b = map2 (\<lambda>x y. x XOR y) a b"

lemma length_xor_block [length_simps, simp]: "length (xor_block a b) = min (length a) (length b)"
  by (simp add: xor_block_def)

lemma xor_block_cancel: "length a \<le> length b \<Longrightarrow> xor_block (xor_block a b) b = a"
  by (induction a b rule: list_induct2') (simp_all add: xor_block_def xor.assoc)

function cbc_encrypt :: "(byte list \<Rightarrow> byte list) \<Rightarrow> byte list \<Rightarrow> byte list \<Rightarrow> byte list" where
  "cbc_encrypt E iv p =
     (if p = [] then []
      else let c = E (xor_block (take 16 p) iv) in c @ cbc_encrypt E c (drop 16 p))"
  by pat_completeness auto
termination
  by (relation "measure (\<lambda>(E, iv, p). length p)") auto

function cbc_decrypt :: "(byte list \<Rightarrow> byte list) \<Rightarrow> byte list \<Rightarrow> byte list \<Rightarrow> byte list" where
  "cbc_decrypt D iv c =
     (if c = [] then []
      else xor_block (D (take 16 c)) iv @ cbc_decrypt D (take 16 c) (drop 16 c))"
  by pat_completeness auto
termination
  by (relation "measure (\<lambda>(D, iv, c). length c)") auto

declare cbc_encrypt.simps [simp del] cbc_decrypt.simps [simp del]

lemma cbc_encrypt_Nil [simp]: "cbc_encrypt E iv [] = []"
  by (simp add: cbc_encrypt.simps)

lemma cbc_decrypt_Nil [simp]: "cbc_decrypt D iv [] = []"
  by (simp add: cbc_decrypt.simps)

text \<open>Blocks of 16 bytes, and a pair of block functions that undo each other on them.\<close>

definition block_pair :: "(byte list \<Rightarrow> byte list) \<Rightarrow> (byte list \<Rightarrow> byte list) \<Rightarrow> bool" where
  "block_pair E D \<longleftrightarrow> (\<forall>b. length b = 16 \<longrightarrow> length (E b) = 16 \<and> D (E b) = b)"

lemma cbc_step:
  assumes "16 dvd length p" and "p \<noteq> []"
  shows "length (take 16 p) = 16" and "16 dvd length (drop 16 p)"
proof -
  from assms have "16 \<le> length p" by (simp add: dvd_imp_le)
  then show "length (take 16 p) = 16" by simp
  show "16 dvd length (drop 16 p)" using assms(1) by simp
qed

lemma cbc_roundtrip:
  assumes "block_pair E D"
  shows "16 dvd length p \<Longrightarrow> length iv = 16 \<Longrightarrow>
    length (cbc_encrypt E iv p) = length p \<and> cbc_decrypt D iv (cbc_encrypt E iv p) = p"
proof (induction "length p" arbitrary: p iv rule: less_induct)
  case less
  show ?case
  proof (cases "p = []")
    case False
    define c where "c = E (xor_block (take 16 p) iv)"
    have p1: "length (take 16 p) = 16" and p2: "16 dvd length (drop 16 p)"
      using cbc_step [OF less.prems(1) False] .
    have "length (xor_block (take 16 p) iv) = 16" using p1 less.prems(2) by simp
    with assms have c: "length c = 16" "D c = xor_block (take 16 p) iv"
      by (simp_all add: block_pair_def c_def)
    have IH: "length (cbc_encrypt E c (drop 16 p)) = length (drop 16 p)
        \<and> cbc_decrypt D c (cbc_encrypt E c (drop 16 p)) = drop 16 p"
      using less.hyps [of "drop 16 p" c] p2 c(1) False by simp
    have e: "cbc_encrypt E iv p = c @ cbc_encrypt E c (drop 16 p)"
      using False by (simp add: cbc_encrypt.simps [of E iv p] c_def Let_def)
    have "cbc_decrypt D iv (c @ cbc_encrypt E c (drop 16 p)) =
        xor_block (D c) iv @ cbc_decrypt D c (cbc_encrypt E c (drop 16 p))"
      using c(1) by (subst cbc_decrypt.simps) auto
    also have "\<dots> = take 16 p @ drop 16 p"
      using IH c(2) p1 less.prems(2) by (simp add: xor_block_cancel)
    finally show ?thesis
      using e IH c(1) p1 by simp
  qed simp
qed

lemma length_cbc_decrypt:
  "16 dvd length c \<Longrightarrow> length iv = 16 \<Longrightarrow> (\<And>b. length b = 16 \<Longrightarrow> length (D b) = 16) \<Longrightarrow>
    length (cbc_decrypt D iv c) = length c"
proof (induction "length c" arbitrary: c iv rule: less_induct)
  case less
  show ?case
  proof (cases "c = []")
    case False
    have c1: "length (take 16 c) = 16" and c2: "16 dvd length (drop 16 c)"
      using cbc_step [OF less.prems(1) False] .
    have "length (cbc_decrypt D (take 16 c) (drop 16 c)) = length (drop 16 c)"
      using less.hyps [of "drop 16 c" "take 16 c"] c1 c2 False less.prems(3) by simp
    then show ?thesis
      using False c1 less.prems(2,3) by (simp add: cbc_decrypt.simps [of D iv c])
  qed simp
qed

subsection \<open>The primitives of Go's \<^verbatim>\<open>crypto\<close> packages\<close>

record crypto =
  md5 :: "byte list \<Rightarrow> byte list"
  sha1 :: "byte list \<Rightarrow> byte list"
  sha256 :: "byte list \<Rightarrow> byte list"
  aes_enc :: "byte list \<Rightarrow> byte list \<Rightarrow> byte list"
  aes_dec :: "byte list \<Rightarrow> byte list \<Rightarrow> byte list"

text \<open>\<^verbatim>\<open>aes.NewCipher\<close> accepts keys of 16, 24 and 32 bytes.\<close>

definition aes_key_ok :: "byte list \<Rightarrow> bool" where
  "aes_key_ok key \<longleftrightarrow> length key \<in> {16, 24, 32}"

definition crypto_ok :: "crypto \<Rightarrow> bool" where
  "crypto_ok C \<longleftrightarrow>
     (\<forall>x. length (md5 C x) = 16) \<and> (\<forall>x. length (sha1 C x) = 20) \<and>
     (\<forall>x. length (sha256 C x) = 32) \<and>
     (\<forall>key. aes_key_ok key \<longrightarrow> block_pair (aes_enc C key) (aes_dec C key))"

lemma crypto_okD:
  assumes "crypto_ok C"
  shows "length (md5 C x) = 16" and "length (sha1 C x) = 20" and "length (sha256 C x) = 32"
    and "aes_key_ok key \<Longrightarrow> block_pair (aes_enc C key) (aes_dec C key)"
  using assms by (simp_all add: crypto_ok_def)

text \<open>Padding followed by chaining, and the way back: the cipher both transports run.\<close>

definition cbc_seal :: "crypto \<Rightarrow> byte list \<Rightarrow> byte list \<Rightarrow> byte list \<Rightarrow> byte list" where
  "cbc_seal C key iv payload = cbc_encrypt (aes_enc C key) iv (pkcs7Pad payload 16)"

definition cbc_open :: "crypto \<Rightarrow> byte list \<Rightarrow> byte list \<Rightarrow> byte list \<Rightarrow> kasa_error + byte list" where
  "cbc_open C key iv ciphertext = pkcs7Unpad (cbc_decrypt (aes_dec C key) iv ciphertext) 16"

lemma pkcs7Pad_blocks: "16 dvd length (pkcs7Pad payload 16)" "pkcs7Pad payload 16 \<noteq> []"
proof -
  have "length (pkcs7Pad payload 16) = (length payload div 16 + 1) * 16"
    by (simp add: length_pkcs7Pad)
  then show "16 dvd length (pkcs7Pad payload 16)" "pkcs7Pad payload 16 \<noteq> []" by auto
qed

lemma cbc_open_seal:
  assumes "crypto_ok C" and "aes_key_ok key" and "length iv = 16"
  shows "cbc_open C key iv (cbc_seal C key iv payload) = Inr payload"
  using cbc_roundtrip [OF crypto_okD(4) [OF assms(1,2)] pkcs7Pad_blocks(1) assms(3)]
  by (simp add: cbc_open_def cbc_seal_def pkcs7Unpad_pad)

lemma cbc_seal_length:
  assumes "crypto_ok C" and "aes_key_ok key" and "length iv = 16"
  shows "16 dvd length (cbc_seal C key iv payload)" and "cbc_seal C key iv payload \<noteq> []"
    and "length (cbc_seal C key iv payload) \<le> length payload + 16"
proof -
  have l: "length (cbc_seal C key iv payload) = length (pkcs7Pad payload 16)"
    using cbc_roundtrip [OF crypto_okD(4) [OF assms(1,2)] pkcs7Pad_blocks(1) assms(3)]
    by (simp add: cbc_seal_def)
  show "16 dvd length (cbc_seal C key iv payload)" using l pkcs7Pad_blocks(1) by simp
  show "cbc_seal C key iv payload \<noteq> []" using l pkcs7Pad_blocks(2) by auto
  show "length (cbc_seal C key iv payload) \<le> length payload + 16"
    unfolding l by (simp add: pkcs7Pad_def Let_def)
qed

text \<open>
  A toy instance that satisfies \<open>crypto_ok\<close>, for closed examples: the digests (reversed for SHA-256) cut or fill to
  size and the block function adds the key's first byte.
\<close>

definition fit :: "nat \<Rightarrow> byte list \<Rightarrow> byte list" where
  "fit n x = take n (x @ replicate n 0)"

definition toy_crypto :: crypto where
  "toy_crypto =
     \<lparr>md5 = fit 16, sha1 = fit 20, sha256 = (\<lambda>x. fit 32 (rev x)),
      aes_enc = (\<lambda>key. map (\<lambda>b. b + hd key)), aes_dec = (\<lambda>key. map (\<lambda>b. b - hd key))\<rparr>"

lemma length_fit [simp]: "length (fit n x) = n"
  by (simp add: fit_def)

lemma toy_crypto_ok: "crypto_ok toy_crypto"
  by (simp add: crypto_ok_def toy_crypto_def block_pair_def comp_def)

end
