(* ===== verification/Http.thy ===== *)
theory Http
  imports Prelude
begin

text \<open>
  The HTTP client and the random source as the KLAP and AES transports see them: a record of the
  operations they call, over a world \<^typ>\<open>'w\<close> that stands for the device and the network. The
  helper \<open>http_fetch\<close> is the part the two transports' \<^verbatim>\<open>klapPost\<close> and \<^verbatim>\<open>post\<close> have in common:
  one POST whose body is read under the response limit.
\<close>

record http_request =
  rq_url :: string
  rq_body :: "byte list"
  rq_cookie :: "string option"

record http_response =
  rs_status :: int
  rs_body :: "byte list"
  rs_failed :: bool
  rs_cookies :: "(string \<times> string) list"

text \<open>
  \<open>http_do\<close> gives no response when the request could not be made or answered within the client's
  timeout. In a response, \<open>rs_body\<close> is the body up to its end or, with \<open>rs_failed\<close>, up to where
  reading it failed. \<open>rand_read\<close> is \<^verbatim>\<open>crypto/rand\<close>.
\<close>

record 'w http_env =
  http_do :: "http_request \<Rightarrow> 'w \<Rightarrow> http_response option \<times> 'w"
  rand_read :: "nat \<Rightarrow> 'w \<Rightarrow> byte list option \<times> 'w"

definition maxResponseBytes :: nat where
  "maxResponseBytes = 8 * 2 ^ 20"

definition http_ok :: int where
  "http_ok = 200"

definition http_forbidden :: int where
  "http_forbidden = 403"

text \<open>
  \<^verbatim>\<open>io.ReadAll(io.LimitReader(resp.Body, maxResponseBytes+1))\<close>: a read error past the limit is
  never seen.
\<close>

definition read_limited :: "http_response \<Rightarrow> kasa_error + byte list" where
  "read_limited r =
     (if rs_failed r \<and> length (rs_body r) \<le> maxResponseBytes then Inl (HttpError BodyFailed)
      else let data = take (maxResponseBytes + 1) (rs_body r) in
        if maxResponseBytes < length data then Inl (HttpError BodyOversized) else Inr data)"

lemma read_limited_bound:
  "read_limited r = Inr data \<Longrightarrow> length data \<le> maxResponseBytes \<and> data = rs_body r"
  by (auto simp: read_limited_def Let_def split: if_splits)

text \<open>The last \<^verbatim>\<open>TP_SESSIONID\<close> cookie of a response, if it sets one.\<close>

definition session_cookie :: "http_response \<Rightarrow> string option" where
  "session_cookie r =
     map_option snd (find (\<lambda>c. fst c = ''TP_SESSIONID'') (rev (rs_cookies r)))"

definition cookie_of :: "string \<Rightarrow> string option" where
  "cookie_of sid = (if sid = [] then None else Some sid)"

text \<open>An environment that records the requests made, to state what a device gets to see.\<close>

definition traced_http :: "'w http_env \<Rightarrow> ('w \<times> http_request list) http_env" where
  "traced_http E =
     \<lparr>http_do = (\<lambda>rq (w, tr). case http_do E rq w of (r, w) \<Rightarrow> (r, w, tr @ [rq])),
      rand_read = (\<lambda>n (w, tr). case rand_read E n w of (r, w) \<Rightarrow> (r, w, tr))\<rparr>"

end
