(* ===== verification/Klap.thy ===== *)
theory Klap
  imports Cipher Http Transport
begin

text \<open>
  The KLAP transport, \<^verbatim>\<open>kasa/klap.go\<close>: the two-post handshake that authenticates a login and
  derives a session, the signed and encrypted request, and the query that re-establishes a
  session the device has forgotten.
\<close>

definition klapLoginV1 :: int where "klapLoginV1 = 1"
definition klapLoginV2 :: int where "klapLoginV2 = 2"

definition klapSeedLen :: nat where "klapSeedLen = 16"
definition klapHashLen :: nat where "klapHashLen = 32"
definition klapHandshakeLen :: nat where "klapHandshakeLen = klapSeedLen + klapHashLen"
definition klapSigLen :: nat where "klapSigLen = 32"

lemmas klap_lens = klapSeedLen_def klapHashLen_def klapHandshakeLen_def klapSigLen_def

record Credentials =
  Username :: string
  Password :: string

definition klapFallbackCredentials :: "Credentials list" where
  "klapFallbackCredentials =
     [\<lparr>Username = [], Password = []\<rparr>,
      \<lparr>Username = ''kasa@tp-link.net'', Password = ''kasaSetup''\<rparr>,
      \<lparr>Username = ''test@tp-link.net'', Password = ''test''\<rparr>]"

record klapTransport =
  kt_baseURL :: string
  kt_credentials :: Credentials
  kt_loginVersion :: int
  kt_sessionID :: string
  kt_encKey :: "byte list"
  kt_sigKey :: "byte list"
  kt_iv :: "byte list"
  kt_seq :: "32 word"
  kt_established :: bool

subsection \<open>Key derivation\<close>

definition klapAuthHash :: "crypto \<Rightarrow> Credentials \<Rightarrow> int \<Rightarrow> byte list" where
  "klapAuthHash C creds loginVersion =
     (let user = bytes_of (Username creds); pass = bytes_of (Password creds) in
      if loginVersion = klapLoginV2
      then sha256 C (sha1 C user @ sha1 C pass)
      else md5 C (md5 C user @ md5 C pass))"

definition klapSHA256 :: "crypto \<Rightarrow> byte list list \<Rightarrow> byte list" where
  "klapSHA256 C parts = sha256 C (concat parts)"

record session_keys =
  sk_enc :: "byte list"
  sk_sig :: "byte list"
  sk_iv :: "byte list"
  sk_seq :: "32 word"

definition klapDeriveSession ::
  "crypto \<Rightarrow> byte list \<Rightarrow> byte list \<Rightarrow> byte list \<Rightarrow> session_keys" where
  "klapDeriveSession C localSeed remoteSeed authHash =
     (let fullIV = klapSHA256 C [bytes_of ''iv'', localSeed, remoteSeed, authHash] in
      \<lparr>sk_enc = take 16 (klapSHA256 C [bytes_of ''lsk'', localSeed, remoteSeed, authHash]),
       sk_sig = take 28 (klapSHA256 C [bytes_of ''ldk'', localSeed, remoteSeed, authHash]),
       sk_iv = take 12 fullIV,
       sk_seq = get_be32 (take 4 (drop 28 fullIV))\<rparr>)"

subsection \<open>One post\<close>

text \<open>The status, body and session cookie of one POST; the cookie is empty when none was set.\<close>

definition klapPost ::
  "'w http_env \<Rightarrow> klapTransport \<Rightarrow> string \<Rightarrow> byte list \<Rightarrow> 'w
     \<Rightarrow> (kasa_error + int \<times> byte list \<times> string) \<times> 'w" where
  "klapPost E t path body w =
     (case http_do E \<lparr>rq_url = kt_baseURL t @ path, rq_body = body,
                      rq_cookie = cookie_of (kt_sessionID t)\<rparr> w of
        (None, w) \<Rightarrow> (Inl (HttpError RequestFailed), w)
      | (Some r, w) \<Rightarrow>
          (case read_limited r of
             Inl e \<Rightarrow> (Inl e, w)
           | Inr data \<Rightarrow>
               (Inr (rs_status r, data,
                     case session_cookie r of None \<Rightarrow> [] | Some v \<Rightarrow> v), w)))"

subsection \<open>The handshake\<close>

definition klap_candidates :: "klapTransport \<Rightarrow> Credentials list" where
  "klap_candidates t = kt_credentials t # klapFallbackCredentials"

text \<open>The first candidate login whose hash over both seeds is the one the device sent.\<close>

definition klap_match ::
  "crypto \<Rightarrow> klapTransport \<Rightarrow> byte list \<Rightarrow> byte list \<Rightarrow> byte list \<Rightarrow> byte list option" where
  "klap_match C t localSeed remoteSeed serverHash =
     find (\<lambda>h. klapSHA256 C [localSeed, remoteSeed, h] = serverHash)
       (map (\<lambda>creds. klapAuthHash C creds (kt_loginVersion t)) (klap_candidates t))"

definition klap_install :: "klapTransport \<Rightarrow> session_keys \<Rightarrow> klapTransport" where
  "klap_install t k =
     t\<lparr>kt_encKey := sk_enc k, kt_sigKey := sk_sig k, kt_iv := sk_iv k, kt_seq := sk_seq k,
       kt_established := True\<rparr>"

definition klap_handshake ::
  "crypto \<Rightarrow> 'w http_env \<Rightarrow> klapTransport \<Rightarrow> 'w \<Rightarrow> (kasa_error + unit) \<times> klapTransport \<times> 'w" where
  "klap_handshake C E t w =
     (case rand_read E klapSeedLen w of
        (None, w) \<Rightarrow> (Inl (KlapError RandFailed), t, w)
      | (Some localSeed, w) \<Rightarrow>
      let t = t\<lparr>kt_sessionID := []\<rparr> in
      case klapPost E t ''/handshake1'' localSeed w of
        (Inl e, w) \<Rightarrow> (Inl e, t, w)
      | (Inr (status, data, session), w) \<Rightarrow>
          if status \<noteq> http_ok then (Inl (KlapError (Handshake1Status status)), t, w)
          else if length data \<noteq> klapHandshakeLen
          then (Inl (KlapError (Handshake1Length (length data))), t, w)
          else
          let remoteSeed = take klapSeedLen data; serverHash = drop klapSeedLen data in
          case klap_match C t localSeed remoteSeed serverHash of
            None \<Rightarrow> (Inl (KlapError KlapUnauthorized), t, w)
          | Some authHash \<Rightarrow>
          let t = t\<lparr>kt_sessionID := session\<rparr> in
          case klapPost E t ''/handshake2'' (klapSHA256 C [remoteSeed, localSeed, authHash]) w of
            (Inl e, w) \<Rightarrow> (Inl e, t, w)
          | (Inr (status, _, _), w) \<Rightarrow>
              if status \<noteq> http_ok then (Inl (KlapError (Handshake2Status status)), t, w)
              else (Inr (), klap_install t (klapDeriveSession C localSeed remoteSeed authHash), w))"

subsection \<open>Requests\<close>

definition blockIV :: "klapTransport \<Rightarrow> 32 word \<Rightarrow> byte list" where
  "blockIV t seq = kt_iv t @ put_be32 seq"

definition klapEncrypt ::
  "crypto \<Rightarrow> klapTransport \<Rightarrow> byte list \<Rightarrow> 32 word \<Rightarrow> kasa_error + byte list" where
  "klapEncrypt C t payload seq =
     (if \<not> aes_key_ok (kt_encKey t) then Inl (CipherError (KeySize (length (kt_encKey t))))
      else let ciphertext = cbc_seal C (kt_encKey t) (blockIV t seq) payload in
        Inr (klapSHA256 C [kt_sigKey t, put_be32 seq, ciphertext] @ ciphertext))"

definition klapDecrypt ::
  "crypto \<Rightarrow> klapTransport \<Rightarrow> byte list \<Rightarrow> 32 word \<Rightarrow> kasa_error + byte list" where
  "klapDecrypt C t body seq =
     (if length body \<le> klapSigLen then Inl (CipherError (TooShort (length body)))
      else let ciphertext = drop klapSigLen body in
        if \<not> aes_key_ok (kt_encKey t) then Inl (CipherError (KeySize (length (kt_encKey t))))
        else if length ciphertext mod 16 \<noteq> 0
        then Inl (CipherError (Unaligned (length ciphertext)))
        else cbc_open C (kt_encKey t) (blockIV t seq) ciphertext)"

text \<open>\<^verbatim>\<open>fmt.Sprintf("/request?seq=%d", seq)\<close>, the sequence number printed as a signed integer.\<close>

definition request_path :: "32 word \<Rightarrow> string" where
  "request_path seq = ''/request?seq='' @ itoa (sint seq)"

text \<open>The loop of \<^verbatim>\<open>Query\<close>, with the number of attempts left.\<close>

fun klap_attempts ::
  "nat \<Rightarrow> crypto \<Rightarrow> 'w http_env \<Rightarrow> klapTransport \<Rightarrow> byte list \<Rightarrow> 'w
     \<Rightarrow> (kasa_error + byte list) \<times> klapTransport \<times> 'w" where
  "klap_attempts 0 C E t request w = (Inl (KlapError RejectedTwice), t, w)"
| "klap_attempts (Suc n) C E t request w =
     (case (if kt_established t then (Inr (), t, w) else klap_handshake C E t w) of
        (Inl e, t, w) \<Rightarrow> (Inl e, t, w)
      | (Inr _, t, w) \<Rightarrow>
      let t = t\<lparr>kt_seq := kt_seq t + 1\<rparr>; seq = kt_seq t in
      case klapEncrypt C t request seq of
        Inl e \<Rightarrow> (Inl e, t, w)
      | Inr body \<Rightarrow>
      (case klapPost E t (request_path seq) body w of
        (Inl e, w) \<Rightarrow> (Inl e, t, w)
      | (Inr (status, data, _), w) \<Rightarrow>
          if status = http_forbidden
          then klap_attempts n C E (t\<lparr>kt_established := False\<rparr>) request w
          else if status \<noteq> http_ok then (Inl (KlapError (RequestStatus status)), t, w)
          else (klapDecrypt C t data seq, t, w)))"

definition klap_query ::
  "crypto \<Rightarrow> 'w http_env \<Rightarrow> klapTransport \<Rightarrow> byte list \<Rightarrow> 'w
     \<Rightarrow> (kasa_error + byte list) \<times> klapTransport \<times> 'w" where
  "klap_query C E t request w = klap_attempts 2 C E t request w"

definition klap_close :: "klapTransport \<Rightarrow> klapTransport" where
  "klap_close t = t\<lparr>kt_established := False, kt_sessionID := []\<rparr>"

subsection \<open>What a session is\<close>

text \<open>An established session has keys of the sizes the derivation cuts them to.\<close>

definition klap_session_ok :: "klapTransport \<Rightarrow> bool" where
  "klap_session_ok t \<longleftrightarrow>
     (kt_established t \<longrightarrow>
        length (kt_encKey t) = 16 \<and> length (kt_sigKey t) = 28 \<and> length (kt_iv t) = 12)"

text \<open>What no operation of the transport changes.\<close>

definition klap_config :: "klapTransport \<Rightarrow> string \<times> Credentials \<times> int" where
  "klap_config t = (kt_baseURL t, kt_credentials t, kt_loginVersion t)"

lemma klap_derive_sizes:
  assumes "crypto_ok C"
  shows "length (sk_enc (klapDeriveSession C l r h)) = 16"
    and "length (sk_sig (klapDeriveSession C l r h)) = 28"
    and "length (sk_iv (klapDeriveSession C l r h)) = 12"
  using assms by (simp_all add: klapDeriveSession_def klapSHA256_def Let_def crypto_okD)

lemma klap_handshake_ok:
  assumes "crypto_ok C" and "klap_session_ok t" and "klap_handshake C E t w = (r, t', w')"
  shows "klap_session_ok t'"
  using assms
  by (auto simp: klap_handshake_def klap_session_ok_def klap_install_def klap_derive_sizes Let_def
      split: sum.splits option.splits prod.splits if_splits)

lemma klap_handshake_config:
  "klap_handshake C E t w = (r, t', w') \<Longrightarrow> klap_config t' = klap_config t"
  by (auto simp: klap_handshake_def klap_config_def klap_install_def Let_def
      split: sum.splits option.splits prod.splits if_splits)

lemma klap_handshake_established:
  "klap_handshake C E t w = (Inr u, t', w') \<Longrightarrow> kt_established t'"
  by (auto simp: klap_handshake_def klap_install_def Let_def
      split: sum.splits option.splits prod.splits if_splits)

text \<open>One attempt that has a session: bump the sequence number, encrypt, post, interpret.\<close>

lemma klap_session_ok_update:
  "klap_session_ok (t\<lparr>kt_seq := s\<rparr>) = klap_session_ok t"
  "klap_session_ok (t\<lparr>kt_seq := s, kt_established := False\<rparr>)"
  by (simp_all add: klap_session_ok_def)

lemma klap_config_update [simp]:
  "klap_config (t\<lparr>kt_seq := s\<rparr>) = klap_config t"
  "klap_config (t\<lparr>kt_established := b\<rparr>) = klap_config t"
  "klap_config (t\<lparr>kt_sessionID := sid\<rparr>) = klap_config t"
  by (simp_all add: klap_config_def)

lemma klap_attempts_ok:
  assumes "crypto_ok C"
  shows "klap_session_ok t \<Longrightarrow> klap_attempts n C E t request w = (r, t', w') \<Longrightarrow> klap_session_ok t'"
proof (induction n arbitrary: t w)
  case (Suc n)
  obtain x t1 w1 where h: "(if kt_established t then (Inr (), t, w) else klap_handshake C E t w) = (x, t1, w1)"
    by (metis prod.collapse)
  have ok1: "klap_session_ok t1"
    using h Suc.prems(1) klap_handshake_ok [OF assms] by (auto split: if_splits)
  from Suc.prems(2) ok1 show ?case
    by (auto simp: h Let_def klap_session_ok_update split: sum.splits prod.splits if_splits)
      (rule Suc.IH [rotated], assumption, simp add: klap_session_ok_update)
qed simp

lemma klap_attempts_config:
  "klap_attempts n C E t request w = (r, t', w') \<Longrightarrow> klap_config t' = klap_config t"
proof (induction n arbitrary: t w)
  case (Suc n)
  obtain x t1 w1 where h: "(if kt_established t then (Inr (), t, w) else klap_handshake C E t w) = (x, t1, w1)"
    by (metis prod.collapse)
  have c1: "klap_config t1 = klap_config t"
    using h klap_handshake_config by (auto split: if_splits)
  from Suc.prems c1 show ?case
    by (auto simp: h Let_def split: sum.splits prod.splits if_splits dest: Suc.IH)
qed simp

interpretation klap: transport "klap_query C E" klap_close
    "\<lambda>t. crypto_ok C \<longrightarrow> klap_session_ok t" klap_config
  for C :: crypto and E :: "'w http_env"
proof
  fix t t' request r and w w' :: 'w
  show "crypto_ok C \<longrightarrow> klap_session_ok t \<Longrightarrow> klap_query C E t request w = (r, t', w')
      \<Longrightarrow> crypto_ok C \<longrightarrow> klap_session_ok t'"
    unfolding klap_query_def by (auto intro: klap_attempts_ok)
  show "klap_query C E t request w = (r, t', w') \<Longrightarrow> klap_config t' = klap_config t"
    unfolding klap_query_def by (rule klap_attempts_config)
qed (simp_all add: klap_close_def klap_session_ok_def klap_config_def)

subsection \<open>Encryption\<close>

lemma length_blockIV [length_simps, simp]: "length (blockIV t seq) = length (kt_iv t) + 4"
  by (simp add: blockIV_def)

abbreviation klap_ciphertext :: "crypto \<Rightarrow> klapTransport \<Rightarrow> byte list \<Rightarrow> 32 word \<Rightarrow> byte list" where
  "klap_ciphertext C t payload seq \<equiv> cbc_seal C (kt_encKey t) (blockIV t seq) payload"

lemma klapEncrypt_Inr:
  assumes "crypto_ok C" and "aes_key_ok (kt_encKey t)" and "length (kt_iv t) = 12"
  shows "klapEncrypt C t payload seq =
      Inr (klapSHA256 C [kt_sigKey t, put_be32 seq, klap_ciphertext C t payload seq]
           @ klap_ciphertext C t payload seq)"
    and "klap_ciphertext C t payload seq \<noteq> []"
    and "length (klap_ciphertext C t payload seq) mod 16 = 0"
    and "length (klap_ciphertext C t payload seq) \<le> length payload + 16"
proof -
  have iv: "length (blockIV t seq) = 16" using assms(3) by simp
  note sealed = cbc_seal_length [OF assms(1,2) iv, of payload]
  show "klapEncrypt C t payload seq =
      Inr (klapSHA256 C [kt_sigKey t, put_be32 seq, klap_ciphertext C t payload seq]
           @ klap_ciphertext C t payload seq)"
    using assms(2) by (simp add: klapEncrypt_def Let_def)
  show "length (klap_ciphertext C t payload seq) mod 16 = 0"
    using sealed(1) by (rule dvd_imp_mod_0)
  show "klap_ciphertext C t payload seq \<noteq> []" by (rule sealed(2))
  show "length (klap_ciphertext C t payload seq) \<le> length payload + 16" by (rule sealed(3))
qed

lemma klapDecrypt_encrypt:
  assumes "crypto_ok C" and "aes_key_ok (kt_encKey t)" and "length (kt_iv t) = 12"
    and "klapEncrypt C t payload seq = Inr body"
  shows "klapDecrypt C t body seq = Inr payload"
proof -
  define c where "c = klap_ciphertext C t payload seq"
  note c = klapEncrypt_Inr [OF assms(1-3), where payload = payload and seq = seq, folded c_def]
  have body: "body = klapSHA256 C [kt_sigKey t, put_be32 seq, c] @ c" using c(1) assms(4) by simp
  have sig: "length (klapSHA256 C [kt_sigKey t, put_be32 seq, c]) = 32"
    using assms(1) by (simp add: klapSHA256_def crypto_okD)
  have "cbc_open C (kt_encKey t) (blockIV t seq) c = Inr payload"
    unfolding c_def using assms by (intro cbc_open_seal) simp_all
  then show ?thesis
    using assms(2) c(2,3) sig by (simp add: klapDecrypt_def body klapSigLen_def Let_def)
qed

lemma klapEncrypt_total:
  assumes "crypto_ok C" and "aes_key_ok (kt_encKey t)" and "length (kt_iv t) = 12"
  shows "\<exists>body. klapEncrypt C t payload seq = Inr body"
  using klapEncrypt_Inr(1) [OF assms] by blast

lemma blockIV_inject [simp]: "blockIV t s1 = blockIV t s2 \<longleftrightarrow> s1 = s2"
  by (metis append_same_eq blockIV_def get_put_be32_nil same_append_eq)

subsection \<open>A conforming device\<close>

text \<open>
  A device that follows the protocol, as a world for \<open>http_env\<close>: the hash of the account it is
  bound to, the seed it answers with, the handshake in progress and the session it remembers. It
  forgets its session when it reboots (\<open>kd_session = None\<close>), and then answers 403.
\<close>

record klap_device =
  kd_auth :: "byte list"
  kd_seed :: "byte list"
  kd_sid :: string
  kd_pending :: "byte list option"
  kd_session :: "session_keys option"

definition session_transport :: "session_keys \<Rightarrow> klapTransport" where
  "session_transport k =
     klap_install \<lparr>kt_baseURL = [], kt_credentials = \<lparr>Username = [], Password = []\<rparr>,
       kt_loginVersion = 0, kt_sessionID = [], kt_encKey = [], kt_sigKey = [], kt_iv = [],
       kt_seq = 0, kt_established = False\<rparr> k"

definition reply :: "int \<Rightarrow> byte list \<Rightarrow> (string \<times> string) list \<Rightarrow> http_response" where
  "reply status body cookies =
     \<lparr>rs_status = status, rs_body = body, rs_failed = False, rs_cookies = cookies\<rparr>"

definition device_request ::
  "crypto \<Rightarrow> (byte list \<Rightarrow> byte list) \<Rightarrow> session_keys \<Rightarrow> 32 word \<Rightarrow> byte list \<Rightarrow> http_response" where
  "device_request C dev k seq body =
     (let ciphertext = drop klapSigLen body in
      if take klapSigLen body \<noteq> klapSHA256 C [sk_sig k, put_be32 seq, ciphertext]
      then reply 403 [] []
      else case klapDecrypt C (session_transport k) body seq of
          Inl _ \<Rightarrow> reply 400 [] []
        | Inr request \<Rightarrow>
            (case klapEncrypt C (session_transport k) (dev request) seq of
               Inl _ \<Rightarrow> reply 500 [] []
             | Inr answer \<Rightarrow> reply 200 answer []))"

definition device_do ::
  "crypto \<Rightarrow> string \<Rightarrow> (byte list \<Rightarrow> byte list) \<Rightarrow> http_request \<Rightarrow> klap_device
     \<Rightarrow> http_response option \<times> klap_device" where
  "device_do C base dev rq d =
     (let path = drop (length base) (rq_url rq) in
      if path = ''/handshake1'' then
        (Some (reply 200 (kd_seed d @ klapSHA256 C [rq_body rq, kd_seed d, kd_auth d])
           [(''TP_SESSIONID'', kd_sid d)]),
         d\<lparr>kd_pending := Some (rq_body rq), kd_session := None\<rparr>)
      else if path = ''/handshake2'' then
        (case kd_pending d of
           None \<Rightarrow> (Some (reply 403 [] []), d)
         | Some local \<Rightarrow>
             if rq_cookie rq = cookie_of (kd_sid d)
                \<and> rq_body rq = klapSHA256 C [kd_seed d, local, kd_auth d]
             then (Some (reply 200 [] []),
                   d\<lparr>kd_pending := None,
                     kd_session := Some (klapDeriveSession C local (kd_seed d) (kd_auth d))\<rparr>)
             else (Some (reply 403 [] []), d))
      else if take 13 path = ''/request?seq='' then
        (case kd_session d of
           None \<Rightarrow> (Some (reply 403 [] []), d)
         | Some k \<Rightarrow>
             if rq_cookie rq \<noteq> cookie_of (kd_sid d) then (Some (reply 403 [] []), d)
             else (Some (device_request C dev k (of_int (atoi (drop 13 path))) (rq_body rq)), d))
      else (Some (reply 404 [] []), d))"

definition device_env ::
  "crypto \<Rightarrow> string \<Rightarrow> (byte list \<Rightarrow> byte list) \<Rightarrow> byte list \<Rightarrow> klap_device http_env" where
  "device_env C base dev seed =
     \<lparr>http_do = device_do C base dev, rand_read = (\<lambda>n d. (Some seed, d))\<rparr>"

text \<open>The exporter and the device agree on a session.\<close>

definition in_session :: "klapTransport \<Rightarrow> klap_device \<Rightarrow> bool" where
  "in_session t d \<longleftrightarrow>
     kt_established t \<and> kt_sessionID t = kd_sid d \<and>
     (case kd_session d of None \<Rightarrow> False
      | Some k \<Rightarrow> sk_enc k = kt_encKey t \<and> sk_sig k = kt_sigKey t \<and> sk_iv k = kt_iv t)"

text \<open>What the two sides have in common: the account, the address and the limits.\<close>

definition compatible ::
  "crypto \<Rightarrow> string \<Rightarrow> (byte list \<Rightarrow> byte list) \<Rightarrow> byte list \<Rightarrow> klapTransport \<Rightarrow> klap_device \<Rightarrow> bool" where
  "compatible C base dev request t d \<longleftrightarrow>
     crypto_ok C \<and> kt_baseURL t = base
     \<and> kd_auth d = klapAuthHash C (kt_credentials t) (kt_loginVersion t)
     \<and> length (kd_seed d) = 16 \<and> length (dev request) + 48 \<le> maxResponseBytes"

lemma read_limited_reply:
  "length body \<le> maxResponseBytes \<Longrightarrow> read_limited (reply s body cs) = Inr body"
  by (simp add: read_limited_def reply_def Let_def)

lemma klapPost_device:
  assumes "device_do C base dev \<lparr>rq_url = base @ path, rq_body = body,
      rq_cookie = cookie_of (kt_sessionID t)\<rparr> d = (Some (reply s bs cs), d')"
    and "kt_baseURL t = base" and "length bs \<le> maxResponseBytes"
  shows "klapPost (device_env C base dev seed) t path body d =
    (Inr (s, bs, case session_cookie (reply s bs cs) of None \<Rightarrow> [] | Some v \<Rightarrow> v), d')"
  using assms by (simp add: klapPost_def device_env_def read_limited_reply) (simp add: reply_def)

lemma session_cookie_reply:
  "session_cookie (reply s bs [(''TP_SESSIONID'', v)]) = Some v"
  "session_cookie (reply s bs []) = None"
  by (simp_all add: session_cookie_def reply_def)

lemma maxResponseBytes_ge: "n \<le> 48 \<Longrightarrow> n \<le> maxResponseBytes"
  by (simp add: maxResponseBytes_def)

lemma klap_match_own:
  assumes "h = klapAuthHash C (kt_credentials t) (kt_loginVersion t)"
  shows "klap_match C t l r (klapSHA256 C [l, r, h]) = Some h"
  by (simp add: klap_match_def klap_candidates_def assms)

lemma klap_handshake_device:
  assumes "compatible C base dev request t d"
  shows "klap_handshake C (device_env C base dev seed) t d =
    (let k = klapDeriveSession C seed (kd_seed d) (kd_auth d) in
     (Inr (), klap_install (t\<lparr>kt_sessionID := kd_sid d\<rparr>) k,
      d\<lparr>kd_pending := None, kd_session := Some k\<rparr>))"
proof -
  let ?t0 = "t\<lparr>kt_sessionID := []\<rparr>" and ?t1 = "t\<lparr>kt_sessionID := kd_sid d\<rparr>"
  let ?h = "klapSHA256 C [seed, kd_seed d, kd_auth d]"
  have len: "length ?h = 32" and seed: "length (kd_seed d) = 16" and base: "kt_baseURL t = base"
    and auth: "kd_auth d = klapAuthHash C (kt_credentials t) (kt_loginVersion t)"
    using assms by (simp_all add: compatible_def klapSHA256_def crypto_okD)
  let ?d1 = "d\<lparr>kd_pending := Some seed, kd_session := None\<rparr>"
  have l1: "length (kd_seed d @ ?h) \<le> maxResponseBytes"
    using len seed by (intro maxResponseBytes_ge) simp
  have d1: "device_do C base dev \<lparr>rq_url = base @ ''/handshake1'', rq_body = seed,
        rq_cookie = cookie_of (kt_sessionID ?t0)\<rparr> d =
      (Some (reply 200 (kd_seed d @ ?h) [(''TP_SESSIONID'', kd_sid d)]), ?d1)"
    by (simp add: device_do_def)
  have p1: "klapPost (device_env C base dev seed) ?t0 ''/handshake1'' seed d =
      (Inr (200, kd_seed d @ ?h, kd_sid d), ?d1)"
    using klapPost_device [OF d1 _ l1] base by (simp add: session_cookie_reply)
  have d2: "device_do C base dev \<lparr>rq_url = base @ ''/handshake2'',
        rq_body = klapSHA256 C [kd_seed d, seed, kd_auth d], rq_cookie = cookie_of (kt_sessionID ?t1)\<rparr> ?d1 =
      (Some (reply 200 [] []), d\<lparr>kd_pending := None,
         kd_session := Some (klapDeriveSession C seed (kd_seed d) (kd_auth d))\<rparr>)"
    by (simp add: device_do_def)
  have p2: "klapPost (device_env C base dev seed) ?t1 ''/handshake2''
        (klapSHA256 C [kd_seed d, seed, kd_auth d]) ?d1 =
      (Inr (200, [], []), d\<lparr>kd_pending := None,
         kd_session := Some (klapDeriveSession C seed (kd_seed d) (kd_auth d))\<rparr>)"
    using klapPost_device [OF d2] base by (simp add: session_cookie_reply)
  have m: "klap_match C ?t0 seed (kd_seed d) ?h = Some (kd_auth d)"
    using auth by (intro klap_match_own) simp
  show ?thesis
    using p1 p2 m len seed
    by (simp add: klap_handshake_def device_env_def klap_lens http_ok_def Let_def)
qed

text \<open>Encryption looks at nothing of the transport but the session keys.\<close>

lemma klapDecrypt_cong:
  "kt_encKey t = kt_encKey u \<Longrightarrow> kt_iv t = kt_iv u \<Longrightarrow> klapDecrypt C t body seq = klapDecrypt C u body seq"
  by (simp add: klapDecrypt_def blockIV_def Let_def)

lemma session_transport_simps [simp]:
  "kt_encKey (session_transport k) = sk_enc k" "kt_iv (session_transport k) = sk_iv k"
  "kt_sigKey (session_transport k) = sk_sig k"
  by (simp_all add: session_transport_def klap_install_def)

lemma request_path_simps [simp]:
  "request_path seq \<noteq> ''/handshake1''" "request_path seq \<noteq> ''/handshake2''"
  "take 13 (request_path seq) = ''/request?seq=''"
  "of_int (atoi (drop 13 (request_path seq))) = seq"
  by (simp_all add: request_path_def)

lemma device_request_answers:
  assumes "crypto_ok C" and "length (kt_encKey t) = 16" and "length (kt_iv t) = 12"
    and "sk_enc k = kt_encKey t" and "sk_sig k = kt_sigKey t" and "sk_iv k = kt_iv t"
    and "klapEncrypt C t request seq = Inr body"
  shows "\<exists>answer. device_request C dev k seq body = reply 200 answer []
    \<and> klapDecrypt C t answer seq = Inr (dev request) \<and> length answer \<le> length (dev request) + 48"
proof -
  have key: "aes_key_ok (kt_encKey t)" "aes_key_ok (kt_encKey (session_transport k))"
    and iv: "length (kt_iv (session_transport k)) = 12"
    using assms by (simp_all add: aes_key_ok_def)
  define c where "c = klap_ciphertext C t request seq"
  note c = klapEncrypt_Inr(1) [OF assms(1) key(1) assms(3), where payload = request and seq = seq, folded c_def]
  have sig: "length (klapSHA256 C xs) = 32" for xs
    using assms(1) by (simp add: klapSHA256_def crypto_okD)
  have body: "body = klapSHA256 C [kt_sigKey t, put_be32 seq, c] @ c" using c assms(7) by simp
  have req: "klapDecrypt C (session_transport k) body seq = Inr request"
    using klapDecrypt_encrypt [OF assms(1) key(1) assms(3,7)] assms(4,6)
    by (metis klapDecrypt_cong session_transport_simps(1,2))
  define a where "a = klap_ciphertext C (session_transport k) (dev request) seq"
  note as = klapEncrypt_Inr [OF assms(1) key(2) iv, where payload = "dev request" and seq = seq, folded a_def]
  note a = as(1) and al = as(4)
  let ?answer = "klapSHA256 C [kt_sigKey (session_transport k), put_be32 seq, a] @ a"
  have dec: "klapDecrypt C t ?answer seq = Inr (dev request)"
    using klapDecrypt_encrypt [OF assms(1) key(2) iv a] assms(4,6)
    by (metis klapDecrypt_cong session_transport_simps(1,2))
  have "device_request C dev k seq body = reply 200 ?answer []"
    using a req sig assms(5) by (simp add: device_request_def body klapSigLen_def Let_def)
  with dec al sig show ?thesis by fastforce
qed

lemma klap_attempt_in_session:
  assumes "compatible C base dev request t d" and "klap_session_ok t" and "in_session t d"
  shows "klap_attempts (Suc n) C (device_env C base dev seed) t request d =
    (Inr (dev request), t\<lparr>kt_seq := kt_seq t + 1\<rparr>, d)"
proof -
  let ?t = "t\<lparr>kt_seq := kt_seq t + 1\<rparr>" and ?s = "kt_seq t + 1"
  from assms(3) obtain k where k: "kd_session d = Some k" "sk_enc k = kt_encKey t"
      "sk_sig k = kt_sigKey t" "sk_iv k = kt_iv t"
    and est: "kt_established t" and sid: "kt_sessionID t = kd_sid d"
    by (auto simp: in_session_def split: option.splits)
  have keys: "length (kt_encKey ?t) = 16" "length (kt_iv ?t) = 12"
    using assms(2) est by (simp_all add: klap_session_ok_def)
  have C: "crypto_ok C" and base: "kt_baseURL ?t = base"
    and lim: "length (dev request) + 48 \<le> maxResponseBytes"
    using assms(1) by (simp_all add: compatible_def)
  obtain body where body: "klapEncrypt C ?t request ?s = Inr body"
    using klapEncrypt_total [OF C _ keys(2)] keys(1) by (auto simp: aes_key_ok_def)
  obtain answer where ans: "device_request C dev k ?s body = reply 200 answer []"
    and dec: "klapDecrypt C ?t answer ?s = Inr (dev request)"
    and al: "length answer \<le> length (dev request) + 48"
    using device_request_answers [OF C keys _ _ _ body] k by auto
  have d: "device_do C base dev \<lparr>rq_url = base @ request_path ?s, rq_body = body,
      rq_cookie = cookie_of (kt_sessionID ?t)\<rparr> d = (Some (reply 200 answer []), d)"
    using k(1) sid ans by (simp add: device_do_def)
  have "klapPost (device_env C base dev seed) ?t (request_path ?s) body d = (Inr (200, answer, []), d)"
    using klapPost_device [OF d base] al lim by (simp add: session_cookie_reply)
  with est body dec show ?thesis
    by (simp add: http_ok_def http_forbidden_def Let_def)
qed

lemma in_session_after_handshake:
  "in_session (klap_install (t\<lparr>kt_sessionID := kd_sid d\<rparr>) k) (d\<lparr>kd_pending := None, kd_session := Some k\<rparr>)"
  by (simp add: in_session_def klap_install_def)

lemma in_session_seq [simp]: "in_session (t\<lparr>kt_seq := s\<rparr>) d = in_session t d"
  by (simp add: in_session_def split: option.split)

lemma compatible_cong:
  "klap_config t' = klap_config t \<Longrightarrow> kd_auth d' = kd_auth d \<Longrightarrow> kd_seed d' = kd_seed d \<Longrightarrow>
    compatible C base dev request t' d' = compatible C base dev request t d"
  by (auto simp: compatible_def klap_config_def)

text \<open>An attempt without a session handshakes and then succeeds.\<close>

lemma klap_attempt_fresh:
  assumes "compatible C base dev request t d" and "klap_session_ok t" and "\<not> kt_established t"
  shows "\<exists>t' d'. klap_attempts (Suc n) C (device_env C base dev seed) t request d = (Inr (dev request), t', d')
    \<and> in_session t' d'"
proof -
  define k where "k = klapDeriveSession C seed (kd_seed d) (kd_auth d)"
  define t1 where "t1 = klap_install (t\<lparr>kt_sessionID := kd_sid d\<rparr>) k"
  define d1 where "d1 = d\<lparr>kd_pending := None, kd_session := Some k\<rparr>"
  have h: "klap_handshake C (device_env C base dev seed) t d = (Inr (), t1, d1)"
    using klap_handshake_device [OF assms(1)] by (simp add: k_def t1_def d1_def Let_def)
  have C: "crypto_ok C" using assms(1) by (simp add: compatible_def)
  have s1: "in_session t1 d1"
    unfolding t1_def d1_def by (rule in_session_after_handshake)
  have c1: "compatible C base dev request t1 d1"
    using assms(1) klap_handshake_config [OF h] by (subst compatible_cong) (simp_all add: d1_def)
  have ok1: "klap_session_ok t1" by (rule klap_handshake_ok [OF C assms(2) h])
  have est: "kt_established t1" by (simp add: t1_def klap_install_def)
  have "klap_attempts (Suc n) C (device_env C base dev seed) t request d =
      klap_attempts (Suc n) C (device_env C base dev seed) t1 request d1"
    using assms(3) est by (simp add: h)
  also have "\<dots> = (Inr (dev request), t1\<lparr>kt_seq := kt_seq t1 + 1\<rparr>, d1)"
    using c1 ok1 s1 by (rule klap_attempt_in_session)
  finally have q: "klap_attempts (Suc n) C (device_env C base dev seed) t request d =
      (Inr (dev request), t1\<lparr>kt_seq := kt_seq t1 + 1\<rparr>, d1)" .
  have "in_session (t1\<lparr>kt_seq := kt_seq t1 + 1\<rparr>) d1" using s1 by simp
  with q show ?thesis by blast
qed

text \<open>An attempt on a session the device has forgotten is answered 403 and tried again.\<close>

lemma klap_attempt_forgotten:
  assumes "compatible C base dev request t d" and "klap_session_ok t"
    and "kt_established t" and "kd_session d = None"
  shows "klap_attempts (Suc n) C (device_env C base dev seed) t request d =
    klap_attempts n C (device_env C base dev seed)
      (t\<lparr>kt_seq := kt_seq t + 1, kt_established := False\<rparr>) request d"
proof -
  let ?t = "t\<lparr>kt_seq := kt_seq t + 1\<rparr>" and ?s = "kt_seq t + 1"
  have C: "crypto_ok C" and base: "kt_baseURL ?t = base"
    using assms(1) by (simp_all add: compatible_def)
  have keys: "aes_key_ok (kt_encKey ?t)" "length (kt_iv ?t) = 12"
    using assms(2,3) by (simp_all add: klap_session_ok_def aes_key_ok_def)
  obtain body where body: "klapEncrypt C ?t request ?s = Inr body"
    using klapEncrypt_total [OF C keys] by blast
  have d: "device_do C base dev \<lparr>rq_url = base @ request_path ?s, rq_body = body,
      rq_cookie = cookie_of (kt_sessionID ?t)\<rparr> d = (Some (reply 403 [] []), d)"
    using assms(4) by (simp add: device_do_def)
  have "klapPost (device_env C base dev seed) ?t (request_path ?s) body d = (Inr (403, [], []), d)"
    using klapPost_device [OF d base] by (simp add: session_cookie_reply)
  with assms(3) body show ?thesis
    by (simp add: http_forbidden_def Let_def)
qed

lemma klap_query_device:
  assumes "compatible C base dev request t d" and "klap_session_ok t"
    and "\<not> kt_established t \<or> kd_session d = None \<or> in_session t d"
  shows "\<exists>t' d'. klap_query C (device_env C base dev seed) t request d = (Inr (dev request), t', d')
    \<and> in_session t' d'"
proof -
  let ?t = "t\<lparr>kt_seq := kt_seq t + 1, kt_established := False\<rparr>"
  have fresh: "compatible C base dev request ?t d" "klap_session_ok ?t" "\<not> kt_established ?t"
    using assms(1) by (simp_all add: compatible_def klap_session_ok_def)
  consider (fresh) "\<not> kt_established t" | (forgotten) "kt_established t" "kd_session d = None"
    | (live) "in_session t d" using assms(3) by auto
  then show ?thesis
  proof cases
    case fresh
    then show ?thesis
      using klap_attempt_fresh [OF assms(1,2)] unfolding klap_query_def numeral_2_eq_2 by blast
  next
    case forgotten
    then show ?thesis
      using klap_attempt_forgotten [OF assms(1,2)] klap_attempt_fresh [OF fresh]
      unfolding klap_query_def numeral_2_eq_2 by metis
  next
    case live
    then have "in_session (t\<lparr>kt_seq := kt_seq t + 1\<rparr>) d" by simp
    then show ?thesis
      using klap_attempt_in_session [OF assms(1,2) live]
      unfolding klap_query_def numeral_2_eq_2 by metis
  qed
qed

subsection \<open>What the device gets to see\<close>

lemma klapPost_trace:
  "klapPost (traced_http E) t path body (w, tr) = (r, w', tr') \<Longrightarrow>
    tr' = tr @ [\<lparr>rq_url = kt_baseURL t @ path, rq_body = body, rq_cookie = cookie_of (kt_sessionID t)\<rparr>]"
  by (auto simp: klapPost_def traced_http_def split: sum.splits option.splits prod.splits)

lemma klapPost_neq_KlapError: "klapPost E t path body w \<noteq> (Inl (KlapError x), w')"
  by (auto simp: klapPost_def read_limited_def Let_def split: sum.splits option.splits prod.splits if_splits)

lemma rand_read_traced [simp]:
  "rand_read (traced_http E) n (w, tr) = (case rand_read E n w of (r, w) \<Rightarrow> (r, w, tr))"
  by (simp add: traced_http_def)

lemma klap_handshake_trace:
  "klap_handshake C (traced_http E) t (w, tr) = (r, t', w', tr') \<Longrightarrow>
    \<exists>rqs. tr' = tr @ rqs \<and> length rqs \<le> 2"
  by (auto simp: klap_handshake_def Let_def dest!: klapPost_trace
      split: sum.splits option.splits prod.splits if_splits)

lemma klap_attempts_trace:
  "klap_attempts n C (traced_http E) t request (w, tr) = (r, t', w', tr') \<Longrightarrow>
    \<exists>rqs. tr' = tr @ rqs \<and> length rqs \<le> 3 * n"
proof (induction n arbitrary: t w tr)
  case (Suc n)
  obtain x t1 w1 tr1 where h: "(if kt_established t then (Inr (), t, w, tr)
      else klap_handshake C (traced_http E) t (w, tr)) = (x, t1, w1, tr1)"
    by (metis prod.collapse)
  have p1: "\<exists>rqs. tr1 = tr @ rqs \<and> length rqs \<le> 2"
    using h klap_handshake_trace [of C E t w tr x t1 w1 tr1] by (auto split: if_splits)
  from Suc.prems p1 show ?case
    by (auto simp: h Let_def split: sum.splits prod.splits if_splits dest!: klapPost_trace)
      (drule Suc.IH, force)
qed simp

subsection \<open>Properties\<close>

text \<open>C21. Messages round-trip: with any session whose encryption key AES accepts and whose IV prefix
  is 12 bytes, every payload can be encrypted under every sequence number, and decrypting the wire
  body under the same number gives the payload back.\<close>

theorem klap_message_roundtrip:
  assumes "crypto_ok C" and "aes_key_ok (kt_encKey t)" and "length (kt_iv t) = 12"
  shows "\<exists>body. klapEncrypt C t payload seq = Inr body \<and> klapDecrypt C t body seq = Inr payload"
  using klapEncrypt_total [OF assms] klapDecrypt_encrypt [OF assms] by blast

definition example_session :: klapTransport where
  "example_session =
     \<lparr>kt_baseURL = ''http://h:80/app'', kt_credentials = \<lparr>Username = ''u'', Password = ''p''\<rparr>,
      kt_loginVersion = 2, kt_sessionID = ''S'', kt_encKey = replicate 16 1,
      kt_sigKey = replicate 28 2, kt_iv = replicate 12 3, kt_seq = 5, kt_established = True\<rparr>"

theorem klap_message_roundtrip_witness:
  "\<exists>body. klapEncrypt toy_crypto example_session [1, 2] 7 = Inr body
    \<and> klapDecrypt toy_crypto example_session body 7 = Inr [1, 2]"
  by (rule klap_message_roundtrip [OF toy_crypto_ok])
    (simp_all add: example_session_def aes_key_ok_def)

text \<open>Every message of a session is encrypted under an IV of its own: two sequence numbers give
  the same block IV only if they are equal, for all \<open>2 ^ 32\<close> of them.\<close>

theorem klap_iv_distinct:
  "inj (blockIV t) \<and> length (blockIV t seq) = length (kt_iv t) + 4"
  by (simp add: inj_on_def)

lemma klap_match_sound:
  assumes "klap_match C (t\<lparr>kt_sessionID := sid\<rparr>) ls rs sh = Some h"
  shows "klapSHA256 C [ls, rs, h] = sh"
    and "h \<in> (\<lambda>creds. klapAuthHash C creds (kt_loginVersion t)) ` set (klap_candidates t)"
    and "let own = klapAuthHash C (kt_credentials t) (kt_loginVersion t) in
      klapSHA256 C [ls, rs, own] = sh \<longrightarrow> h = own"
proof -
  note f = find_SomeD [OF assms [unfolded klap_match_def]]
  show "klapSHA256 C [ls, rs, h] = sh" using f(1) .
  show "h \<in> (\<lambda>creds. klapAuthHash C creds (kt_loginVersion t)) ` set (klap_candidates t)"
    using f(2) by (simp add: klap_candidates_def)
  show "let own = klapAuthHash C (kt_credentials t) (kt_loginVersion t) in
      klapSHA256 C [ls, rs, own] = sh \<longrightarrow> h = own"
    using assms by (auto simp: klap_match_def klap_candidates_def Let_def)
qed

definition example_device :: klap_device where
  "example_device =
     \<lparr>kd_auth = klapAuthHash toy_crypto \<lparr>Username = ''u'', Password = ''p''\<rparr> 2,
      kd_seed = replicate 16 9, kd_sid = ''S'', kd_pending = None, kd_session = None\<rparr>"

definition example_env :: "klap_device http_env" where
  "example_env = device_env toy_crypto ''http://h:80/app'' rev (replicate 16 4)"

lemma example_compatible: "compatible toy_crypto ''http://h:80/app'' rev [1, 2] example_session example_device"
  by (simp add: compatible_def toy_crypto_ok example_session_def example_device_def maxResponseBytes_def)

lemma example_handshake:
  "klap_handshake toy_crypto example_env example_session example_device =
     (let k = klapDeriveSession toy_crypto (replicate 16 4) (kd_seed example_device) (kd_auth example_device) in
      (Inr (), klap_install (example_session\<lparr>kt_sessionID := ''S''\<rparr>) k,
       example_device\<lparr>kd_pending := None, kd_session := Some k\<rparr>))"
  using klap_handshake_device [OF example_compatible, of "replicate 16 4"]
  by (simp add: example_env_def example_device_def Let_def)

lemma klapPost_Inr:
  assumes "klapPost E t path body w = (Inr (status, data, sid), w')"
  obtains r where "http_do E \<lparr>rq_url = kt_baseURL t @ path, rq_body = body, rq_cookie = cookie_of (kt_sessionID t)\<rparr> w = (Some r, w')"
    and "rs_status r = status" and "rs_body r = data" and "sid = (case session_cookie r of None \<Rightarrow> [] | Some v \<Rightarrow> v)"
  using assms read_limited_bound by (auto simp: klapPost_def split: prod.splits option.splits sum.splits)

text \<open>C7. The handshake accepts a device only on proof of a login: when it succeeds, it drew a random seed
  and posted just that, without a cookie; the device's answer to this very post, 48 bytes with status 200,
  held after its own seed the hash over the two seeds and the login hash of one of the candidates, the
  operator's own login being preferred to every factory default; the second post, under the session the
  device named, carried only the hash over the seeds the other way round and was answered with status 200;
  and the session is exactly the one derived from these seeds and that login.\<close>

theorem klap_handshake_proves_login:
  assumes "klap_handshake C E t w = (Inr u, t', w')"
  shows "\<exists>localSeed w1 resp w2 creds resp2. rand_read E 16 w = (Some localSeed, w1)
    \<and> http_do E \<lparr>rq_url = kt_baseURL t @ ''/handshake1'', rq_body = localSeed, rq_cookie = None\<rparr> w1 = (Some resp, w2)
    \<and> rs_status resp = 200 \<and> length (rs_body resp) = 48 \<and> creds \<in> set (kt_credentials t # klapFallbackCredentials)
    \<and> (let remoteSeed = take 16 (rs_body resp); serverHash = drop 16 (rs_body resp);
          h = klapAuthHash C creds (kt_loginVersion t); own = klapAuthHash C (kt_credentials t) (kt_loginVersion t);
          sid = (case session_cookie resp of None \<Rightarrow> [] | Some v \<Rightarrow> v);
          keys = klapDeriveSession C localSeed remoteSeed h in
        serverHash = klapSHA256 C [localSeed, remoteSeed, h]
      \<and> (klapSHA256 C [localSeed, remoteSeed, own] = serverHash \<longrightarrow> h = own)
      \<and> http_do E \<lparr>rq_url = kt_baseURL t @ ''/handshake2'', rq_body = klapSHA256 C [remoteSeed, localSeed, h],
            rq_cookie = cookie_of sid\<rparr> w2 = (Some resp2, w')
      \<and> rs_status resp2 = 200
      \<and> t' = t\<lparr>kt_sessionID := sid, kt_encKey := sk_enc keys, kt_sigKey := sk_sig keys, kt_iv := sk_iv keys,
            kt_seq := sk_seq keys, kt_established := True\<rparr>)"
proof -
  from assms obtain ls w1 data sid w2 h x y where
    rand: "rand_read E 16 w = (Some ls, w1)" and
    p1: "klapPost E (t\<lparr>kt_sessionID := []\<rparr>) ''/handshake1'' ls w1 = (Inr (200, data, sid), w2)" and
    len: "length data = 48" and
    m: "klap_match C (t\<lparr>kt_sessionID := []\<rparr>) ls (take 16 data) (drop 16 data) = Some h" and
    p2: "klapPost E (t\<lparr>kt_sessionID := sid\<rparr>) ''/handshake2'' (klapSHA256 C [take 16 data, ls, h]) w2 = (Inr (200, x, y), w')" and
    t': "t' = klap_install (t\<lparr>kt_sessionID := sid\<rparr>) (klapDeriveSession C ls (take 16 data) h)"
    by (auto simp: klap_handshake_def klap_lens http_ok_def Let_def
        split: sum.splits option.splits prod.splits if_splits)
  note match = klap_match_sound [OF m]
  from match(2) obtain creds where c: "creds \<in> set (kt_credentials t # klapFallbackCredentials)"
      "h = klapAuthHash C creds (kt_loginVersion t)" by (auto simp: klap_candidates_def)
  from p1 obtain r1 where r1: "http_do E \<lparr>rq_url = kt_baseURL t @ ''/handshake1'', rq_body = ls, rq_cookie = None\<rparr> w1 = (Some r1, w2)"
      "rs_status r1 = 200" "rs_body r1 = data" "sid = (case session_cookie r1 of None \<Rightarrow> [] | Some v \<Rightarrow> v)"
    by (rule klapPost_Inr) (simp add: cookie_of_def)
  from p2 obtain r2 where r2: "http_do E \<lparr>rq_url = kt_baseURL t @ ''/handshake2'', rq_body = klapSHA256 C [take 16 data, ls, h],
      rq_cookie = cookie_of sid\<rparr> w2 = (Some r2, w')" "rs_status r2 = 200"
    by (rule klapPost_Inr) simp
  show ?thesis
    using rand r1 r2 len c match(1,3) unfolding t'
    by (intro exI [of _ ls] exI [of _ w1] exI [of _ r1] exI [of _ w2] exI [of _ creds] exI [of _ r2])
      (simp add: klap_install_def Let_def)
qed

theorem klap_handshake_proves_login_witness:
  "\<exists>w1 resp w2 creds. rand_read example_env 16 example_device = (Some (replicate 16 4), w1)
    \<and> http_do example_env \<lparr>rq_url = ''http://h:80/app/handshake1'', rq_body = replicate 16 4, rq_cookie = None\<rparr> w1 = (Some resp, w2)
    \<and> creds \<in> set (kt_credentials example_session # klapFallbackCredentials)
    \<and> drop 16 (rs_body resp) = klapSHA256 toy_crypto [replicate 16 4, take 16 (rs_body resp), klapAuthHash toy_crypto creds 2]"
proof -
  have "kt_baseURL example_session = ''http://h:80/app''" "kt_loginVersion example_session = 2"
    by (simp_all add: example_session_def)
  moreover have "fst (rand_read example_env 16 example_device) = Some (replicate 16 4)"
    by (simp add: example_env_def device_env_def)
  ultimately show ?thesis
    using klap_handshake_proves_login [OF example_handshake [unfolded Let_def]] by (auto simp: Let_def)
qed

text \<open>C19. A login that is rejected is never sent: on a transport without a session, when the device answers
  the seed with 48 bytes whose hash no candidate login gives, the query fails as unauthorized and all the
  device has seen is one \<^verbatim>\<open>handshake1\<close> post, whose body is exactly the random seed and which carries no
  cookie: neither a hash of a login nor the request. Only the session's name is cleared.\<close>

theorem klap_rejected_login_reveals_nothing:
  assumes "\<not> kt_established t" and "rand_read E 16 w = (Some localSeed, w1)"
    and "http_do E \<lparr>rq_url = kt_baseURL t @ ''/handshake1'', rq_body = localSeed, rq_cookie = None\<rparr> w1 = (Some resp, w2)"
    and "rs_status resp = 200" and "\<not> rs_failed resp" and "length (rs_body resp) = 48"
    and "\<forall>creds \<in> set (kt_credentials t # klapFallbackCredentials). klapSHA256 C [localSeed, take 16 (rs_body resp),
        klapAuthHash C creds (kt_loginVersion t)] \<noteq> drop 16 (rs_body resp)"
  shows "klap_query C (traced_http E) t request (w, tr) = (Inl (KlapError KlapUnauthorized), t\<lparr>kt_sessionID := []\<rparr>, w2,
      tr @ [\<lparr>rq_url = kt_baseURL t @ ''/handshake1'', rq_body = localSeed, rq_cookie = None\<rparr>])"
proof -
  have "klap_match C (t\<lparr>kt_sessionID := []\<rparr>) localSeed (take 16 (rs_body resp)) (drop 16 (rs_body resp)) = None"
    using assms(7) by (auto simp: klap_match_def klap_candidates_def find_None_iff)
  moreover have "read_limited resp = Inr (rs_body resp)"
    using assms(5,6) by (simp add: read_limited_def maxResponseBytes_def)
  ultimately show ?thesis
    using assms(1-4,6) by (simp add: klap_query_def numeral_2_eq_2 klap_handshake_def klapPost_def traced_http_def cookie_of_def
        klap_lens http_ok_def Let_def)
qed

definition stranger :: klap_device where
  "stranger = example_device\<lparr>kd_auth := replicate 16 77\<rparr>"

lemma stranger_match:
  "klap_match toy_crypto (example_session\<lparr>kt_sessionID := []\<rparr>) (replicate 16 4) (replicate 16 9)
     (klapSHA256 toy_crypto [replicate 16 4, replicate 16 9, replicate 16 77]) = None"
  by code_simp

theorem klap_rejected_login_reveals_nothing_witness:
  "\<exists>w'. klap_query toy_crypto (traced_http example_env) (example_session\<lparr>kt_established := False\<rparr>) [1, 2] (stranger, []) =
     (Inl (KlapError KlapUnauthorized), example_session\<lparr>kt_established := False, kt_sessionID := []\<rparr>, w',
      [\<lparr>rq_url = ''http://h:80/app/handshake1'', rq_body = replicate 16 4, rq_cookie = None\<rparr>])"
proof -
  let ?h = "klapSHA256 toy_crypto [replicate 16 4, replicate 16 9, replicate 16 77]"
  let ?r = "reply 200 (replicate 16 9 @ ?h) [(''TP_SESSIONID'', ''S'')]"
  have len: "length ?h = 32" by (simp add: klapSHA256_def crypto_okD [OF toy_crypto_ok])
  let ?t = "example_session\<lparr>kt_established := False\<rparr>"
  have base: "kt_baseURL example_session = ''http://h:80/app''" "\<not> kt_established ?t"
    by (simp_all add: example_session_def)
  have dev: "kd_seed stranger = replicate 16 9" "kd_auth stranger = replicate 16 77" "kd_sid stranger = ''S''"
    by (simp_all add: stranger_def example_device_def)
  have d: "http_do example_env \<lparr>rq_url = kt_baseURL ?t @ ''/handshake1'', rq_body = replicate 16 4, rq_cookie = None\<rparr>
      stranger = (Some ?r, stranger\<lparr>kd_pending := Some (replicate 16 4), kd_session := None\<rparr>)"
    by (simp add: example_env_def device_env_def device_do_def dev base)
  have r: "rand_read example_env 16 stranger = (Some (replicate 16 4), stranger)"
    by (simp add: example_env_def device_env_def)
  have s: "rs_status ?r = 200" "\<not> rs_failed ?r" "length (rs_body ?r) = 48"
    by (simp_all add: reply_def len)
  have n: "\<forall>creds \<in> set (kt_credentials ?t # klapFallbackCredentials).
      klapSHA256 toy_crypto [replicate 16 4, take 16 (rs_body ?r), klapAuthHash toy_crypto creds (kt_loginVersion ?t)]
        \<noteq> drop 16 (rs_body ?r)"
    using stranger_match unfolding klap_match_def find_None_iff klap_candidates_def by (simp add: reply_def) blast
  show ?thesis
    using klap_rejected_login_reveals_nothing [OF base(2) r d s n, of "[1, 2]" "[]"] by (simp add: base)
qed

text \<open>C3. A query recovers from a reboot: against a device bound to the operator's account, a query
  on a transport that has no session, has one the device has forgotten, or has a live one returns
  exactly the device's answer, and leaves the two sides in a session that serves the next query.\<close>

theorem klap_query_recovers:
  assumes "compatible C base dev request t d" and "klap_session_ok t"
    and "kt_established t \<Longrightarrow> kd_session d \<noteq> None \<Longrightarrow> in_session t d"
  shows "\<exists>t' d'. klap_query C (device_env C base dev seed) t request d = (Inr (dev request), t', d')
    \<and> in_session t' d'"
  using assms(3) by (intro klap_query_device [OF assms(1,2)]) blast

theorem klap_query_recovers_witness:
  "\<exists>t' d'. klap_query toy_crypto (device_env toy_crypto ''http://h:80/app'' rev (replicate 16 4))
      example_session [1, 2] example_device = (Inr [2, 1], t', d') \<and> in_session t' d'"
  using klap_query_recovers [of toy_crypto "''http://h:80/app''" rev "[1, 2]" example_session example_device]
  by (simp add: compatible_def toy_crypto_ok example_session_def example_device_def klap_session_ok_def
      maxResponseBytes_def)

text \<open>C22. A query is bounded: whatever the device answers, it makes at most two attempts, so at most
  four handshake posts and two requests, and then gives up.\<close>

theorem klap_query_bounded:
  assumes "klap_query C (traced_http E) t request (w, []) = (r, t', w', tr)"
  shows "length tr \<le> 6"
  using klap_attempts_trace [of 2 C E t request w "[]" r t' w' tr] assms
  by (auto simp: klap_query_def)

theorem klap_query_bounded_witness:
  "\<exists>r t' w' tr. klap_query toy_crypto (traced_http example_env) example_session [1, 2] (stranger, []) =
     (r, t', w', tr) \<and> length tr \<le> 6"
  using klap_query_bounded [of toy_crypto example_env example_session "[1, 2]" stranger]
  by (metis prod.collapse)

end
