(* ===== verification/Float64.thy ===== *)
theory Float64
  imports Complex_Main Prelude
begin

text \<open>
  IEEE 754 binary64, the \<^verbatim>\<open>float64\<close> of every measurement. A finite value is a sign, an integer
  significand and an exponent, in the canonical form of the format; every operation computes the
  exact result as a fraction and rounds it once, to nearest with ties to even, as the hardware
  and \<^verbatim>\<open>strconv.ParseFloat\<close> do.
\<close>

datatype float64 = Fin bool int int | Inf bool | NaN

definition canonical :: "float64 \<Rightarrow> bool" where
  "canonical x = (case x of Fin s m e \<Rightarrow>
      -1074 \<le> e \<and> e \<le> 971 \<and> 0 \<le> m \<and> m < 2 ^ 53 \<and> (2 ^ 52 \<le> m \<or> e = -1074) | _ \<Rightarrow> True)"

definition val :: "float64 \<Rightarrow> real" where
  "val x = (case x of Fin s m e \<Rightarrow> (if s then - 1 else 1) * real_of_int m * 2 powi e | _ \<Rightarrow> 0)"

definition is_finite :: "float64 \<Rightarrow> bool" where
  "is_finite x = (case x of Fin _ _ _ \<Rightarrow> True | _ \<Rightarrow> False)"

subsection \<open>Rounding\<close>

function bitlen :: "int \<Rightarrow> int" where
  "bitlen n = (if n \<le> 0 then 0 else 1 + bitlen (n div 2))"
  by pat_completeness auto
termination
  by (relation "measure nat") auto

declare bitlen.simps [simp del]

definition le_scaled :: "int \<Rightarrow> int \<Rightarrow> int \<Rightarrow> bool" where
  "le_scaled l n d = (if 0 \<le> l then d * 2 ^ nat l \<le> n else d \<le> n * 2 ^ nat (- l))"

definition flog2 :: "int \<Rightarrow> int \<Rightarrow> int" where
  "flog2 n d = (let l = bitlen n - bitlen d in if le_scaled l n d then l else l - 1)"

definition round_div :: "int \<Rightarrow> int \<Rightarrow> int" where
  "round_div n d =
     (let q = n div d; r = n mod d in
      if d < 2 * r \<or> (2 * r = d \<and> odd q) then q + 1 else q)"

definition round_at :: "int \<Rightarrow> int \<Rightarrow> int \<Rightarrow> int" where
  "round_at e n d = (if 0 \<le> e then round_div n (d * 2 ^ nat e) else round_div (n * 2 ^ nat (- e)) d)"

definition make :: "bool \<Rightarrow> int \<Rightarrow> int \<Rightarrow> float64" where
  "make s m e =
     (let (m, e) = (if m = 2 ^ 53 then (2 ^ 52, e + 1) else (m, e)) in
      if 971 < e then Inf s else Fin s m e)"

definition fround :: "bool \<Rightarrow> int \<Rightarrow> int \<Rightarrow> float64" where
  "fround s n d =
     (if n = 0 then Fin s 0 (-1074)
      else let e = max (-1074) (flog2 n d - 52) in make s (round_at e n d) e)"

subsection \<open>Operations\<close>

definition signed :: "bool \<Rightarrow> int \<Rightarrow> int" where
  "signed s m = (if s then - m else m)"

definition fint :: "int \<Rightarrow> float64" where
  "fint i = fround (i < 0) \<bar>i\<bar> 1"

definition fneg :: "float64 \<Rightarrow> float64" where
  "fneg x = (case x of Fin s m e \<Rightarrow> Fin (\<not> s) m e | Inf s \<Rightarrow> Inf (\<not> s) | NaN \<Rightarrow> NaN)"

text \<open>Rounds \<open>i * 2 ^ e\<close>; a zero result takes the sign \<open>z\<close>.\<close>

definition fscale :: "bool \<Rightarrow> int \<Rightarrow> int \<Rightarrow> float64" where
  "fscale z i e =
     (if i = 0 then Fin z 0 (-1074)
      else if 0 \<le> e then fround (i < 0) (\<bar>i\<bar> * 2 ^ nat e) 1
      else fround (i < 0) \<bar>i\<bar> (2 ^ nat (- e)))"

fun fadd :: "float64 \<Rightarrow> float64 \<Rightarrow> float64" where
  "fadd (Fin s m e) (Fin s' m' e') =
     (let k = min e e' in
      fscale (s \<and> s') (signed s m * 2 ^ nat (e - k) + signed s' m' * 2 ^ nat (e' - k)) k)"
| "fadd (Inf s) (Inf s') = (if s = s' then Inf s else NaN)"
| "fadd (Inf s) (Fin _ _ _) = Inf s"
| "fadd (Fin _ _ _) (Inf s) = Inf s"
| "fadd _ _ = NaN"

definition fsub :: "float64 \<Rightarrow> float64 \<Rightarrow> float64" where
  "fsub x y = fadd x (fneg y)"

fun fmul :: "float64 \<Rightarrow> float64 \<Rightarrow> float64" where
  "fmul (Fin s m e) (Fin s' m' e') =
     (if 0 \<le> e + e' then fround (s \<noteq> s') (m * m' * 2 ^ nat (e + e')) 1
      else fround (s \<noteq> s') (m * m') (2 ^ nat (- (e + e'))))"
| "fmul (Inf s) (Fin s' m _) = (if m = 0 then NaN else Inf (s \<noteq> s'))"
| "fmul (Fin s m _) (Inf s') = (if m = 0 then NaN else Inf (s \<noteq> s'))"
| "fmul (Inf s) (Inf s') = Inf (s \<noteq> s')"
| "fmul _ _ = NaN"

fun fdiv :: "float64 \<Rightarrow> float64 \<Rightarrow> float64" where
  "fdiv (Fin s m e) (Fin s' m' e') =
     (if m' = 0 then (if m = 0 then NaN else Inf (s \<noteq> s'))
      else if e' \<le> e then fround (s \<noteq> s') (m * 2 ^ nat (e - e')) m'
      else fround (s \<noteq> s') m (m' * 2 ^ nat (e' - e)))"
| "fdiv (Inf s) (Fin s' _ _) = Inf (s \<noteq> s')"
| "fdiv (Fin s _ _) (Inf s') = Fin (s \<noteq> s') 0 (-1074)"
| "fdiv (Inf _) (Inf _) = NaN"
| "fdiv _ _ = NaN"

subsection \<open>The rounding error\<close>

lemma bitlen_bounds: "0 < n \<Longrightarrow> 0 < bitlen n \<and> 2 ^ nat (bitlen n - 1) \<le> n \<and> n < 2 ^ nat (bitlen n)"
proof (induction n rule: bitlen.induct)
  case (1 n)
  show ?case
  proof (cases "n div 2 \<le> 0")
    case True
    with 1 have "n = 1" by auto
    then show ?thesis by (simp add: bitlen.simps [of 1] bitlen.simps [of 0])
  next
    case False
    with 1 have IH: "0 < bitlen (n div 2)" "2 ^ nat (bitlen (n div 2) - 1) \<le> n div 2"
        "n div 2 < 2 ^ nat (bitlen (n div 2))" by auto
    define k where "k = nat (bitlen (n div 2) - 1)"
    have k: "bitlen (n div 2) = int k + 1" using IH(1) by (simp add: k_def)
    have "bitlen n = int k + 2" using 1 k by (simp add: bitlen.simps [of n])
    then show ?thesis using IH by (auto simp: k nat_add_distrib)
  qed
qed

lemma le_scaled_iff:
  assumes "0 < d" shows "le_scaled l n d \<longleftrightarrow> (2 :: real) powi l \<le> real_of_int n / real_of_int d"
proof (cases "0 \<le> l")
  case True
  have "le_scaled l n d \<longleftrightarrow> real_of_int (d * 2 ^ nat l) \<le> real_of_int n"
    using True by (simp only: le_scaled_def of_int_le_iff if_True)
  then show ?thesis using True assms by (simp add: power_int_def field_simps)
next
  case False
  have "le_scaled l n d \<longleftrightarrow> real_of_int d \<le> real_of_int (n * 2 ^ nat (- l))"
    using False by (simp only: le_scaled_def of_int_le_iff if_False)
  then show ?thesis using False assms by (simp add: power_int_def field_simps)
qed

lemma flog2_bounds:
  assumes "0 < n" "0 < d"
  shows "2 powi flog2 n d \<le> real_of_int n / real_of_int d" "real_of_int n / real_of_int d < 2 powi (flog2 n d + 1)"
proof -
  define l where "l = bitlen n - bitlen d"
  note n = bitlen_bounds [OF assms(1)] and d = bitlen_bounds [OF assms(2)]
  have n1: "2 powi (bitlen n - 1) \<le> real_of_int n"
  proof -
    have "real_of_int (2 ^ nat (bitlen n - 1)) \<le> real_of_int n" using n by (simp only: of_int_le_iff)
    then show ?thesis using n by (simp add: power_int_def)
  qed
  have d1: "2 powi (bitlen d - 1) \<le> real_of_int d"
  proof -
    have "real_of_int (2 ^ nat (bitlen d - 1)) \<le> real_of_int d" using d by (simp only: of_int_le_iff)
    then show ?thesis using d by (simp add: power_int_def)
  qed
  have n2: "real_of_int n < 2 powi bitlen n"
  proof -
    have "real_of_int n < real_of_int (2 ^ nat (bitlen n))" using n by (simp only: of_int_less_iff)
    then show ?thesis using n by (simp add: power_int_def)
  qed
  have d2: "real_of_int d < 2 powi bitlen d"
  proof -
    have "real_of_int d < real_of_int (2 ^ nat (bitlen d))" using d by (simp only: of_int_less_iff)
    then show ?thesis using d by (simp add: power_int_def)
  qed
  have dpos: "0 < real_of_int d" using assms by simp
  have lo: "2 powi (l - 1) \<le> real_of_int n / real_of_int d"
  proof -
    have "2 powi (l - 1) = (2 :: real) powi ((bitlen n - 1) - bitlen d)"
      by (simp add: l_def algebra_simps)
    also have "\<dots> = 2 powi (bitlen n - 1) / (2 :: real) powi bitlen d"
      by (rule power_int_diff) simp
    also have "\<dots> \<le> real_of_int n / real_of_int d"
      using n1 d2 dpos assms(1) by (intro frac_le) auto
    finally show ?thesis .
  qed
  have hi: "real_of_int n / real_of_int d < 2 powi (l + 1)"
  proof -
    have "real_of_int n / real_of_int d < 2 powi bitlen n / (2 :: real) powi (bitlen d - 1)"
      using n2 d1 dpos assms(1) by (intro frac_less) auto
    also have "\<dots> = (2 :: real) powi (bitlen n - (bitlen d - 1))"
      by (rule power_int_diff [symmetric]) simp
    also have "\<dots> = 2 powi (l + 1)"
      by (simp add: l_def algebra_simps)
    finally show ?thesis .
  qed
  show "2 powi flog2 n d \<le> real_of_int n / real_of_int d" "real_of_int n / real_of_int d < 2 powi (flog2 n d + 1)"
    using lo hi le_scaled_iff [OF assms(2), of l n]
    by (auto simp: flog2_def Let_def not_le simp flip: l_def)
qed

lemma round_div_error:
  assumes "0 < d" shows "\<bar>real_of_int (round_div n d) - real_of_int n / real_of_int d\<bar> \<le> 1 / 2"
proof -
  define q r where "q = n div d" and "r = n mod d"
  have n: "n = q * d + r" and r: "r < d" "0 \<le> r" using assms by (simp_all add: q_def r_def)
  have e: "real_of_int n / real_of_int d = real_of_int q + real_of_int r / real_of_int d"
    using assms unfolding n by (simp add: add_divide_distrib)
  have "real_of_int r / real_of_int d < 1" "0 \<le> real_of_int r / real_of_int d"
    using r by simp_all
  moreover have "1 / 2 \<le> real_of_int r / real_of_int d" if "d \<le> 2 * r"
    using that assms that [folded of_int_le_iff [where ?'a = real]] by (simp add: field_simps)
  moreover have "real_of_int r / real_of_int d \<le> 1 / 2" if "2 * r \<le> d"
    using that assms that [folded of_int_le_iff [where ?'a = real]] by (simp add: field_simps)
  ultimately show ?thesis
    unfolding e round_div_def q_def [symmetric] r_def [symmetric] Let_def by auto
qed

lemma powi_nat: "0 \<le> e \<Longrightarrow> (2 :: real) powi e = 2 ^ nat e"
  by (simp add: power_int_def)

lemma abs_scale: "0 < p \<Longrightarrow> \<bar>a * p - x\<bar> = \<bar>a - x / p\<bar> * (p :: real)"
proof -
  assume p: "0 < p"
  then have "a * p - x = (a - x / p) * p" by (simp add: field_simps)
  with p show ?thesis by (simp add: abs_mult)
qed

lemma near_le: "\<bar>real_of_int m - y\<bar> \<le> 1 / 2 \<Longrightarrow> y < real_of_int k \<Longrightarrow> m \<le> k"
  by linarith

lemma near_ge: "\<bar>real_of_int m - y\<bar> \<le> 1 / 2 \<Longrightarrow> real_of_int k \<le> y \<Longrightarrow> k \<le> m"
  by linarith

lemma round_at_error:
  assumes "0 < d"
  shows "\<bar>real_of_int (round_at e n d) - real_of_int n / real_of_int d / 2 powi e\<bar> \<le> 1 / 2"
proof (cases "0 \<le> e")
  case True
  then have "real_of_int n / real_of_int d / 2 powi e = real_of_int n / real_of_int (d * 2 ^ nat e)"
    by (simp add: powi_nat)
  then show ?thesis
    using assms round_div_error [of "d * 2 ^ nat e" n] by (simp only: round_at_def if_P [OF True]) simp
next
  case False
  then have "real_of_int n / real_of_int d / 2 powi e = real_of_int (n * 2 ^ nat (- e)) / real_of_int d"
    by (simp add: power_int_def field_simps)
  then show ?thesis
    using assms round_div_error [of d "n * 2 ^ nat (- e)"] by (simp only: round_at_def if_not_P [OF False])
qed

text \<open>The exponent chosen puts the quotient into the significand's range.\<close>

definition fexp :: "int \<Rightarrow> int \<Rightarrow> int" where
  "fexp n d = max (-1074) (flog2 n d - 52)"

lemma fexp_range:
  assumes "0 < n" "0 < d"
  shows "real_of_int n / real_of_int d / 2 powi fexp n d < 2 ^ 53"
    and "fexp n d \<noteq> -1074 \<Longrightarrow> 2 ^ 52 \<le> real_of_int n / real_of_int d / 2 powi fexp n d"
    and "-1074 \<le> fexp n d"
proof -
  let ?e = "fexp n d" and ?x = "real_of_int n / real_of_int d"
  have p: "(0 :: real) < 2 powi ?e" by simp
  have "?x < 2 powi (flog2 n d + 1)" using assms by (rule flog2_bounds)
  also have "(2 :: real) powi (flog2 n d + 1) \<le> 2 powi (?e + 53)"
    by (rule power_int_increasing) (auto simp: fexp_def)
  also have "\<dots> = 2 powi ?e * 2 ^ 53"
    using power_int_add [of "2 :: real" ?e 53] by simp
  finally show "?x / 2 powi ?e < 2 ^ 53"
    by (simp only: pos_divide_less_eq [OF p] mult.commute [of "2 ^ 53"])
  show "2 ^ 52 \<le> ?x / 2 powi ?e" if "?e \<noteq> -1074"
  proof -
    from that have e: "flog2 n d = ?e + 52" by (auto simp: fexp_def max_def split: if_splits)
    have "2 powi ?e * 2 ^ 52 = (2 :: real) powi (flog2 n d)"
      using power_int_add [of "2 :: real" ?e 52] by (simp add: e)
    also have "\<dots> \<le> ?x" using assms by (rule flog2_bounds)
    finally show ?thesis by (simp only: pos_le_divide_eq [OF p] mult.commute [of "2 ^ 52"])
  qed
  show "-1074 \<le> ?e" by (simp add: fexp_def)
qed

lemma round_at_range:
  assumes "0 < n" "0 < d"
  shows "0 \<le> round_at (fexp n d) n d"
    and "round_at (fexp n d) n d \<le> 2 ^ 53"
    and "fexp n d \<noteq> -1074 \<Longrightarrow> 2 ^ 52 \<le> round_at (fexp n d) n d"
proof -
  let ?m = "round_at (fexp n d) n d"
  note err = round_at_error [OF assms(2), of "fexp n d" n]
  show "0 \<le> ?m" using assms by (intro near_ge [OF err]) simp
  show "?m \<le> 2 ^ 53" using fexp_range(1) [OF assms] by (intro near_le [OF err]) simp
  show "2 ^ 52 \<le> ?m" if "fexp n d \<noteq> -1074"
    using fexp_range(2) [OF assms that] by (intro near_ge [OF err]) simp
qed

lemma fround_eq_make: "0 < n \<Longrightarrow> fround s n d = make s (round_at (fexp n d) n d) (fexp n d)"
  by (simp add: fround_def fexp_def Let_def)

lemma fround_canonical:
  assumes "0 < d" "0 \<le> n" shows "canonical (fround s n d)"
proof (cases "n = 0")
  case False
  with assms(2) have n: "0 < n" by simp
  note r = round_at_range [OF n assms(1)] and e = fexp_range(3) [OF n assms(1)]
  show ?thesis
    using r e unfolding fround_eq_make [OF n] by (auto simp: make_def canonical_def Let_def)
qed (simp add: fround_def canonical_def)

lemma val_make:
  "e \<le> 970 \<Longrightarrow> val (make s m e) = (if s then - 1 else 1) * real_of_int m * 2 powi e \<and> is_finite (make s m e)"
  using power_int_add [of "2 :: real" e 1]
  by (auto simp: make_def val_def is_finite_def Let_def)

lemma fexp_upper:
  assumes "0 < n" "0 < d" "real_of_int n / real_of_int d < 2 ^ 1023" shows "fexp n d \<le> 970"
proof -
  have "(2 :: real) powi flog2 n d \<le> real_of_int n / real_of_int d" using assms(1,2) by (rule flog2_bounds)
  also have "\<dots> < 2 powi 1023" using assms(3) by simp
  finally have "flog2 n d < 1023"
    by (metis linorder_not_less one_le_numeral power_int_increasing)
  then show ?thesis by (simp add: fexp_def)
qed

text \<open>One rounding is at most half a unit of the last place away.\<close>

lemma fround_error:
  assumes "0 < n" "0 < d" "real_of_int n / real_of_int d < 2 ^ 1023"
  shows "\<bar>val (fround s n d) - (if s then - 1 else 1) * (real_of_int n / real_of_int d)\<bar> \<le> 2 powi fexp n d / 2"
    and "is_finite (fround s n d)"
proof -
  let ?e = "fexp n d" and ?m = "round_at (fexp n d) n d" and ?x = "real_of_int n / real_of_int d"
  note v = val_make [OF fexp_upper [OF assms], of s ?m]
  show "is_finite (fround s n d)" using v by (simp add: fround_eq_make assms)
  have p: "(0 :: real) < 2 powi ?e" by simp
  have "\<bar>real_of_int ?m * 2 powi ?e - ?x\<bar> = \<bar>real_of_int ?m - ?x / 2 powi ?e\<bar> * 2 powi ?e"
    by (rule abs_scale [OF p])
  also have "\<dots> \<le> 1 / 2 * 2 powi ?e"
    using round_at_error [OF assms(2)] p by (intro mult_right_mono) auto
  finally have "\<bar>real_of_int ?m * 2 powi ?e - ?x\<bar> \<le> 2 powi ?e / 2" by simp
  then show "\<bar>val (fround s n d) - (if s then - 1 else 1) * ?x\<bar> \<le> 2 powi ?e / 2"
    using v by (cases s) (simp_all add: fround_eq_make assms abs_minus_commute)
qed

text \<open>A number the format can represent is not rounded at all.\<close>

lemma fround_exact:
  assumes "0 < d" "real_of_int n / real_of_int d = real_of_int m * 2 powi k" "m < 2 ^ 53" "0 \<le> n" "-1074 \<le> k" "k \<le> 960"
  shows "val (fround s n d) = (if s then - 1 else 1) * (real_of_int n / real_of_int d) \<and> is_finite (fround s n d)"
proof (cases "n = 0")
  case True
  then show ?thesis by (simp add: fround_def val_def is_finite_def)
next
  case False
  with assms(4) have n: "0 < n" by simp
  let ?e = "fexp n d" and ?x = "real_of_int n / real_of_int d"
  have xk: "?x < 2 powi (k + 53)"
  proof -
    have "real_of_int m < 2 ^ 53" using assms(3) by (metis of_int_less_iff of_int_numeral of_int_power)
    then have "real_of_int m * 2 powi k < 2 powi 53 * 2 powi k" by simp
    also have "\<dots> = (2 :: real) powi (k + 53)" by (subst power_int_add) auto
    finally show ?thesis using assms(2) by simp
  qed
  have "2 powi flog2 n d \<le> ?x" using n assms(1) by (rule flog2_bounds)
  with xk have "(2 :: real) powi flog2 n d < 2 powi (k + 53)" by linarith
  then have "flog2 n d < k + 53" by (metis linorder_not_less one_le_numeral power_int_increasing)
  then have ek: "?e \<le> k" using assms(5) by (simp add: fexp_def)
  have "(2 :: real) powi k = 2 powi (int (nat (k - ?e)) + ?e)" using ek by simp
  also have "\<dots> = 2 ^ nat (k - ?e) * 2 powi ?e" using ek by (subst power_int_add) (auto simp: powi_nat)
  finally have x: "?x / 2 powi ?e = real_of_int (m * 2 ^ nat (k - ?e))" using assms(2) by simp
  define j where "j = m * 2 ^ nat (k - ?e)"
  define r where "r = round_at ?e n d"
  have "\<bar>real_of_int r - real_of_int j\<bar> \<le> 1 / 2" using round_at_error [OF assms(1), of ?e n] x by (simp add: r_def j_def)
  then have r: "r = j" by linarith
  have "real_of_int j = ?x / 2 powi ?e" using x by (simp only: j_def)
  then have "real_of_int j * 2 powi ?e = ?x / 2 powi ?e * 2 powi ?e" by simp
  then have "real_of_int j * 2 powi ?e = ?x" by (metis nonzero_eq_divide_eq power_int_eq_0_iff zero_neq_numeral)
  moreover have "?e \<le> 970" using ek assms(6) by simp
  ultimately show ?thesis
    using val_make [of ?e s r] r n by (simp add: fround_eq_make r_def [symmetric])
qed

lemma val_fint: "\<bar>i\<bar> < 2 ^ 53 \<Longrightarrow> val (fint i) = real_of_int i \<and> is_finite (fint i)"
  using fround_exact [of 1 "\<bar>i\<bar>" "\<bar>i\<bar>" 0 "i < 0"]
  by (auto simp: fint_def)

subsection \<open>Exact operations\<close>

text \<open>A sum or product the format can represent is computed exactly.\<close>

lemma val_fscale:
  assumes "real_of_int i * 2 powi e = real_of_int j * 2 powi k" "\<bar>j\<bar> < 2 ^ 53" "-1074 \<le> k" "k \<le> 960"
  shows "val (fscale z i e) = of_int j * 2 powi k \<and> is_finite (fscale z i e) \<and> canonical (fscale z i e)"
proof (cases "i = 0")
  case True
  then have "j = 0" using assms(1) by simp
  with True show ?thesis by (simp add: fscale_def val_def is_finite_def canonical_def)
next
  case False
  have sgn: "(i < 0) = (j < 0)"
  proof -
    have "(of_int i * 2 powi e < (0 :: real)) = (of_int j * 2 powi k < (0 :: real))" using assms(1) by simp
    moreover have "\<not> (2 powi e < (0 :: real))" "\<not> (2 powi k < (0 :: real))" by (simp_all add: not_less)
    ultimately show ?thesis by (simp add: mult_less_0_iff)
  qed
  have abs: "of_int \<bar>i\<bar> * 2 powi e = (of_int \<bar>j\<bar> * 2 powi k :: real)"
  proof -
    have "\<bar>of_int i * 2 powi e\<bar> = (\<bar>of_int j * 2 powi k\<bar> :: real)" using assms(1) by simp
    then show ?thesis by (simp add: abs_mult)
  qed
  have v: "(if i < 0 then - 1 else 1) * (of_int \<bar>j\<bar> * 2 powi k) = (of_int j * 2 powi k :: real)"
    using sgn by auto
  show ?thesis
  proof (cases "0 \<le> e")
    case True
    have "real_of_int (\<bar>i\<bar> * 2 ^ nat e) / real_of_int 1 = real_of_int \<bar>j\<bar> * 2 powi k"
      using abs True by (simp add: powi_nat)
    note * = fround_exact [OF _ this, of "i < 0"]
    show ?thesis using * fround_canonical [of 1 "\<bar>i\<bar> * 2 ^ nat e"] assms False True v abs
      by (simp add: fscale_def powi_nat)
  next
    case neg: False
    have q: "real_of_int \<bar>i\<bar> / real_of_int (2 ^ nat (- e)) = real_of_int \<bar>j\<bar> * 2 powi k"
      using abs neg by (simp add: power_int_def field_simps)
    have "val (fround (i < 0) \<bar>i\<bar> (2 ^ nat (- e))) = of_int j * 2 powi k \<and> is_finite (fround (i < 0) \<bar>i\<bar> (2 ^ nat (- e)))"
      using fround_exact [OF _ q, of "i < 0"] assms(2-4) unfolding q v by simp
    then show ?thesis using fround_canonical [of "2 ^ nat (- e)" "\<bar>i\<bar>"] False neg
      by (simp add: fscale_def)
  qed
qed

lemma signed_val: "val (Fin s m e) = of_int (signed s m) * 2 powi e"
  by (simp add: val_def signed_def)

lemma powi_shift: "k \<le> e \<Longrightarrow> 2 ^ nat (e - k) * 2 powi k = (2 powi e :: real)"
  using power_int_add [of "2 :: real" "e - k" k] by (simp add: powi_nat)

lemma val_fadd:
  assumes "is_finite x" "is_finite y" "val x + val y = of_int j * 2 powi k"
    and "\<bar>j\<bar> < 2 ^ 53" "-1074 \<le> k" "k \<le> 960"
  shows "val (fadd x y) = of_int j * 2 powi k \<and> is_finite (fadd x y) \<and> canonical (fadd x y)"
proof -
  obtain s m e s' m' e' where x: "x = Fin s m e" and y: "y = Fin s' m' e'"
    using assms(1,2) by (auto simp: is_finite_def split: float64.splits)
  let ?k = "min e e'"
  let ?i = "signed s m * 2 ^ nat (e - ?k) + signed s' m' * 2 ^ nat (e' - ?k)"
  have "of_int ?i * 2 powi ?k =
      of_int (signed s m) * (2 ^ nat (e - ?k) * 2 powi ?k) + of_int (signed s' m') * (2 ^ nat (e' - ?k) * (2 powi ?k :: real))"
    by (simp add: algebra_simps)
  also have "\<dots> = val x + val y" by (simp add: powi_shift x y signed_val)
  finally have "of_int ?i * 2 powi ?k = (of_int j * 2 powi k :: real)" using assms(3) by simp
  from val_fscale [OF this assms(4-6)] show ?thesis by (simp add: x y Let_def)
qed

lemma val_fneg: "val (fneg x) = - val x" "is_finite (fneg x) = is_finite x"
  by (auto simp: fneg_def val_def is_finite_def split: float64.split)

lemma val_fsub:
  assumes "is_finite x" "is_finite y" "val x - val y = of_int j * 2 powi k"
    and "\<bar>j\<bar> < 2 ^ 53" "-1074 \<le> k" "k \<le> 960"
  shows "val (fsub x y) = of_int j * 2 powi k \<and> is_finite (fsub x y) \<and> canonical (fsub x y)"
  unfolding fsub_def using assms by (intro val_fadd) (simp_all add: val_fneg)

lemma val_fmul:
  assumes "is_finite x" "is_finite y" "canonical x" "canonical y" "val x * val y = of_int j * 2 powi k"
    and "\<bar>j\<bar> < 2 ^ 53" "-1074 \<le> k" "k \<le> 960"
  shows "val (fmul x y) = of_int j * 2 powi k \<and> is_finite (fmul x y) \<and> canonical (fmul x y)"
proof -
  obtain s m e s' m' e' where x: "x = Fin s m e" and y: "y = Fin s' m' e'"
    using assms(1,2) by (auto simp: is_finite_def split: float64.splits)
  have pos: "0 \<le> m" "0 \<le> m'" using assms(3,4) by (simp_all add: x y canonical_def)
  have v: "val x * val y = (if s \<noteq> s' then - 1 else 1) * (of_int (m * m') * 2 powi (e + e'))"
    by (simp add: x y val_def power_int_add)
  have nn: "0 \<le> of_int (m * m') * (2 powi (e + e') :: real)" using pos by simp
  have a: "of_int (m * m') * 2 powi (e + e') = (of_int \<bar>j\<bar> * 2 powi k :: real)"
  proof -
    have "\<bar>val x * val y\<bar> = of_int (m * m') * (2 powi (e + e') :: real)" using pos unfolding v by (simp add: abs_mult)
    then show ?thesis unfolding assms(5) by (simp add: abs_mult)
  qed
  define w where "w = (if s \<noteq> s' then - 1 else 1) * (of_int \<bar>j\<bar> * 2 powi k :: real)"
  have w: "w = of_int j * 2 powi k" using v a assms(5) by (simp add: w_def)
  show ?thesis
  proof (cases "0 \<le> e + e'")
    case True
    have q: "real_of_int (m * m' * 2 ^ nat (e + e')) / real_of_int 1 = real_of_int \<bar>j\<bar> * 2 powi k"
      using a True by (simp add: powi_nat)
    have "val (fround (s \<noteq> s') (m * m' * 2 ^ nat (e + e')) 1) = w \<and> is_finite (fround (s \<noteq> s') (m * m' * 2 ^ nat (e + e')) 1)"
      using fround_exact [OF _ q, of "s \<noteq> s'"] assms(6-8) pos q by (simp add: w_def)
    then show ?thesis
      using True w pos fround_canonical [of 1 "m * m' * 2 ^ nat (e + e')"] by (simp add: x y)
  next
    case False
    have q: "real_of_int (m * m') / real_of_int (2 ^ nat (- (e + e'))) = real_of_int \<bar>j\<bar> * 2 powi k"
      using a False by (simp add: power_int_def field_simps)
    have "val (fround (s \<noteq> s') (m * m') (2 ^ nat (- (e + e')))) = w \<and> is_finite (fround (s \<noteq> s') (m * m') (2 ^ nat (- (e + e'))))"
      using fround_exact [OF _ q, of "s \<noteq> s'"] assms(6-8) pos q by (simp add: w_def)
    then show ?thesis
      using False w pos fround_canonical [of "2 ^ nat (- (e + e'))" "m * m'"] by (simp add: x y)
  qed
qed

text \<open>A quotient is off by at most one part in \<open>2 ^ 53\<close>.\<close>

lemma fround_relative:
  assumes "0 < n" "0 < d" "2 powi (-1022) \<le> real_of_int n / real_of_int d" "real_of_int n / real_of_int d < 2 ^ 1023"
  shows "\<bar>val (fround s n d) - (if s then - 1 else 1) * (real_of_int n / real_of_int d)\<bar>
    \<le> real_of_int n / real_of_int d * 2 powi (-53)"
proof -
  let ?x = "real_of_int n / real_of_int d"
  have l: "2 powi flog2 n d \<le> ?x" and u: "?x < 2 powi (flog2 n d + 1)" using assms(1,2) by (rule flog2_bounds)+
  have "2 powi (-1022) < (2 powi (flog2 n d + 1) :: real)" using assms(3) u by linarith
  then have "-1022 < flog2 n d + 1" by (metis linorder_not_less one_le_numeral power_int_increasing)
  then have e: "fexp n d = flog2 n d - 52" by (simp add: fexp_def)
  have "2 powi fexp n d / 2 = 2 powi flog2 n d * (2 powi (-53) :: real)"
    unfolding e by (simp add: power_int_diff power_int_minus field_simps)
  also have "\<dots> \<le> ?x * 2 powi (-53)" using l by (intro mult_right_mono) auto
  finally show ?thesis using fround_error(1) [OF assms(1,2,4), of s] by linarith
qed

lemma fdiv_relative:
  assumes "is_finite x" "is_finite y" "canonical x" "canonical y" "val x \<noteq> 0" "val y \<noteq> 0"
    and "2 powi (-1022) \<le> \<bar>val x / val y\<bar>" "\<bar>val x / val y\<bar> < 2 ^ 1023"
  shows "\<bar>val (fdiv x y) - val x / val y\<bar> \<le> \<bar>val x / val y\<bar> * 2 powi (-53)" and "is_finite (fdiv x y)"
proof -
  obtain s m e s' m' e' where x: "x = Fin s m e" and y: "y = Fin s' m' e'"
    using assms(1,2) by (auto simp: is_finite_def split: float64.splits)
  have pos: "0 < m" "0 < m'" using assms(3-6) by (auto simp: x y canonical_def val_def)
  define n d where "n = (if e' \<le> e then m * 2 ^ nat (e - e') else m)"
    and "d = (if e' \<le> e then m' else m' * 2 ^ nat (e' - e))"
  have nd: "0 < n" "0 < d" using pos by (simp_all add: n_def d_def)
  have f: "fdiv x y = fround (s \<noteq> s') n d" using pos by (simp add: x y n_def d_def)
  have ab: "\<bar>val x / val y\<bar> = real_of_int n / real_of_int d"
    and sg: "val x / val y = (if s \<noteq> s' then - 1 else 1) * (real_of_int n / real_of_int d)"
  proof -
    have q: "real_of_int m * 2 powi e / (real_of_int m' * 2 powi e') = real_of_int n / real_of_int d"
    proof (cases "e' \<le> e")
      case True
      then have "(2 powi e :: real) = 2 ^ nat (e - e') * 2 powi e'" by (simp add: powi_shift)
      then show ?thesis using True by (simp add: n_def d_def)
    next
      case False
      then have "(2 powi e' :: real) = 2 ^ nat (e' - e) * 2 powi e" by (simp add: powi_shift)
      then show ?thesis using False by (simp add: n_def d_def)
    qed
    have "val x / val y = (if s \<noteq> s' then - 1 else 1) * (real_of_int m * 2 powi e / (real_of_int m' * 2 powi e'))"
      by (simp add: x y val_def)
    then show sg: "val x / val y = (if s \<noteq> s' then - 1 else 1) * (real_of_int n / real_of_int d)" unfolding q .
    show "\<bar>val x / val y\<bar> = real_of_int n / real_of_int d" using nd unfolding sg by (simp add: abs_mult)
  qed
  show "\<bar>val (fdiv x y) - val x / val y\<bar> \<le> \<bar>val x / val y\<bar> * 2 powi (-53)"
    using fround_relative [OF nd, of "s \<noteq> s'"] assms(7,8) unfolding ab f by (simp only: sg)
  show "is_finite (fdiv x y)" using fround_error(2) [OF nd] assms(8) unfolding ab f by blast
qed

text \<open>So is a product, and a sum, away from the underflow.\<close>

lemma fscale_relative:
  assumes "i \<noteq> 0" and "2 powi (-1022) \<le> \<bar>real_of_int i * 2 powi e\<bar>" and "\<bar>real_of_int i * 2 powi e\<bar> < 2 ^ 1023"
  shows "\<bar>val (fscale z i e) - of_int i * 2 powi e\<bar> \<le> \<bar>of_int i * 2 powi e\<bar> * 2 powi (-53)"
    and "is_finite (fscale z i e) \<and> canonical (fscale z i e)"
proof -
  define n d where "n = (if 0 \<le> e then \<bar>i\<bar> * 2 ^ nat e else \<bar>i\<bar>)" and "d = (if 0 \<le> e then 1 else (2 :: int) ^ nat (- e))"
  have f: "fscale z i e = fround (i < 0) n d" using assms(1) by (simp add: fscale_def n_def d_def)
  have nd: "0 < n" "0 < d" using assms(1) by (simp_all add: n_def d_def)
  have q: "real_of_int n / real_of_int d = \<bar>of_int i * 2 powi e\<bar>"
    by (simp add: n_def d_def abs_mult powi_nat power_int_def field_simps)
  have v: "(if i < 0 then - 1 else 1) * \<bar>of_int i * 2 powi e\<bar> = (of_int i * 2 powi e :: real)"
    by (simp add: abs_mult)
  show "\<bar>val (fscale z i e) - of_int i * 2 powi e\<bar> \<le> \<bar>of_int i * 2 powi e\<bar> * 2 powi (-53)"
    using fround_relative [OF nd, of "i < 0"] assms(2,3) unfolding q f v by blast
  show "is_finite (fscale z i e) \<and> canonical (fscale z i e)"
    using fround_error(2) [OF nd] fround_canonical [of d n] nd assms(3) unfolding q f by simp
qed

lemma fadd_relative:
  assumes "is_finite x" "is_finite y" "2 powi (-1022) \<le> \<bar>val x + val y\<bar>" "\<bar>val x + val y\<bar> < 2 ^ 1023"
  shows "\<bar>val (fadd x y) - (val x + val y)\<bar> \<le> \<bar>val x + val y\<bar> * 2 powi (-53)"
    and "is_finite (fadd x y) \<and> canonical (fadd x y)"
proof -
  obtain s m e s' m' e' where x: "x = Fin s m e" and y: "y = Fin s' m' e'"
    using assms(1,2) by (auto simp: is_finite_def split: float64.splits)
  define k i where "k = min e e'" and "i = signed s m * 2 ^ nat (e - k) + signed s' m' * 2 ^ nat (e' - k)"
  have "of_int i * 2 powi k =
      of_int (signed s m) * (2 ^ nat (e - k) * 2 powi k) + of_int (signed s' m') * (2 ^ nat (e' - k) * (2 powi k :: real))"
    by (simp add: i_def algebra_simps)
  also have "\<dots> = val x + val y" by (simp add: powi_shift x y signed_val k_def)
  finally have v: "of_int i * 2 powi k = val x + val y" .
  have "(0 :: real) < 2 powi (-1022)" by simp
  then have "i \<noteq> 0" using assms(3) v by auto
  note r = fscale_relative [OF this, of k "s \<and> s'", unfolded v, OF assms(3,4)]
  have f: "fadd x y = fscale (s \<and> s') i k" by (simp add: x y i_def k_def Let_def)
  show "\<bar>val (fadd x y) - (val x + val y)\<bar> \<le> \<bar>val x + val y\<bar> * 2 powi (-53)"
    and "is_finite (fadd x y) \<and> canonical (fadd x y)" using r unfolding f by simp_all
qed

lemma fmul_relative:
  assumes "is_finite x" "is_finite y" "canonical x" "canonical y"
    and "2 powi (-1022) \<le> \<bar>val x * val y\<bar>" "\<bar>val x * val y\<bar> < 2 ^ 1023"
  shows "\<bar>val (fmul x y) - val x * val y\<bar> \<le> \<bar>val x * val y\<bar> * 2 powi (-53)"
    and "is_finite (fmul x y) \<and> canonical (fmul x y)"
proof -
  obtain s m e s' m' e' where x: "x = Fin s m e" and y: "y = Fin s' m' e'"
    using assms(1,2) by (auto simp: is_finite_def split: float64.splits)
  have "(0 :: real) < 2 powi (-1022)" by simp
  then have "val x \<noteq> 0" "val y \<noteq> 0" using assms(5) by auto
  then have pos: "0 < m" "0 < m'" using assms(3,4) by (auto simp: x y canonical_def val_def)
  define n d where "n = (if 0 \<le> e + e' then m * m' * 2 ^ nat (e + e') else m * m')"
    and "d = (if 0 \<le> e + e' then 1 else (2 :: int) ^ nat (- (e + e')))"
  have nd: "0 < n" "0 < d" using pos by (simp_all add: n_def d_def)
  have f: "fmul x y = fround (s \<noteq> s') n d" by (simp add: x y n_def d_def)
  have "real_of_int n / real_of_int d = of_int (m * m') * 2 powi (e + e')"
    by (simp add: n_def d_def powi_nat power_int_def field_simps)
  then have sg: "val x * val y = (if s \<noteq> s' then - 1 else 1) * (real_of_int n / real_of_int d)"
    by (simp add: x y val_def power_int_add)
  then have ab: "\<bar>val x * val y\<bar> = real_of_int n / real_of_int d" using nd by (simp add: abs_mult)
  show "\<bar>val (fmul x y) - val x * val y\<bar> \<le> \<bar>val x * val y\<bar> * 2 powi (-53)"
    using fround_relative [OF nd, of "s \<noteq> s'"] assms(5,6) unfolding ab f by (simp only: sg)
  show "is_finite (fmul x y) \<and> canonical (fmul x y)"
    using fround_error(2) [OF nd] fround_canonical [of d n] nd assms(6) unfolding ab f by simp
qed

text \<open>Two roundings, one after the other.\<close>

lemma relative_trans:
  fixes x y z :: real
  assumes "\<bar>y - x\<bar> \<le> \<bar>x\<bar> * a" and "\<bar>z - y\<bar> \<le> \<bar>y\<bar> * b" and "0 \<le> a" and "0 \<le> b"
  shows "\<bar>z - x\<bar> \<le> \<bar>x\<bar> * (a + b + a * b)"
proof -
  have "\<bar>y\<bar> \<le> \<bar>x\<bar> * (1 + a)" using assms(1) by (simp add: algebra_simps)
  then have "\<bar>y\<bar> * b \<le> \<bar>x\<bar> * (1 + a) * b" using assms(4) by (rule mult_right_mono)
  then have "\<bar>z - x\<bar> \<le> \<bar>x\<bar> * (1 + a) * b + \<bar>x\<bar> * a" using assms(1,2) by linarith
  also have "\<dots> = \<bar>x\<bar> * (a + b + a * b)" by (simp add: algebra_simps)
  finally show ?thesis .
qed

lemma relative_scale:
  fixes a b c u :: real
  assumes "\<bar>a - b\<bar> \<le> \<bar>b\<bar> * u"
  shows "\<bar>a * c - b * c\<bar> \<le> \<bar>b * c\<bar> * u"
proof -
  have "\<bar>a * c - b * c\<bar> = \<bar>a - b\<bar> * \<bar>c\<bar>" unfolding left_diff_distrib [symmetric] by (rule abs_mult)
  also have "\<dots> \<le> \<bar>b\<bar> * u * \<bar>c\<bar>" using assms by (rule mult_right_mono) simp
  finally show ?thesis by (simp add: abs_mult mult_ac)
qed

lemma three_roundings:
  fixes u :: real
  assumes "0 \<le> u" and "u \<le> 1 / 8"
  shows "u + u + u * u + u + (u + u + u * u) * u \<le> 4 * u"
proof -
  have a: "u * u \<le> u * (1 / 8)" using assms(2,1) by (rule mult_left_mono)
  have "0 \<le> u * u" by simp
  then have b: "u * u * u \<le> u * u * (1 / 8)" using assms(2) by (rule mult_left_mono [rotated])
  have "(u + u + u * u) * u = 2 * (u * u) + u * u * u" by (simp add: algebra_simps)
  then show ?thesis using a b assms(1) by linarith
qed

end
