(* ===== verification/Utf8.thy ===== *)
theory Utf8
  imports Prelude
begin

text \<open>
  UTF-8 as Go's \<^verbatim>\<open>unicode/utf8\<close> reads and writes it: the rune at the head of a string, the runes
  a range loop visits (an invalid byte counting as one replacement rune), validity, and the rune
  classes the \<^verbatim>\<open>kasa\<close> package asks for.
\<close>

definition replacement :: nat where "replacement = 0xFFFD"

definition cont :: "char \<Rightarrow> bool" where
  "cont c \<longleftrightarrow> (let n = of_char c :: nat in 0x80 \<le> n \<and> n < 0xC0)"

definition low6 :: "char \<Rightarrow> nat" where
  "low6 c = of_char c mod 64"

text \<open>The rune encoded at the head of a string with the number of bytes it takes, or \<^term>\<open>None\<close>
  where \<^verbatim>\<open>DecodeRuneInString\<close> reports an error.\<close>

definition decode_rune :: "string \<Rightarrow> (nat \<times> nat) option" where
  "decode_rune s = (case s of
       [] \<Rightarrow> None
     | c # r \<Rightarrow>
       let n = of_char c :: nat in
       if n < 0x80 then Some (n, 1)
       else if 0xC2 \<le> n \<and> n \<le> 0xDF then
         (case r of c1 # _ \<Rightarrow> if cont c1 then Some (n mod 32 * 64 + low6 c1, 2) else None | _ \<Rightarrow> None)
       else if 0xE0 \<le> n \<and> n \<le> 0xEF then
         (case r of c1 # c2 # _ \<Rightarrow>
            let x = n mod 16 * 4096 + low6 c1 * 64 + low6 c2 in
            if cont c1 \<and> cont c2 \<and> 0x800 \<le> x \<and> \<not> (0xD800 \<le> x \<and> x \<le> 0xDFFF)
            then Some (x, 3) else None
          | _ \<Rightarrow> None)
       else if 0xF0 \<le> n \<and> n \<le> 0xF4 then
         (case r of c1 # c2 # c3 # _ \<Rightarrow>
            let x = n mod 8 * 262144 + low6 c1 * 4096 + low6 c2 * 64 + low6 c3 in
            if cont c1 \<and> cont c2 \<and> cont c3 \<and> 0x10000 \<le> x \<and> x \<le> 0x10FFFF
            then Some (x, 4) else None
          | _ \<Rightarrow> None)
       else None)"

definition byte_char :: "nat \<Rightarrow> char" where
  "byte_char n = char_of n"

definition encode_rune :: "nat \<Rightarrow> string" where
  "encode_rune r0 =
     (let r = (if 0x10FFFF < r0 \<or> (0xD800 \<le> r0 \<and> r0 \<le> 0xDFFF) then replacement else r0) in
      if r < 0x80 then [byte_char r]
      else if r < 0x800 then [byte_char (0xC0 + r div 64), byte_char (0x80 + r mod 64)]
      else if r < 0x10000 then
        [byte_char (0xE0 + r div 4096), byte_char (0x80 + r div 64 mod 64), byte_char (0x80 + r mod 64)]
      else
        [byte_char (0xF0 + r div 262144), byte_char (0x80 + r div 4096 mod 64),
         byte_char (0x80 + r div 64 mod 64), byte_char (0x80 + r mod 64)])"

lemma decode_rune_width:
  "decode_rune s = Some (r, w) \<Longrightarrow> 1 \<le> w \<and> w \<le> length s \<and> w \<le> 4"
  by (auto simp: decode_rune_def Let_def split: list.splits if_splits)

text \<open>What a range loop over the string visits: each rune with the bytes it came from.\<close>

function rune_parts :: "string \<Rightarrow> (nat \<times> string) list" where
  "rune_parts [] = []"
| "rune_parts (c # s) =
     (case decode_rune (c # s) of
        Some (r, w) \<Rightarrow> (r, take w (c # s)) # rune_parts (drop (w - 1) s)
      | None \<Rightarrow> (replacement, [c]) # rune_parts s)"
  by pat_completeness auto
termination
  by (relation "measure length") auto

definition runes :: "string \<Rightarrow> nat list" where
  "runes s = map fst (rune_parts s)"

function valid_utf8 :: "string \<Rightarrow> bool" where
  "valid_utf8 [] = True"
| "valid_utf8 (c # s) =
     (case decode_rune (c # s) of Some (_, w) \<Rightarrow> valid_utf8 (drop (w - 1) s) | None \<Rightarrow> False)"
  by pat_completeness auto
termination
  by (relation "measure length") auto

text \<open>\<^verbatim>\<open>unicode.IsControl\<close>\<close>

definition is_control :: "nat \<Rightarrow> bool" where
  "is_control r \<longleftrightarrow> r < 0x20 \<or> (0x7F \<le> r \<and> r < 0xA0)"

subsection \<open>Laws\<close>

lemma of_char_byte [simp]: "n < 256 \<Longrightarrow> of_char (byte_char n) = n"
  by (simp add: byte_char_def)

lemma split64: "(r :: nat) div 4096 * 4096 + r div 64 mod 64 * 64 + r mod 64 = r"
proof -
  have "r div 4096 = r div 64 div 64" by (simp add: div_mult2_eq)
  moreover have "r div 64 div 64 * 64 + r div 64 mod 64 = r div 64" by (rule div_mult_mod_eq)
  moreover have "r div 64 * 64 + r mod 64 = r" by (rule div_mult_mod_eq)
  ultimately show ?thesis by linarith
qed

lemma split64': "(r :: nat) div 262144 * 262144 + r div 4096 mod 64 * 4096 + r div 64 mod 64 * 64 + r mod 64 = r"
proof -
  have "r div 262144 = r div 4096 div 64" by (simp add: div_mult2_eq)
  moreover have "r div 4096 div 64 * 64 + r div 4096 mod 64 = r div 4096" by (rule div_mult_mod_eq)
  ultimately show ?thesis using split64 [of r] by linarith
qed

lemma mod_off: "n = c * m \<Longrightarrow> x < m \<Longrightarrow> (n + x) mod m = (x :: nat)"
  by simp

lemma cont_low6 [simp]:
  "cont (byte_char (0x80 + k mod 64))" "low6 (byte_char (0x80 + k mod 64)) = k mod 64"
proof -
  have k: "k mod 64 < 64" by simp
  then have "(of_char (byte_char (0x80 + k mod 64)) :: nat) = 0x80 + k mod 64" by simp
  moreover have "(0x80 + k mod 64) mod 64 = k mod 64" using k by (intro mod_off [of _ 2]) simp_all
  ultimately show "cont (byte_char (0x80 + k mod 64))" "low6 (byte_char (0x80 + k mod 64)) = k mod 64"
    using k by (simp_all add: cont_def low6_def Let_def)
qed

lemma decode_rune_3:
  assumes "of_char c = 0xE0 + q" "q < 16" "cont c1" "cont c2"
    and "q * 4096 + low6 c1 * 64 + low6 c2 = x" "0x800 \<le> x" "\<not> (0xD800 \<le> x \<and> x \<le> 0xDFFF)"
  shows "decode_rune (c # c1 # c2 # s) = Some (x, 3)"
proof -
  have m: "(224 + q) mod 16 = q" using assms(2) by (intro mod_off [of _ 14]) simp_all
  show ?thesis using assms by (simp add: decode_rune_def m Let_def)
qed

lemma decode_rune_4:
  assumes "of_char c = 0xF0 + q" "q \<le> 4" "cont c1" "cont c2" "cont c3"
    and "q * 262144 + low6 c1 * 4096 + low6 c2 * 64 + low6 c3 = x" "0x10000 \<le> x" "x \<le> 0x10FFFF"
  shows "decode_rune (c # c1 # c2 # c3 # s) = Some (x, 4)"
proof -
  have m: "(240 + q) mod 8 = q" using assms(2) by (intro mod_off [of _ 30]) simp_all
  show ?thesis using assms by (simp add: decode_rune_def m Let_def)
qed

lemma decode_encode:
  assumes "r \<le> 0x10FFFF" and "\<not> (0xD800 \<le> r \<and> r \<le> 0xDFFF)"
  shows "decode_rune (encode_rune r @ s) = Some (r, length (encode_rune r))"
proof -
  have enc: "encode_rune r =
     (if r < 0x80 then [byte_char r]
      else if r < 0x800 then [byte_char (0xC0 + r div 64), byte_char (0x80 + r mod 64)]
      else if r < 0x10000 then
        [byte_char (0xE0 + r div 4096), byte_char (0x80 + r div 64 mod 64), byte_char (0x80 + r mod 64)]
      else
        [byte_char (0xF0 + r div 262144), byte_char (0x80 + r div 4096 mod 64),
         byte_char (0x80 + r div 64 mod 64), byte_char (0x80 + r mod 64)])"
    using assms unfolding encode_rune_def Let_def by (simp only: not_less [symmetric] if_False simp_thms)
  consider "r < 0x80" | "0x80 \<le> r" "r < 0x800" | "0x800 \<le> r" "r < 0x10000" | "0x10000 \<le> r" by linarith
  then show ?thesis
  proof cases
    case 1
    then show ?thesis by (simp add: enc decode_rune_def Let_def)
  next
    case 2
    define q where "q = r div 64"
    have "q < 32" "2 \<le> q" using 2 by (simp_all add: q_def less_mult_imp_div_less div_le_mono [of 128 r 64, simplified])
    moreover have "(192 + q) mod 32 = q" using \<open>q < 32\<close> by (intro mod_off [of _ 6]) simp_all
    moreover have "q * 64 + r mod 64 = r" unfolding q_def by (rule div_mult_mod_eq)
    ultimately show ?thesis
      using 2 by (simp add: enc decode_rune_def q_def [symmetric] Let_def)
  next
    case 3
    then have q: "r div 4096 < 16" by (simp add: less_mult_imp_div_less)
    have "decode_rune (byte_char (0xE0 + r div 4096) # byte_char (0x80 + r div 64 mod 64)
        # byte_char (0x80 + r mod 64) # s) = Some (r, 3)"
      using 3 q split64 [of r] assms(2) by (intro decode_rune_3 [of _ "r div 4096"]) simp_all
    then show ?thesis using 3 by (simp add: enc)
  next
    case 4
    have q: "r div 262144 \<le> 4" using assms(1) div_le_mono [of r 1114111 262144] by simp
    have "decode_rune (byte_char (0xF0 + r div 262144) # byte_char (0x80 + r div 4096 mod 64)
        # byte_char (0x80 + r div 64 mod 64) # byte_char (0x80 + r mod 64) # s) = Some (r, 4)"
      using 4 q split64' [of r] assms(1) by (intro decode_rune_4 [of _ "r div 262144"]) simp_all
    then show ?thesis using 4 by (simp add: enc)
  qed
qed

text \<open>The encoding is canonical: only the encoding of a rune decodes to it.\<close>

lemma byte_char_of_char [simp]: "byte_char (of_char c) = c"
  by (simp add: byte_char_def)

lemma mod_in: "k = c * m \<Longrightarrow> k \<le> n \<Longrightarrow> n < k + m \<Longrightarrow> k + n mod m = (n :: nat)"
  using mod_off [of k c m "n - k"] by simp

lemma cont_byte: "cont c \<Longrightarrow> byte_char (0x80 + low6 c) = c"
proof -
  assume "cont c"
  then have "0x80 \<le> (of_char c :: nat)" "(of_char c :: nat) < 0xC0" by (auto simp: cont_def Let_def)
  then have "0x80 + low6 c = of_char c" unfolding low6_def by (intro mod_in [of _ 2]) simp_all
  then show ?thesis by simp
qed

lemma lead_byte: "(of_char c :: nat) = k + q \<Longrightarrow> byte_char (k + q) = c"
  by (metis byte_char_of_char)

lemma low6_less [simp]: "low6 c < 64"
  by (simp add: low6_def)

lemma digits64:
  assumes "b < 64" "c < (64 :: nat)"
  shows "(a * 64 + c) div 64 = a" "(a * 64 + c) mod 64 = c"
    "(a * 4096 + b * 64 + c) div 4096 = a" "(a * 4096 + b * 64 + c) div 64 mod 64 = b"
    "(a * 4096 + b * 64 + c) mod 64 = c"
proof -
  have e: "a * 4096 + b * 64 + c = (a * 64 + b) * 64 + c" by simp
  have d: "(a * 4096 + b * 64 + c) div 64 = a * 64 + b" unfolding e using assms(2) by simp
  show "(a * 64 + c) div 64 = a" "(a * 64 + c) mod 64 = c" using assms(2) by simp_all
  have "(a * 4096 + b * 64 + c) div 4096 = (a * 4096 + b * 64 + c) div 64 div 64"
    by (simp flip: div_mult2_eq)
  then show "(a * 4096 + b * 64 + c) div 4096 = a" unfolding d using assms(1) by simp
  show "(a * 4096 + b * 64 + c) div 64 mod 64 = b" unfolding d using assms(1) by simp
  show "(a * 4096 + b * 64 + c) mod 64 = c"
    using mod_off [of "(a * 64 + b) * 64" "a * 64 + b" 64 c] assms(2) unfolding e by simp
qed

lemma decode_rune_canonical:
  assumes "decode_rune s = Some (r, w)"
  shows "take w s = encode_rune r"
proof -
  obtain c t where s: "s = c # t" using assms by (cases s) (auto simp: decode_rune_def)
  define n where "n = (of_char c :: nat)"
  consider "n < 0x80" | "0xC2 \<le> n" "n \<le> 0xDF" | "0xE0 \<le> n" "n \<le> 0xEF" | "0xF0 \<le> n" "n \<le> 0xF4"
    using assms by (auto simp: decode_rune_def s n_def Let_def split: if_splits)
  then show ?thesis
  proof cases
    case 1
    then show ?thesis using assms by (auto simp: decode_rune_def s n_def encode_rune_def Let_def)
  next
    case 2
    then obtain c1 u where t: "t = c1 # u" "cont c1" and r: "r = n mod 32 * 64 + low6 c1" "w = 2"
      using assms by (auto simp: decode_rune_def s n_def Let_def split: list.splits if_splits)
    define q where "q = n mod 32"
    have q0: "n = 0xC0 + q" unfolding q_def using 2 by (intro mod_in [symmetric, of _ 6]) simp_all
    then have q: "n = 0xC0 + q" "2 \<le> q" "q < 32" using 2 by simp_all
    have "r < 0x800" "\<not> r < 0x80" using q low6_less [of c1] unfolding r(1) q_def [symmetric] by linarith+
    then have "encode_rune r = [byte_char (0xC0 + r div 64), byte_char (0x80 + r mod 64)]"
      by (simp add: encode_rune_def Let_def)
    moreover have "r div 64 = q" "r mod 64 = low6 c1"
      unfolding r(1) q_def [symmetric] by (simp_all add: digits64)
    ultimately show ?thesis
      using q(1) t r(2) cont_byte [OF t(2)] lead_byte [of c "0xC0" q] by (simp add: s n_def)
  next
    case 3
    then obtain c1 c2 u where t: "t = c1 # c2 # u" "cont c1" "cont c2"
      and r: "r = n mod 16 * 4096 + low6 c1 * 64 + low6 c2" "w = 3"
      and ok: "0x800 \<le> r" "\<not> (0xD800 \<le> r \<and> r \<le> 0xDFFF)"
      using assms by (auto simp: decode_rune_def s n_def Let_def split: list.splits if_splits)
    define q where "q = n mod 16"
    have q0: "n = 0xE0 + q" unfolding q_def using 3 by (intro mod_in [symmetric, of _ 14]) simp_all
    then have q: "n = 0xE0 + q" "q < 16" using 3 by simp_all
    have "r < 0x10000" using q low6_less [of c1] low6_less [of c2] unfolding r(1) q_def [symmetric] by linarith
    then have "encode_rune r = [byte_char (0xE0 + r div 4096), byte_char (0x80 + r div 64 mod 64), byte_char (0x80 + r mod 64)]"
      using ok by (auto simp: encode_rune_def Let_def)
    moreover have "r div 4096 = q" "r div 64 mod 64 = low6 c1" "r mod 64 = low6 c2"
      unfolding r(1) q_def [symmetric] by (simp_all add: digits64)
    ultimately show ?thesis
      using q(1) t r(2) cont_byte [OF t(2)] cont_byte [OF t(3)] lead_byte [of c "0xE0" q] by (simp add: s n_def)
  next
    case 4
    then obtain c1 c2 c3 u where t: "t = c1 # c2 # c3 # u" "cont c1" "cont c2" "cont c3"
      and r: "r = n mod 8 * 262144 + low6 c1 * 4096 + low6 c2 * 64 + low6 c3" "w = 4"
      and ok: "0x10000 \<le> r" "r \<le> 0x10FFFF"
      using assms by (auto simp: decode_rune_def s n_def Let_def split: list.splits if_splits)
    define q where "q = n mod 8"
    have q: "n = 0xF0 + q" unfolding q_def using 4 by (intro mod_in [symmetric, of _ 30]) simp_all
    have e: "r = (q * 64 + low6 c1) * 4096 + low6 c2 * 64 + low6 c3" by (simp add: r(1) q_def)
    have "encode_rune r = [byte_char (0xF0 + r div 262144), byte_char (0x80 + r div 4096 mod 64),
         byte_char (0x80 + r div 64 mod 64), byte_char (0x80 + r mod 64)]"
      using ok by (auto simp: encode_rune_def Let_def)
    moreover have h: "r div 4096 = q * 64 + low6 c1" "r div 64 mod 64 = low6 c2" "r mod 64 = low6 c3"
      unfolding e by (simp_all only: digits64 low6_less)
    moreover have "r div 262144 = r div 4096 div 64" by (simp flip: div_mult2_eq)
    then have "r div 262144 = q" unfolding h by (simp add: digits64)
    ultimately show ?thesis
      using q t r(2) cont_byte [OF t(2)] cont_byte [OF t(3)] cont_byte [OF t(4)] lead_byte [of c "0xF0" q]
      by (simp add: s n_def digits64)
  qed
qed

lemma decode_rune_valid:
  assumes "decode_rune s = Some (r, w)"
  shows "r \<le> 0x10FFFF" "\<not> (0xD800 \<le> r \<and> r \<le> 0xDFFF)"
proof -
  obtain c t where s: "s = c # t" using assms by (cases s) (auto simp: decode_rune_def)
  define n where "n = (of_char c :: nat)"
  consider "n < 0x80" | "0xC2 \<le> n" "n \<le> 0xDF" | "0xE0 \<le> n" "n \<le> 0xEF" | "0xF0 \<le> n" "n \<le> 0xF4"
    using assms by (auto simp: decode_rune_def s n_def Let_def split: if_splits)
  then have "r \<le> 0x10FFFF \<and> \<not> (0xD800 \<le> r \<and> r \<le> 0xDFFF)"
  proof cases
    case 1
    then show ?thesis using assms by (simp add: decode_rune_def s n_def Let_def)
  next
    case 2
    then obtain c1 where r: "r = n mod 32 * 64 + low6 c1"
      using assms by (auto simp: decode_rune_def s n_def Let_def split: list.splits if_splits)
    have "n mod 32 < 32" by simp
    then show ?thesis using low6_less [of c1] unfolding r by linarith
  next
    case 3
    then obtain c1 c2 where r: "r = n mod 16 * 4096 + low6 c1 * 64 + low6 c2"
      and ok: "\<not> (0xD800 \<le> r \<and> r \<le> 0xDFFF)"
      using assms by (auto simp: decode_rune_def s n_def Let_def split: list.splits if_splits)
    have "n mod 16 < 16" by simp
    then have "r \<le> 0x10FFFF" using low6_less [of c1] low6_less [of c2] unfolding r by linarith
    with ok show ?thesis by blast
  next
    case 4
    then show ?thesis
      using assms by (auto simp: decode_rune_def s n_def Let_def split: list.splits if_splits)
  qed
  then show "r \<le> 0x10FFFF" "\<not> (0xD800 \<le> r \<and> r \<le> 0xDFFF)" by blast+
qed

text \<open>Decoding looks at the bytes of the rune only.\<close>

lemma decode_rune_local:
  assumes "decode_rune s = Some (r, w)" shows "decode_rune (take w s @ t) = Some (r, w)"
proof -
  have "length (take w s) = w" using decode_rune_width [OF assms] by simp
  with decode_encode [OF decode_rune_valid [OF assms], of t] show ?thesis
    by (simp add: decode_rune_canonical [OF assms])
qed

interpretation utf8_rune: codec encode_rune "\<lambda>s. map_option fst (decode_rune s)"
    "\<lambda>r. r \<le> 0x10FFFF \<and> \<not> (0xD800 \<le> r \<and> r \<le> 0xDFFF)"
  using decode_encode [of _ "[]"] by unfold_locales simp

subsection \<open>ASCII case and prefixes\<close>

definition has_prefix :: "string \<Rightarrow> string \<Rightarrow> bool" where
  "has_prefix s p \<longleftrightarrow> take (length p) s = p"

fun contains :: "string \<Rightarrow> string \<Rightarrow> bool" where
  "contains [] p = has_prefix [] p"
| "contains (c # s) p = (has_prefix (c # s) p \<or> contains s p)"

definition upper_char :: "char \<Rightarrow> char" where
  "upper_char c = (let n = of_char c in if 97 \<le> n \<and> n \<le> 122 then char_of (n - 32 :: nat) else c)"

text \<open>
  \<^verbatim>\<open>strings.ToUpper\<close> as far as its ASCII output goes: besides the ASCII letters, two other runes
  have an ASCII upper case, the dotless i (\<open>C4 B1\<close>) and the long s (\<open>C5 BF\<close>). Other runes are
  kept, their upper case being no ASCII letter either.
\<close>

fun to_upper :: "string \<Rightarrow> string" where
  "to_upper (c # d # s) =
     (if c = CHR 0xC4 \<and> d = CHR 0xB1 then CHR ''I'' # to_upper s
      else if c = CHR 0xC5 \<and> d = CHR 0xBF then CHR ''S'' # to_upper s
      else upper_char c # to_upper (d # s))"
| "to_upper [c] = [upper_char c]"
| "to_upper [] = []"

text \<open>The part before the first of the given characters, unless that is where the string starts.\<close>

definition cut_at :: "char list \<Rightarrow> string \<Rightarrow> string" where
  "cut_at stops s =
     (let m = takeWhile (\<lambda>c. c \<notin> set stops) s in if m = [] then s else m)"

text \<open>
  Simple case folding as far as it reaches ASCII: \<^verbatim>\<open>strings.EqualFold\<close> against an ASCII string,
  and the folded field names of \<^verbatim>\<open>encoding/json\<close>, compare these. The long s (\<open>C5 BF\<close>) folds with
  \<^verbatim>\<open>S\<close> and the Kelvin sign (\<open>E2 84 AA\<close>) with \<^verbatim>\<open>K\<close>.
\<close>

fun fold_name :: "string \<Rightarrow> string" where
  "fold_name [] = []"
| "fold_name (c # s) =
     (case s of
        d # s' \<Rightarrow>
          if c = CHR 0xC5 \<and> d = CHR 0xBF then CHR ''S'' # fold_name s'
          else (case s' of
            e # s'' \<Rightarrow>
              if c = CHR 0xE2 \<and> d = CHR 0x84 \<and> e = CHR 0xAA then CHR ''K'' # fold_name s''
              else upper_char c # fold_name s
          | [] \<Rightarrow> upper_char c # fold_name s)
      | [] \<Rightarrow> [upper_char c])"

definition equal_fold :: "string \<Rightarrow> string \<Rightarrow> bool" where
  "equal_fold s t \<longleftrightarrow> fold_name s = fold_name t"

lemma upper_char_stop [simp]: "upper_char (CHR '' '') = CHR '' ''" "upper_char (CHR ''('') = CHR ''(''"
  by (simp_all add: upper_char_def)

lemma to_upper_append:
  "c \<notin> {CHR 0xB1, CHR 0xBF} \<Longrightarrow> to_upper (s @ c # r) = to_upper s @ to_upper (c # r)"
  by (induction s rule: to_upper.induct) auto

lemma to_upper_stop:
  "c \<in> {CHR ''('', CHR '' ''} \<Longrightarrow> to_upper (c # r) = c # to_upper r"
  by (cases r) auto

lemma cut_at_stop:
  assumes "set s \<inter> set stops = {}" and "s \<noteq> []" and "c \<in> set stops"
  shows "cut_at stops (s @ c # r) = s"
proof -
  have "takeWhile (\<lambda>c. c \<notin> set stops) (s @ c # r) = s"
    using assms(1,3) by (induction s) auto
  then show ?thesis using assms(2) by (simp add: cut_at_def)
qed

lemma cut_at_none:
  assumes "set s \<inter> set stops = {}" shows "cut_at stops s = s"
proof -
  have "takeWhile (\<lambda>c. c \<notin> set stops) s = s" using assms by (induction s) auto
  then show ?thesis by (simp add: cut_at_def Let_def)
qed

end
