(* ===== verification/Device.thy ===== *)
theory Device
  imports Float64 Utf8
begin

text \<open>
  The protocol-independent data of \<^verbatim>\<open>kasa/device.go\<close>: device types, energy readings, sockets,
  hub children and the reading itself, and the classification of a model. A nil pointer is
  \<^term>\<open>None\<close>; measurements are binary64 values.
\<close>

subsection \<open>Types\<close>

datatype DeviceType =
  TypePlug | TypeStrip | TypeBulb | TypeLightStrip | TypeDimmer | TypeWallSwitch | TypeHub | TypeUnknown

definition type_name :: "DeviceType \<Rightarrow> string" where
  "type_name t = (case t of
       TypePlug \<Rightarrow> ''plug'' | TypeStrip \<Rightarrow> ''strip'' | TypeBulb \<Rightarrow> ''bulb''
     | TypeLightStrip \<Rightarrow> ''lightstrip'' | TypeDimmer \<Rightarrow> ''dimmer'' | TypeWallSwitch \<Rightarrow> ''wallswitch''
     | TypeHub \<Rightarrow> ''hub'' | TypeUnknown \<Rightarrow> ''unknown'')"

lemma type_name_inject [simp]: "type_name t = type_name u \<longleftrightarrow> t = u"
  by (cases t; cases u) (simp_all add: type_name_def)

datatype Protocol = ProtocolIOT | ProtocolSMART

definition protocol_name :: "Protocol \<Rightarrow> string" where
  "protocol_name p = (case p of ProtocolIOT \<Rightarrow> ''iot'' | ProtocolSMART \<Rightarrow> ''smart'')"

record Energy =
  PowerWatts :: "float64 option"
  VoltageVolts :: "float64 option"
  CurrentAmperes :: "float64 option"
  TotalKWh :: "float64 option"

definition no_energy :: Energy where
  "no_energy = \<lparr>PowerWatts = None, VoltageVolts = None, CurrentAmperes = None, TotalKWh = None\<rparr>"

record Socket =
  so_ID :: string
  so_Alias :: string
  so_On :: "bool option"
  so_UptimeSeconds :: "float64 option"
  so_Energy :: "Energy option"

record Child =
  ch_ID :: string
  ch_Alias :: string
  ch_Model :: string
  ch_Category :: string
  ch_Online :: "bool option"
  ch_BatteryPercent :: "float64 option"
  ch_BatteryLow :: "bool option"
  ch_TemperatureCelsius :: "float64 option"
  ch_HumidityPercent :: "float64 option"
  ch_SignalLevel :: "float64 option"
  ch_RSSI :: "float64 option"

record Reading =
  rd_Host :: string
  rd_Alias :: string
  rd_Model :: string
  rd_DeviceID :: string
  rd_HardwareVersion :: string
  rd_FirmwareVersion :: string
  rd_MAC :: string
  rd_Type :: DeviceType
  rd_Protocol :: Protocol
  rd_On :: "bool option"
  rd_LEDOn :: "bool option"
  rd_Overheated :: "bool option"
  rd_Updating :: "bool option"
  rd_UptimeSeconds :: "float64 option"
  rd_RSSI :: "float64 option"
  rd_SignalLevel :: "float64 option"
  rd_Brightness :: "float64 option"
  rd_ColorTempKelvin :: "float64 option"
  rd_Hue :: "float64 option"
  rd_Saturation :: "float64 option"
  rd_LightStripLength :: "float64 option"
  rd_Energy :: "Energy option"
  rd_Sockets :: "Socket list"
  rd_Children :: "Child list"

subsection \<open>Classification\<close>

text \<open>The model switch, case by case in the order of the code.\<close>

definition model_cases :: "(string list \<times> DeviceType) list" where
  "model_cases =
     [([''HS300'', ''HS107'', ''KP200'', ''KP303'', ''KP400'', ''EP40'', ''P300'', ''P304'',
        ''P306'', ''TP25''], TypeStrip),
      ([''KH100'', ''H100'', ''H200'', ''H300''], TypeHub),
      ([''KL400'', ''KL420'', ''KL430'', ''L900'', ''L920'', ''L930''], TypeLightStrip),
      ([''HS220'', ''KS220'', ''KS230'', ''ES20'', ''S500D'', ''S505D''], TypeDimmer),
      ([''HS200'', ''HS210'', ''KS200'', ''KS205'', ''KS225'', ''KS240'', ''S500'', ''S505'',
        ''S210'', ''S220''], TypeWallSwitch),
      ([''KL'', ''LB'', ''L510'', ''L520'', ''L530'', ''L535'', ''L610'', ''L630''], TypeBulb),
      ([''HS1'', ''KP1'', ''EP1'', ''EP2'', ''P100'', ''P110'', ''P115'', ''P125'', ''P135'',
        ''TP15''], TypePlug)]"

definition type_of_model :: "string \<Rightarrow> DeviceType option" where
  "type_of_model m = map_option snd (find (\<lambda>(ps, _). list_ex (has_prefix m) ps) model_cases)"

definition type_of_family :: "string \<Rightarrow> DeviceType" where
  "type_of_family family =
     (let f = to_upper family in
      if contains f ''HUB'' then TypeHub
      else if contains f ''SWITCH'' then TypeWallSwitch
      else if contains f ''BULB'' \<or> contains f ''LIGHT'' then TypeBulb
      else if contains f ''PLUG'' then TypePlug
      else TypeUnknown)"

definition deviceTypeFor :: "string \<Rightarrow> string \<Rightarrow> DeviceType" where
  "deviceTypeFor model family =
     (let m = cut_at ''( '' (to_upper model) in
      case type_of_model m of Some t \<Rightarrow> t | None \<Rightarrow> type_of_family family)"

subsection \<open>Suffixes\<close>

lemma deviceTypeFor_suffix:
  assumes "model \<noteq> []" and "set (to_upper model) \<inter> {CHR ''('', CHR '' ''} = {}"
    and "c \<in> {CHR ''('', CHR '' ''}"
  shows "deviceTypeFor (model @ c # suffix) family = deviceTypeFor model family"
proof -
  have u: "to_upper (model @ c # suffix) = to_upper model @ c # to_upper suffix"
    using assms(3) to_upper_append [of c model suffix] to_upper_stop [OF assms(3)] by auto
  have ne: "to_upper model \<noteq> []" using assms(1) by (cases model rule: to_upper.cases) auto
  have "cut_at ''( '' (to_upper (model @ c # suffix)) = to_upper model"
    unfolding u using assms ne by (intro cut_at_stop) auto
  moreover have "cut_at ''( '' (to_upper model) = to_upper model"
    using assms(2) by (intro cut_at_none) auto
  ultimately show ?thesis by (simp add: deviceTypeFor_def)
qed

subsection \<open>Properties\<close>

text \<open>The models the README's table names, with the kind it lists them under; the LB series and the sensors
  of a hub, which the table names too, are treated apart.\<close>

definition documented_models :: "(string \<times> DeviceType) list" where
  "documented_models =
     map (\<lambda>m. (m, TypePlug)) [''EP10'', ''EP25'', ''HS100'', ''HS103'', ''HS110'', ''KP115'',
       ''KP125'', ''KP125M'', ''P100'', ''P110'', ''P115'']
   @ map (\<lambda>m. (m, TypeStrip)) [''HS300'', ''HS107'', ''KP200'', ''KP303'', ''KP400'', ''EP40'',
       ''P300'', ''P304'']
   @ map (\<lambda>m. (m, TypeBulb)) [''KL110'', ''KL130'', ''L510'', ''L530'']
   @ map (\<lambda>m. (m, TypeLightStrip)) [''KL400'', ''KL430'', ''L900'', ''L930'']
   @ map (\<lambda>m. (m, TypeDimmer)) [''HS220'', ''KS230'']
   @ map (\<lambda>m. (m, TypeWallSwitch)) [''HS200'', ''HS210'', ''KS200'', ''KS205'', ''KS225'']
   @ map (\<lambda>m. (m, TypeHub)) [''KH100'', ''H100'', ''H200'']"

definition documented_sensors :: "string list" where
  "documented_sensors = [''T100'', ''T110'', ''T310'', ''T315'']"

lemma documented_types:
  "\<forall>(m, t) \<in> set documented_models. type_of_model (to_upper m) = Some t"
  "\<forall>m \<in> set documented_sensors. type_of_model (to_upper m) = None"
  by code_simp+

lemma documented_chars:
  "\<forall>m \<in> set (map fst documented_models @ documented_sensors). m \<noteq> [] \<and> set (to_upper m) \<inter> {CHR ''('', CHR '' ''} = {}"
  by code_simp

lemma documented_type:
  assumes "m \<in> set (map fst documented_models @ documented_sensors)"
  shows "deviceTypeFor m family = (case type_of_model (to_upper m) of Some t \<Rightarrow> t | None \<Rightarrow> type_of_family family)"
proof -
  have "cut_at ''( '' (to_upper m) = to_upper m"
    using documented_chars assms by (intro cut_at_none) fastforce
  then show ?thesis by (simp add: deviceTypeFor_def)
qed

lemma documented_suffix:
  assumes "m \<in> set (map fst documented_models @ documented_sensors)" and "c \<in> {CHR ''('', CHR '' ''}"
  shows "deviceTypeFor (m @ c # suffix) family = deviceTypeFor m family"
  using documented_chars assms by (intro deviceTypeFor_suffix) blast+

lemma LB_series: "deviceTypeFor (''LB'' @ rest) family = TypeBulb"
proof -
  have u: "upper_char CHR ''L'' = CHR ''L''" "upper_char CHR ''B'' = CHR ''B''" by code_simp+
  have "\<exists>s. to_upper (''LB'' @ rest) = ''LB'' @ s" by (cases rest) (simp_all add: u)
  then obtain s where "to_upper (''LB'' @ rest) = ''LB'' @ s" by blast
  moreover have "\<exists>r. cut_at ''( '' (''LB'' @ s) = ''LB'' @ r" by (auto simp: cut_at_def)
  moreover have "type_of_model (''LB'' @ r) = Some TypeBulb" for r
    by (simp add: type_of_model_def model_cases_def has_prefix_def)
  ultimately show ?thesis by (auto simp: deviceTypeFor_def Let_def)
qed

text \<open>C33. Every device model of the README's table is classified as the kind it is listed under, and so
  is every model of the LB series, whatever region or hardware suffix the firmware appends (\<^verbatim>\<open>(US)\<close>,
  \<^verbatim>\<open>(US) 2.0\<close>, \<^verbatim>\<open> 2.0\<close>) and whatever family it advertises. The four sensors of the table are a hub's
  children and not devices of their own: their model names give no kind, so the family they advertise
  decides.\<close>

theorem documented_models_classified:
  assumes "(m, t) \<in> set documented_models" and "c \<in> {CHR ''('', CHR '' ''}"
  shows "deviceTypeFor m family = t \<and> deviceTypeFor (m @ c # suffix) family = t
    \<and> deviceTypeFor (''LB'' @ rest) family = TypeBulb
    \<and> (\<forall>s \<in> {''T100'', ''T110'', ''T310'', ''T315''}.
         deviceTypeFor s family = type_of_family family \<and> deviceTypeFor (s @ c # suffix) family = type_of_family family)"
proof -
  have m: "m \<in> set (map fst documented_models @ documented_sensors)" using assms(1) by force
  have "type_of_model (to_upper m) = Some t" using documented_types(1) assms(1) by blast
  moreover have s: "s \<in> set (map fst documented_models @ documented_sensors) \<and> type_of_model (to_upper s) = None"
    if "s \<in> {''T100'', ''T110'', ''T310'', ''T315''}" for s
    using that documented_types(2) by (auto simp: documented_sensors_def)
  ultimately show ?thesis
    using documented_suffix [OF _ assms(2)] m LB_series by (simp add: documented_type)
qed

theorem documented_models_classified_witness:
  "deviceTypeFor ''HS300'' [] = TypeStrip \<and> deviceTypeFor ''HS300(US) 2.0'' [] = TypeStrip
   \<and> deviceTypeFor ''LB130'' [] = TypeBulb \<and> deviceTypeFor ''T310'' [] = type_of_family []"
  using documented_models_classified [of "''HS300''" TypeStrip "CHR ''(''" "[]" "''US) 2.0''" "''130''"]
  by (simp add: documented_models_def)

end
