(* ===== verification/Json.thy ===== *)
theory Json
  imports Utf8 Float64 "HOL-Library.List_Lexorder" "HOL-Library.Char_ord"
begin

text \<open>
  The part of \<^verbatim>\<open>encoding/json\<close> the package uses: the value tree, the encoder with its HTML-safe
  escapes, the scanner with its nesting limit, and the decoders that fill a Go struct. A decoder
  takes the value being overwritten, because \<^verbatim>\<open>null\<close> leaves it as it is and repeated members
  merge; it gives \<^term>\<open>None\<close> where \<^verbatim>\<open>Unmarshal\<close> returns an error.
\<close>

datatype json =
    JNull | JBool bool | JNum string | JStr string | JArr "json list" | JObj "(string \<times> json) list"

subsection \<open>Encoding\<close>

abbreviation dquote :: char where "dquote \<equiv> CHR 0x22"
abbreviation bslash :: char where "bslash \<equiv> CHR 0x5C"

definition hex_digit :: "nat \<Rightarrow> char" where
  "hex_digit n = char_of (if n < 10 then 48 + n else 87 + n)"

definition escape_char :: "char \<Rightarrow> string" where
  "escape_char c =
     (let n = of_char c :: nat in
      if c = dquote \<or> c = bslash then [bslash, c]
      else if n = 8 then [bslash, CHR ''b'']
      else if n = 12 then [bslash, CHR ''f'']
      else if n = 10 then [bslash, CHR ''n'']
      else if n = 13 then [bslash, CHR ''r'']
      else if n = 9 then [bslash, CHR ''t'']
      else if n < 32 \<or> c \<in> {CHR ''<'', CHR ''>'', CHR ''&''}
      then bslash # ''u00'' @ [hex_digit (n div 16), hex_digit (n mod 16)]
      else [c])"

function quote_body :: "string \<Rightarrow> string" where
  "quote_body [] = []"
| "quote_body (c # s) =
     (if (of_char c :: nat) < 0x80 then escape_char c @ quote_body s
      else case decode_rune (c # s) of
          None \<Rightarrow> bslash # ''ufffd'' @ quote_body s
        | Some (r, w) \<Rightarrow>
            (if r = 0x2028 \<or> r = 0x2029 then bslash # ''u202'' @ [hex_digit (r mod 16)]
             else take w (c # s)) @ quote_body (drop (w - 1) s))"
  by pat_completeness auto
termination
  by (relation "measure length") auto

definition quote :: "string \<Rightarrow> string" where
  "quote s = dquote # quote_body s @ [dquote]"

fun commas :: "string list \<Rightarrow> string" where
  "commas [] = []"
| "commas [x] = x"
| "commas (x # xs) = x @ '','' @ commas xs"

fun marshal :: "json \<Rightarrow> string" where
  "marshal JNull = ''null''"
| "marshal (JBool b) = (if b then ''true'' else ''false'')"
| "marshal (JNum l) = l"
| "marshal (JStr s) = quote s"
| "marshal (JArr js) = ''['' @ commas (map marshal js) @ '']''"
| "marshal (JObj ms) = ''{'' @ commas (map (\<lambda>(k, v). quote k @ '':'' @ marshal v) ms) @ ''}''"

subsection \<open>Scanning\<close>

fun skip_ws :: "string \<Rightarrow> string" where
  "skip_ws (c # s) = (if c \<in> {CHR '' '', CHR 0x09, CHR 0x0A, CHR 0x0D} then skip_ws s else c # s)"
| "skip_ws [] = []"

definition is_digit :: "char \<Rightarrow> bool" where
  "is_digit c \<longleftrightarrow> (let n = of_char c :: int in 48 \<le> n \<and> n \<le> 57)"

definition hex_value :: "char \<Rightarrow> nat option" where
  "hex_value c =
     (let n = of_char c :: nat in
      if 48 \<le> n \<and> n \<le> 57 then Some (n - 48)
      else if 97 \<le> n \<and> n \<le> 102 then Some (n - 87)
      else if 65 \<le> n \<and> n \<le> 70 then Some (n - 55)
      else None)"

definition hex4 :: "string \<Rightarrow> nat option" where
  "hex4 s = (case s of
       a # b # c # d # _ \<Rightarrow>
         (case (hex_value a, hex_value b, hex_value c, hex_value d) of
            (Some w, Some x, Some y, Some z) \<Rightarrow> Some (w * 4096 + x * 256 + y * 16 + z)
          | _ \<Rightarrow> None)
     | _ \<Rightarrow> None)"

definition prepend :: "string \<Rightarrow> (string \<times> string) option \<Rightarrow> (string \<times> string) option" where
  "prepend x r = map_option (\<lambda>(y, rest). (x @ y, rest)) r"

definition surrogate_pair :: "nat \<Rightarrow> string \<Rightarrow> nat option" where
  "surrogate_pair r s =
     (if take 2 s = [bslash, CHR ''u''] then
        (case hex4 (drop 2 s) of
           Some r2 \<Rightarrow>
             if 0xD800 \<le> r \<and> r < 0xDC00 \<and> 0xDC00 \<le> r2 \<and> r2 \<le> 0xDFFF
             then Some (0x10000 + (r - 0xD800) * 1024 + (r2 - 0xDC00)) else None
         | None \<Rightarrow> None)
      else None)"

definition simple_escape :: "char \<Rightarrow> char option" where
  "simple_escape e =
     (if e = dquote \<or> e = bslash \<or> e = CHR ''/'' then Some e
      else if e = CHR ''b'' then Some (CHR 0x08)
      else if e = CHR ''f'' then Some (CHR 0x0C)
      else if e = CHR ''n'' then Some (CHR 0x0A)
      else if e = CHR ''r'' then Some (CHR 0x0D)
      else if e = CHR ''t'' then Some (CHR 0x09)
      else None)"

text \<open>The rest of a string literal after its opening quote: its value and what follows it.\<close>

function unquote :: "string \<Rightarrow> (string \<times> string) option" where
  "unquote [] = None"
| "unquote (c # s) =
     (if c = dquote then Some ([], s)
      else if c = bslash then
        (case s of
           [] \<Rightarrow> None
         | e # s1 \<Rightarrow>
             if e = CHR ''u'' then
               (case hex4 s1 of
                  None \<Rightarrow> None
                | Some r \<Rightarrow>
                    if 0xD800 \<le> r \<and> r \<le> 0xDFFF then
                      (case surrogate_pair r (drop 4 s1) of
                         Some r2 \<Rightarrow> prepend (encode_rune r2) (unquote (drop 10 s1))
                       | None \<Rightarrow> prepend (encode_rune replacement) (unquote (drop 4 s1)))
                    else prepend (encode_rune r) (unquote (drop 4 s1)))
             else (case simple_escape e of
                     None \<Rightarrow> None
                   | Some d \<Rightarrow> prepend [d] (unquote s1)))
      else if (of_char c :: nat) < 0x20 then None
      else if (of_char c :: nat) < 0x80 then prepend [c] (unquote s)
      else case decode_rune (c # s) of
          None \<Rightarrow> prepend (encode_rune replacement) (unquote s)
        | Some (r, w) \<Rightarrow> prepend (take w (c # s)) (unquote (drop (w - 1) s)))"
  by pat_completeness auto
termination
  by (relation "measure length") auto

declare quote_body.simps(2) [simp del] unquote.simps(2) [simp del]

definition scan_int :: "string \<Rightarrow> string \<times> string" where
  "scan_int s = (case s of
       CHR ''0'' # r \<Rightarrow> (''0'', r)
     | _ \<Rightarrow> (takeWhile is_digit s, dropWhile is_digit s))"

definition scan_frac :: "string \<Rightarrow> (string \<times> string) option" where
  "scan_frac s = (case s of
       CHR ''.'' # r \<Rightarrow>
         if takeWhile is_digit r = [] then None
         else Some (CHR ''.'' # takeWhile is_digit r, dropWhile is_digit r)
     | _ \<Rightarrow> Some ([], s))"

definition scan_exp :: "string \<Rightarrow> (string \<times> string) option" where
  "scan_exp s = (case s of
       c # r \<Rightarrow>
         if c = CHR ''e'' \<or> c = CHR ''E'' then
           (let sg = takeWhile (\<lambda>c. c = CHR ''+'' \<or> c = CHR ''-'') (take 1 r); r = drop (length sg) r in
            if takeWhile is_digit r = [] then None
            else Some (c # sg @ takeWhile is_digit r, dropWhile is_digit r))
         else Some ([], s)
     | [] \<Rightarrow> Some ([], s))"

text \<open>A number literal and what follows it.\<close>

definition scan_number :: "string \<Rightarrow> (string \<times> string) option" where
  "scan_number s =
     (let (sg, s) = (case s of CHR ''-'' # r \<Rightarrow> (''-'', r) | _ \<Rightarrow> ([], s));
          (ip, s) = scan_int s in
      if ip = [] then None
      else case scan_frac s of None \<Rightarrow> None
        | Some (fp, s) \<Rightarrow>
            (case scan_exp s of None \<Rightarrow> None
             | Some (ep, s) \<Rightarrow> Some (sg @ ip @ fp @ ep, s)))"

definition literal :: "string \<Rightarrow> json \<Rightarrow> string \<Rightarrow> (json \<times> string) option" where
  "literal w j s = (if has_prefix s w then Some (j, drop (length w) s) else None)"

text \<open>
  The value parser. The first argument is fuel, the second the nesting still allowed; twice the
  length of the input and one is enough fuel, since every two calls consume a character.
\<close>

fun pval :: "nat \<Rightarrow> int \<Rightarrow> string \<Rightarrow> (json \<times> string) option"
  and pelems :: "nat \<Rightarrow> int \<Rightarrow> string \<Rightarrow> (json list \<times> string) option"
  and pmembers :: "nat \<Rightarrow> int \<Rightarrow> string \<Rightarrow> ((string \<times> json) list \<times> string) option" where
  "pval 0 d s = None"
| "pval (Suc k) d s =
     (case skip_ws s of
        [] \<Rightarrow> None
      | c # r \<Rightarrow>
          if c = CHR ''{'' then
            (if d \<le> 0 then None
             else if take 1 (skip_ws r) = ''}'' then Some (JObj [], drop 1 (skip_ws r))
             else map_option (\<lambda>(ms, r). (JObj ms, r)) (pmembers k (d - 1) r))
          else if c = CHR ''['' then
            (if d \<le> 0 then None
             else if take 1 (skip_ws r) = '']'' then Some (JArr [], drop 1 (skip_ws r))
             else map_option (\<lambda>(js, r). (JArr js, r)) (pelems k (d - 1) r))
          else if c = dquote then map_option (\<lambda>(s, r). (JStr s, r)) (unquote r)
          else if c = CHR ''t'' then literal ''rue'' (JBool True) r
          else if c = CHR ''f'' then literal ''alse'' (JBool False) r
          else if c = CHR ''n'' then literal ''ull'' JNull r
          else map_option (\<lambda>(l, r). (JNum l, r)) (scan_number (c # r)))"
| "pelems 0 d s = None"
| "pelems (Suc k) d s =
     (case pval k d s of
        None \<Rightarrow> None
      | Some (j, r) \<Rightarrow>
          (case skip_ws r of
             [] \<Rightarrow> None
           | c # r' \<Rightarrow>
               if c = CHR '','' then map_option (\<lambda>(js, r). (j # js, r)) (pelems k d r')
               else if c = CHR '']'' then Some ([j], r')
               else None))"
| "pmembers 0 d s = None"
| "pmembers (Suc k) d s =
     (case skip_ws s of
        [] \<Rightarrow> None
      | c # r \<Rightarrow>
          if c \<noteq> dquote then None
          else (case unquote r of
              None \<Rightarrow> None
            | Some (key, r) \<Rightarrow>
                if take 1 (skip_ws r) \<noteq> '':'' then None
                else (case pval k d (drop 1 (skip_ws r)) of
                    None \<Rightarrow> None
                  | Some (j, r) \<Rightarrow>
                      (case skip_ws r of
                         [] \<Rightarrow> None
                       | c # r' \<Rightarrow>
                           if c = CHR '','' then map_option (\<lambda>(ms, r). ((key, j) # ms, r)) (pmembers k d r')
                           else if c = CHR ''}'' then Some ([(key, j)], r')
                           else None))))"

definition maxNestingDepth :: int where "maxNestingDepth = 10000"

definition parse_json :: "string \<Rightarrow> json option" where
  "parse_json s =
     (case pval (2 * length s + 1) maxNestingDepth s of
        Some (j, r) \<Rightarrow> if skip_ws r = [] then Some j else None
      | None \<Rightarrow> None)"

subsection \<open>Reading back what was written\<close>

lemma hex_value_digit [simp]: "k < 16 \<Longrightarrow> hex_value (hex_digit k) = Some k"
  by (simp add: hex_value_def hex_digit_def Let_def)

lemma hex_value_0 [simp]: "hex_value (CHR ''0'') = Some 0"
  by (simp add: hex_value_def)

lemma prepend_prepend [simp]: "prepend x (prepend y r) = prepend (x @ y) r"
  by (cases r) (auto simp: prepend_def)

lemma prepend_Some [simp]: "prepend x (Some (y, r)) = Some (x @ y, r)"
  by (simp add: prepend_def)

lemma encode_rune_ascii: "(of_char c :: nat) < 0x80 \<Longrightarrow> encode_rune (of_char c) = [c]"
  by (simp add: encode_rune_def Let_def)

lemma hex4_escape:
  assumes "(of_char c :: nat) < 0x80"
  shows "hex4 (''00'' @ [hex_digit (of_char c div 16), hex_digit (of_char c mod 16)] @ s) = Some (of_char c)"
proof -
  let ?n = "of_char c :: nat"
  have "?n div 16 < 16" "?n mod 16 < 16" using assms by simp_all
  then show ?thesis by (simp add: hex4_def)
qed

lemma unquote_u00:
  assumes "(of_char c :: nat) < 0x80"
  shows "unquote ((bslash # ''u00'' @ [hex_digit (of_char c div 16), hex_digit (of_char c mod 16)]) @ s)
    = prepend [c] (unquote s)"
proof -
  have "hex4 (''00'' @ [hex_digit (of_char c div 16), hex_digit (of_char c mod 16)] @ s) = Some (of_char c)"
    using assms by (rule hex4_escape)
  then show ?thesis
    using assms encode_rune_ascii [OF assms] by (simp add: unquote.simps(2))
qed

lemma of_char_inj: "(of_char c :: nat) = of_char d \<Longrightarrow> c = d"
  by simp

lemma unquote_escape:
  assumes "(of_char c :: nat) < 0x80"
  shows "unquote (escape_char c @ s) = prepend [c] (unquote s)"
proof -
  let ?n = "of_char c :: nat"
  let ?u = "bslash # ''u00'' @ [hex_digit (?n div 16), hex_digit (?n mod 16)]"
  consider (a) "c = dquote \<or> c = bslash" | (b) "?n = 8 \<or> ?n = 12 \<or> ?n = 10 \<or> ?n = 13 \<or> ?n = 9"
    | (c) "\<not> (c = dquote \<or> c = bslash)" "\<not> (?n = 8 \<or> ?n = 12 \<or> ?n = 10 \<or> ?n = 13 \<or> ?n = 9)"
      "?n < 32 \<or> c \<in> {CHR ''<'', CHR ''>'', CHR ''&''}"
    | (d) "\<not> (c = dquote \<or> c = bslash)" "\<not> (?n = 8 \<or> ?n = 12 \<or> ?n = 10 \<or> ?n = 13 \<or> ?n = 9)"
      "\<not> (?n < 32 \<or> c \<in> {CHR ''<'', CHR ''>'', CHR ''&''})"
    by blast
  then show ?thesis
  proof cases
    case a
    then show ?thesis
      by (auto simp: escape_char_def simple_escape_def unquote.simps(2) Let_def)
  next
    case b
    then have "c = CHR 0x08 \<or> c = CHR 0x0C \<or> c = CHR 0x0A \<or> c = CHR 0x0D \<or> c = CHR 0x09"
      using of_char_inj [of c "CHR 0x08"] of_char_inj [of c "CHR 0x0C"] of_char_inj [of c "CHR 0x0A"]
        of_char_inj [of c "CHR 0x0D"] of_char_inj [of c "CHR 0x09"] by auto
    then show ?thesis
      by (elim disjE) (simp_all add: escape_char_def simple_escape_def unquote.simps(2) Let_def)
  next
    case c
    then have "escape_char c = ?u" unfolding escape_char_def Let_def by (simp only: de_Morgan_disj if_False if_True simp_thms)
    then show ?thesis using unquote_u00 [OF assms] by (simp only:)
  next
    case d
    then have "escape_char c = [c]" unfolding escape_char_def Let_def by (simp only: de_Morgan_disj if_False simp_thms)
    then show ?thesis using assms d by (simp add: unquote.simps(2))
  qed
qed

lemma unquote_rune:
  assumes "decode_rune (c # s) = Some (r, w)" and "0x80 \<le> (of_char c :: nat)"
  shows "unquote (take w (c # s) @ t) = prepend (take w (c # s)) (unquote t)"
proof -
  have w: "1 \<le> w" "w \<le> length (c # s)" using decode_rune_width [OF assms(1)] by auto
  then obtain k where k: "w = Suc k" "k \<le> length s" by (cases w) auto
  have tk: "take w (c # s) @ t = c # (take k s @ t)" using k by simp
  have d: "decode_rune (c # (take k s @ t)) = Some (r, Suc k)"
    using decode_rune_local [OF assms(1), of t] k by simp
  have "c \<noteq> dquote" "c \<noteq> bslash" using assms(2) by auto
  then have "unquote (c # (take k s @ t)) = prepend (take w (c # (take k s @ t))) (unquote (drop k (take k s @ t)))"
    using assms(2) d k by (simp add: unquote.simps(2))
  then show ?thesis unfolding tk using k by simp
qed

lemma unquote_2028:
  "unquote ((bslash # ''u202'' @ [hex_digit (0x2028 mod 16)]) @ t) = prepend (encode_rune 0x2028) (unquote t)"
  "unquote ((bslash # ''u202'' @ [hex_digit (0x2029 mod 16)]) @ t) = prepend (encode_rune 0x2029) (unquote t)"
  by (simp_all add: unquote.simps(2) hex4_def hex_value_def hex_digit_def)

lemma unquote_quote:
  "valid_utf8 s \<Longrightarrow> unquote (quote_body s @ dquote # t) = Some (s, t)"
proof (induction s rule: valid_utf8.induct)
  case 1
  then show ?case by (simp add: unquote.simps(2))
next
  case (2 c s)
  then obtain r w where d: "decode_rune (c # s) = Some (r, w)" and v: "valid_utf8 (drop (w - 1) s)"
    by (auto split: option.splits)
  have w: "1 \<le> w" using decode_rune_width [OF d] by simp
  have IH: "unquote (quote_body (drop (w - 1) s) @ dquote # t) = Some (drop (w - 1) s, t)"
    using 2 d v by simp
  have split: "c # s = take w (c # s) @ drop (w - 1) s" using w by (cases w) simp_all
  show ?case
  proof (cases "(of_char c :: nat) < 0x80")
    case True
    then have "w = 1" using d by (auto simp: decode_rune_def Let_def)
    then show ?thesis using True IH by (simp add: quote_body.simps(2) unquote_escape)
  next
    case False
    show ?thesis
    proof (cases "r = 0x2028 \<or> r = 0x2029")
      case True
      let ?e = "bslash # ''u202'' @ [hex_digit (r mod 16)]"
      have q: "quote_body (c # s) = ?e @ quote_body (drop (w - 1) s)"
        using False True d by (simp add: quote_body.simps(2))
      have u: "unquote (?e @ x) = prepend (take w (c # s)) (unquote x)" for x
        unfolding decode_rune_canonical [OF d] using True unquote_2028 by (elim disjE) (simp_all only:)
      show ?thesis
        unfolding q append_assoc u IH prepend_Some split [symmetric] ..
    next
      case r: False
      have "quote_body (c # s) = take w (c # s) @ quote_body (drop (w - 1) s)"
        using False r d by (simp add: quote_body.simps(2))
      then show ?thesis
        using False d IH split by (simp add: unquote_rune not_less)
    qed
  qed
qed

text \<open>What may follow a value without becoming part of it.\<close>

definition ends :: "string \<Rightarrow> bool" where
  "ends s \<longleftrightarrow> (case s of [] \<Rightarrow> True | c # _ \<Rightarrow> c \<in> {CHR '','', CHR '']'', CHR ''}''})"

lemma ends_simps [simp]:
  "ends []" "ends (CHR '','' # s)" "ends (CHR '']'' # s)" "ends (CHR ''}'' # s)"
  by (simp_all add: ends_def)

lemma ends_cases: "ends s \<Longrightarrow> s = [] \<or> (\<exists>r. s = CHR '','' # r \<or> s = CHR '']'' # r \<or> s = CHR ''}'' # r)"
  by (cases s) (auto simp: ends_def)

lemma not_digit_punct [simp]:
  "\<not> is_digit (CHR '','')" "\<not> is_digit (CHR '']'')" "\<not> is_digit (CHR ''}'')"
  by (simp_all add: is_digit_def)

lemma digits_ends:
  assumes "ends t"
  shows "takeWhile is_digit (s @ t) = takeWhile is_digit s" "dropWhile is_digit (s @ t) = dropWhile is_digit s @ t"
  using ends_cases [OF assms] by (induction s) auto

lemma scan_exp_ends:
  assumes "scan_exp s = Some (e, s')" "ends t" shows "scan_exp (s @ t) = Some (e, s' @ t)"
proof (cases s)
  case Nil
  then show ?thesis using assms ends_cases [OF assms(2)] by (auto simp: scan_exp_def)
next
  case (Cons c r)
  show ?thesis
  proof (cases "(c = CHR ''e'' \<or> c = CHR ''E'') \<and> r \<noteq> []")
    case True
    then have "take 1 (r @ t) = take 1 r" by (cases r) auto
    moreover have "drop (length (takeWhile (\<lambda>c. c = CHR ''+'' \<or> c = CHR ''-'') (take 1 r))) (r @ t) =
        drop (length (takeWhile (\<lambda>c. c = CHR ''+'' \<or> c = CHR ''-'') (take 1 r))) r @ t"
      using True by (cases r) auto
    ultimately show ?thesis
      using assms True Cons by (auto simp: scan_exp_def Let_def digits_ends split: if_splits)
  next
    case False
    then show ?thesis using assms Cons by (auto simp: scan_exp_def Let_def split: if_splits)
  qed
qed

lemma scan_frac_ends:
  assumes "scan_frac s = Some (f, s')" "ends t" shows "scan_frac (s @ t) = Some (f, s' @ t)"
proof (cases s)
  case Nil
  then show ?thesis using assms ends_cases [OF assms(2)] by (auto simp: scan_frac_def)
next
  case (Cons c r)
  show ?thesis
  proof (cases "c = CHR ''.''")
    case True
    then show ?thesis
      using assms Cons by (simp add: scan_frac_def digits_ends split: if_splits)
  next
    case False
    then show ?thesis using assms Cons by (auto simp: scan_frac_def split: char.splits bool.splits)
  qed
qed

lemma scan_int_other:
  "c \<noteq> CHR ''0'' \<Longrightarrow> scan_int (c # x) = (takeWhile is_digit (c # x), dropWhile is_digit (c # x))"
  by (auto simp: scan_int_def split: char.splits bool.splits)

lemma sign_other:
  "c \<noteq> CHR ''-'' \<Longrightarrow> (case c # s of CHR ''-'' # r \<Rightarrow> (''-'', r) | _ \<Rightarrow> ([], c # s)) = ([], c # s)"
  by (auto split: char.splits bool.splits)

lemma scan_int_ends:
  assumes "scan_int s = (i, s')" "ends t" shows "scan_int (s @ t) = (i, s' @ t)"
proof (cases s)
  case Nil
  then show ?thesis using assms ends_cases [OF assms(2)] by (auto simp: scan_int_def)
next
  case (Cons c r)
  show ?thesis
  proof (cases "c = CHR ''0''")
    case True
    then show ?thesis using assms Cons by (simp add: scan_int_def)
  next
    case False
    then show ?thesis using assms Cons digits_ends [OF assms(2), of s] by (simp add: scan_int_other)
  qed
qed

lemma scan_number_ends:
  assumes "scan_number s = Some (l, s')" "ends t" shows "scan_number (s @ t) = Some (l, s' @ t)"
proof -
  define sg u where "sg = fst (case s of CHR ''-'' # r \<Rightarrow> (''-'', r) | _ \<Rightarrow> ([], s))"
    and "u = snd (case s of CHR ''-'' # r \<Rightarrow> (''-'', r) | _ \<Rightarrow> ([], s))"
  have e: "(case s of CHR ''-'' # r \<Rightarrow> (''-'', r) | _ \<Rightarrow> ([], s)) = (sg, u)"
    by (simp add: sg_def u_def)
  obtain ip u1 where i: "scan_int u = (ip, u1)" by fastforce
  have "ip \<noteq> []" using assms(1) by (auto simp: scan_number_def e i Let_def)
  with assms(1) obtain fp u2 ep u3 where f: "scan_frac u1 = Some (fp, u2)" "scan_exp u2 = Some (ep, u3)"
    and r: "l = sg @ ip @ fp @ ep" "s' = u3"
    by (auto simp: scan_number_def e i Let_def split: option.splits)
  have "s \<noteq> []"
  proof
    assume "s = []"
    then have "ip = []" using i by (simp add: u_def scan_int_def)
    with \<open>ip \<noteq> []\<close> show False ..
  qed
  then have e': "(case s @ t of CHR ''-'' # r \<Rightarrow> (''-'', r) | _ \<Rightarrow> ([], s @ t)) = (sg, u @ t)"
    using e by (cases s) (auto split: char.splits bool.splits)
  show ?thesis
    using \<open>ip \<noteq> []\<close> scan_int_ends [OF i assms(2)] scan_frac_ends [OF f(1) assms(2)]
      scan_exp_ends [OF f(2) assms(2)] r
    by (simp add: scan_number_def e' Let_def)
qed

text \<open>Trees the encoder can produce: valid strings, number literals, nesting within the limit.\<close>

definition number_literal :: "string \<Rightarrow> bool" where
  "number_literal l \<longleftrightarrow> scan_number l = Some (l, [])"

fun depth :: "json \<Rightarrow> nat" where
  "depth (JArr js) = Suc (foldr max (map depth js) 0)"
| "depth (JObj ms) = Suc (foldr max (map (\<lambda>(k, v). depth v) ms) 0)"
| "depth _ = 0"

fun wf_json :: "json \<Rightarrow> bool" where
  "wf_json (JNum l) = number_literal l"
| "wf_json (JStr s) = valid_utf8 s"
| "wf_json (JArr js) = list_all wf_json js"
| "wf_json (JObj ms) = list_all (\<lambda>(k, v). valid_utf8 k \<and> wf_json v) ms"
| "wf_json _ = True"

lemma scan_number_head:
  "scan_number (c # s) = Some r \<Longrightarrow> c = CHR ''-'' \<or> is_digit c"
proof (rule ccontr)
  assume a: "scan_number (c # s) = Some r" and n: "\<not> (c = CHR ''-'' \<or> is_digit c)"
  have "c \<noteq> CHR ''0''" using n by (auto simp: is_digit_def)
  then have "scan_int (c # s) = ([], c # s)"
    using n by (simp add: scan_int_other)
  moreover have "(case c # s of CHR ''-'' # r \<Rightarrow> (''-'', r) | _ \<Rightarrow> ([], c # s)) = ([], c # s)"
    using n by (intro sign_other) simp
  ultimately show False using a by (simp add: scan_number_def)
qed

lemma number_head:
  assumes "number_literal l"
  obtains c s where "l = c # s" "c = CHR ''-'' \<or> is_digit c"
proof (cases l)
  case Nil
  then show ?thesis using assms by (simp add: number_literal_def scan_number_def scan_int_def)
next
  case (Cons c s)
  then show ?thesis using assms scan_number_head that unfolding number_literal_def by blast
qed

definition ws :: "char set" where "ws = {CHR '' '', CHR 0x09, CHR 0x0A, CHR 0x0D}"

lemma skip_ws_other [simp]: "c \<notin> ws \<Longrightarrow> skip_ws (c # s) = c # s"
  by (simp add: ws_def)

declare skip_ws.simps(1) [simp del]

lemma ws_punct [simp]:
  "CHR '','' \<notin> ws" "CHR '']'' \<notin> ws" "CHR ''}'' \<notin> ws" "CHR '':'' \<notin> ws" "dquote \<notin> ws" "CHR ''['' \<notin> ws" "CHR ''{'' \<notin> ws"
  by (simp_all add: ws_def)

lemma marshal_head:
  assumes "wf_json j"
  shows "\<exists>c s. marshal j = c # s \<and> c \<notin> ws \<and> c \<noteq> CHR '']'' \<and> c \<noteq> CHR ''}''"
proof (cases j)
  case (JNum l)
  then obtain c s where "l = c # s" "c = CHR ''-'' \<or> is_digit c" using number_head assms by auto
  moreover from this have "c \<notin> ws" by (auto simp: ws_def is_digit_def)
  ultimately show ?thesis using JNum by (auto simp: is_digit_def)
qed (auto simp: ws_def quote_def)

lemma commas_Cons: "xs \<noteq> [] \<Longrightarrow> commas (x # xs) = x @ '','' @ commas xs"
  by (cases xs) simp_all

lemma pelems_marshal:
  assumes "js \<noteq> []"
    and "\<And>j k t. j \<in> set js \<Longrightarrow> ends t \<Longrightarrow> 2 * length (marshal j) \<le> k \<Longrightarrow> pval k d (marshal j @ t) = Some (j, t)"
    and "2 * length (commas (map marshal js)) + 1 \<le> k"
  shows "pelems k d (commas (map marshal js) @ CHR '']'' # t) = Some (js, t)"
  using assms
proof (induction js arbitrary: k rule: list_nonempty_induct)
  case (single x)
  then obtain k' where k: "k = Suc k'" by (cases k) auto
  have "pval k' d (marshal x @ CHR '']'' # t) = Some (x, CHR '']'' # t)"
    using single(2) k by (intro single(1)) simp_all
  then show ?case by (simp add: k)
next
  case (cons x xs)
  then obtain k' where k: "k = Suc k'" by (cases k) auto
  let ?r = "commas (map marshal xs) @ CHR '']'' # t"
  have l: "commas (map marshal (x # xs)) = marshal x @ '','' @ commas (map marshal xs)"
    using cons(1) by (simp add: commas_Cons)
  have len: "2 * length (marshal x) + 2 * length (commas (map marshal xs)) + 2 \<le> k'"
    using cons(4) unfolding l k by simp
  have "pval k' d (marshal x @ CHR '','' # ?r) = Some (x, CHR '','' # ?r)"
    using len by (intro cons(3)) simp_all
  moreover have "pelems k' d ?r = Some (xs, t)"
    using len by (intro cons(2) cons(3)) simp_all
  ultimately show ?case unfolding k l by simp
qed

abbreviation member :: "string \<times> json \<Rightarrow> string" where
  "member m \<equiv> quote (fst m) @ '':'' @ marshal (snd m)"

lemma pmembers_marshal:
  assumes "ms \<noteq> []"
    and "\<And>m k t. m \<in> set ms \<Longrightarrow> ends t \<Longrightarrow> 2 * length (marshal (snd m)) \<le> k \<Longrightarrow>
      valid_utf8 (fst m) \<and> pval k d (marshal (snd m) @ t) = Some (snd m, t)"
    and "2 * length (commas (map member ms)) + 1 \<le> k"
  shows "pmembers k d (commas (map member ms) @ CHR ''}'' # t) = Some (ms, t)"
  using assms
proof (induction ms arbitrary: k rule: list_nonempty_induct)
  case (single m)
  then obtain k' where k: "k = Suc k'" by (cases k) auto
  have p: "valid_utf8 (fst m) \<and> pval k' d (marshal (snd m) @ CHR ''}'' # t) = Some (snd m, CHR ''}'' # t)"
    using single(2) k by (intro single(1)) simp_all
  then show ?case by (simp add: k quote_def unquote_quote)
next
  case (cons m ms)
  then obtain k' where k: "k = Suc k'" by (cases k) auto
  let ?r = "commas (map member ms) @ CHR ''}'' # t"
  have l: "commas (map member (m # ms)) = member m @ '','' @ commas (map member ms)"
    using cons(1) by (simp add: commas_Cons)
  have len: "2 * length (marshal (snd m)) + 2 * length (commas (map member ms)) + 2 \<le> k'"
    using cons(4) unfolding l k by simp
  have p: "valid_utf8 (fst m) \<and> pval k' d (marshal (snd m) @ CHR '','' # ?r) = Some (snd m, CHR '','' # ?r)"
    using len by (intro cons(3)) simp_all
  have q: "pmembers k' d ?r = Some (ms, t)"
    using len by (intro cons(2) cons(3)) simp_all
  show ?case unfolding k l using p q by (simp add: quote_def unquote_quote)
qed

lemma depth_elem: "j \<in> set js \<Longrightarrow> depth j \<le> foldr max (map depth js) 0"
  by (induction js) auto

lemma depth_member: "m \<in> set ms \<Longrightarrow> depth (snd m) \<le> foldr max (map (\<lambda>(k, v). depth v) ms) 0"
  by (induction ms) auto

lemma marshal_JObj: "marshal (JObj ms) = ''{'' @ commas (map member ms) @ ''}''"
proof -
  have "map (\<lambda>(k, v). quote k @ '':'' @ marshal v) ms = map member ms"
    by (rule map_cong) auto
  then show ?thesis by (simp only: marshal.simps)
qed

lemma pval_literals:
  assumes "0 < k"
  shows "pval k d (CHR ''n'' # CHR ''u'' # CHR ''l'' # CHR ''l'' # t) = Some (JNull, t)"
    and "pval k d (CHR ''t'' # CHR ''r'' # CHR ''u'' # CHR ''e'' # t) = Some (JBool True, t)"
    and "pval k d (CHR ''f'' # CHR ''a'' # CHR ''l'' # CHR ''s'' # CHR ''e'' # t) = Some (JBool False, t)"
  using assms by (cases k; simp add: literal_def has_prefix_def ws_def)+

lemma pval_marshal:
  "wf_json j \<Longrightarrow> int (depth j) \<le> d \<Longrightarrow> ends t \<Longrightarrow> 2 * length (marshal j) \<le> k \<Longrightarrow>
    pval k d (marshal j @ t) = Some (j, t)"
proof (induction j arbitrary: k d t rule: marshal.induct)
  case (3 l)
  then obtain c s where l: "l = c # s" and c: "c = CHR ''-'' \<or> is_digit c" using number_head by auto
  obtain k' where k: "k = Suc k'" using 3(4) l by (cases k) auto
  have n: "scan_number (c # s @ t) = Some (l, t)"
    using scan_number_ends [of l l "[]" t] 3 l by (simp add: number_literal_def)
  have "c \<notin> ws" "c \<noteq> CHR ''{''" "c \<noteq> CHR ''[''" "c \<noteq> dquote" "c \<noteq> CHR ''t''" "c \<noteq> CHR ''f''" "c \<noteq> CHR ''n''"
    using c by (auto simp: ws_def is_digit_def)
  then show ?case using n by (simp add: k l)
next
  case (4 s)
  then obtain k' where k: "k = Suc k'" by (cases k) (auto simp: quote_def)
  show ?case using 4 by (simp add: k quote_def unquote_quote)
next
  case (5 js)
  then obtain k' where k: "k = Suc k'" by (cases k) auto
  show ?case
  proof (cases "js = []")
    case True
    then show ?thesis using 5(3) by (simp add: k)
  next
    case False
    then obtain j0 js0 where js: "js = j0 # js0" by (cases js) auto
    have wf: "wf_json j" "int (depth j) \<le> d - 1" if "j \<in> set js" for j
      using 5(2,3) depth_elem [OF that] that by (auto simp: list_all_iff)
    obtain c s where c: "marshal j0 = c # s" "c \<notin> ws" "c \<noteq> CHR '']''"
      using marshal_head [OF wf(1)] js by fastforce
    have h: "\<exists>u. commas (map marshal js) @ CHR '']'' # t = c # u"
      using c by (cases js0) (simp_all add: js)
    have "pelems k' (d - 1) (commas (map marshal js) @ CHR '']'' # t) = Some (js, t)"
      using 5(5) k wf False by (intro pelems_marshal 5(1)) auto
    with h c show ?thesis
      using 5(3) by (auto simp: k)
  qed
next
  case (6 ms)
  then obtain k' where k: "k = Suc k'" by (cases k) auto
  show ?case
  proof (cases "ms = []")
    case True
    then show ?thesis using 6(3) by (simp add: k)
  next
    case False
    then obtain m0 ms0 where ms: "ms = m0 # ms0" by (cases ms) auto
    have wf: "valid_utf8 (fst m)" "wf_json (snd m)" "int (depth (snd m)) \<le> d - 1" if "m \<in> set ms" for m
      using 6(2,3) depth_member [OF that] that by (auto simp: list_all_iff)
    have IH: "pval k (d - 1) (marshal (snd m) @ u) = Some (snd m, u)"
      if "m \<in> set ms" "ends u" "2 * length (marshal (snd m)) \<le> k" for m k u
      using 6(1) [OF that(1), of "fst m" "snd m"] wf(2,3) [OF that(1)] that(2,3) by simp
    have h: "\<exists>u. commas (map member ms) @ CHR ''}'' # t = dquote # u"
      by (cases ms0) (simp_all add: ms quote_def)
    have "pmembers k' (d - 1) (commas (map member ms) @ CHR ''}'' # t) = Some (ms, t)"
      using 6(5) k wf False IH unfolding marshal_JObj by (intro pmembers_marshal conjI) auto
    with h show ?thesis
      using 6(3) unfolding marshal_JObj by (auto simp: k)
  qed
qed (auto simp: pval_literals split: if_splits)

lemma parse_marshal:
  assumes "wf_json j" and "depth j \<le> 10000"
  shows "parse_json (marshal j) = Some j"
  using pval_marshal [OF assms(1), of maxNestingDepth "[]" "2 * length (marshal j) + 1"] assms(2)
  by (simp add: parse_json_def maxNestingDepth_def)

interpretation json_text: codec marshal parse_json "\<lambda>j. wf_json j \<and> depth j \<le> 10000"
  by unfold_locales (simp add: parse_marshal)

subsection \<open>Number literals\<close>

lemma digits_nat_to_string: "0 \<le> n \<Longrightarrow> list_all is_digit (nat_to_string n)"
proof (induction n rule: nat_to_string.induct)
  case (1 n)
  have d: "is_digit (digit_char k)" if "0 \<le> k" "k < 10" for k
    using that by (simp add: is_digit_def Let_def)
  show ?case
  proof (cases "n < 10")
    case True
    then show ?thesis using 1 by (simp add: nat_to_string.simps [of n] d)
  next
    case False
    then show ?thesis using 1 by (simp add: nat_to_string.simps [of n] d)
  qed
qed

lemma nat_to_string_leading:
  "0 < n \<Longrightarrow> hd (nat_to_string n) \<noteq> CHR ''0''"
proof (induction n rule: nat_to_string.induct)
  case (1 n)
  show ?case
  proof (cases "n < 10")
    case True
    have "digit_char n \<noteq> CHR ''0''"
    proof
      assume "digit_char n = CHR ''0''"
      then have "(of_char (digit_char n) :: int) = 48" by simp
      with 1(2) True show False by simp
    qed
    then show ?thesis using True by (simp add: nat_to_string.simps [of n])
  next
    case False
    then have "0 < n div 10" by linarith
    then show ?thesis using 1 False by (simp add: nat_to_string.simps [of n] hd_append)
  qed
qed

lemma takeWhile_digits: "list_all is_digit s \<Longrightarrow> takeWhile is_digit s = s \<and> dropWhile is_digit s = []"
  by (induction s) auto

lemma scan_int_nat: "0 \<le> n \<Longrightarrow> scan_int (nat_to_string n) = (nat_to_string n, [])"
proof (cases "n = 0")
  case True
  have "(of_char (digit_char 0) :: int) = of_char (CHR ''0'')" by simp
  then have "digit_char 0 = CHR ''0''" by (simp only: of_char_eq_iff)
  with True show ?thesis by (simp add: nat_to_string.simps [of 0] scan_int_def)
next
  case False
  assume n: "0 \<le> n"
  obtain c s where c: "nat_to_string n = c # s" by (cases "nat_to_string n") auto
  then have "c \<noteq> CHR ''0''" using nat_to_string_leading [of n] False n by simp
  moreover have "list_all is_digit (c # s)" using digits_nat_to_string [OF n] c by simp
  ultimately show ?thesis using takeWhile_digits [of "c # s"] by (simp add: c scan_int_other)
qed

lemma number_literal_itoa [simp]: "number_literal (itoa i)"
proof -
  obtain c s where c: "nat_to_string \<bar>i\<bar> = c # s" by (cases "nat_to_string \<bar>i\<bar>") auto
  have m: "c \<noteq> CHR ''-''" using hd_nat_to_string_neq_minus [of "\<bar>i\<bar>"] c by simp
  have n: "scan_int (c # s) = (c # s, [])" using scan_int_nat [of "\<bar>i\<bar>"] by (simp add: c)
  show ?thesis
  proof (cases "i < 0")
    case True
    then have "itoa i = CHR ''-'' # c # s" using c by (simp add: itoa_def)
    then show ?thesis using n by (simp add: number_literal_def scan_number_def scan_frac_def scan_exp_def)
  next
    case False
    then have "itoa i = c # s" using c by (simp add: itoa_def)
    then show ?thesis
      using n sign_other [OF m, of s] by (simp add: number_literal_def scan_number_def scan_frac_def scan_exp_def)
  qed
qed

subsection \<open>Decoding into Go values\<close>

text \<open>A Go map is written with its keys in order.\<close>

definition jmap :: "(string \<times> json) list \<Rightarrow> json" where
  "jmap ms = JObj (sort_key fst ms)"

definition jint :: "int \<Rightarrow> json" where "jint i = JNum (itoa i)"

lemma wf_jint [simp]: "wf_json (jint i)" "depth (jint i) = 0"
  by (simp_all add: jint_def)

text \<open>\<^verbatim>\<open>strconv.ParseInt(literal, 10, 64)\<close>: a literal with a fraction or an exponent is an error.\<close>

definition num_int :: "string \<Rightarrow> int option" where
  "num_int l =
     (let d = (case l of c # r \<Rightarrow> if c = CHR ''-'' then r else l | [] \<Rightarrow> []) in
      if d = [] \<or> \<not> list_all is_digit d then None
      else let i = (if take 1 l = ''-'' then - digits_value d else digits_value d) in
        if - (2 ^ 63) \<le> i \<and> i < 2 ^ 63 then Some i else None)"

text \<open>\<^verbatim>\<open>strconv.ParseFloat(literal, 64)\<close>: the decimal fraction rounded once; overflow is an error.\<close>

definition num_float :: "string \<Rightarrow> float64 option" where
  "num_float l =
     (let neg = (take 1 l = ''-''); s = (if neg then drop 1 l else l);
          ip = takeWhile is_digit s; s = dropWhile is_digit s;
          fp = (if take 1 s = ''.'' then takeWhile is_digit (drop 1 s) else []);
          s = (if take 1 s = ''.'' then dropWhile is_digit (drop 1 s) else s);
          ex = (if s = [] then 0
                else let e = drop 1 s in
                  if take 1 e = ''-'' then - digits_value (drop 1 e)
                  else if take 1 e = ''+'' then digits_value (drop 1 e)
                  else digits_value e);
          n = digits_value (ip @ fp); x = ex - int (length fp);
          v = (if 0 \<le> x then fround neg (n * 10 ^ nat x) 1 else fround neg n (10 ^ nat (- x))) in
      if is_finite v then Some v else None)"

type_synonym 'a decoder = "json \<Rightarrow> 'a \<Rightarrow> 'a option"

definition dec_string :: "string decoder" where
  "dec_string j old = (case j of JNull \<Rightarrow> Some old | JStr s \<Rightarrow> Some s | _ \<Rightarrow> None)"

definition dec_int :: "int decoder" where
  "dec_int j old = (case j of JNull \<Rightarrow> Some old | JNum l \<Rightarrow> num_int l | _ \<Rightarrow> None)"

definition dec_float :: "float64 decoder" where
  "dec_float j old = (case j of JNull \<Rightarrow> Some old | JNum l \<Rightarrow> num_float l | _ \<Rightarrow> None)"

definition dec_bool :: "bool decoder" where
  "dec_bool j old = (case j of JNull \<Rightarrow> Some old | JBool b \<Rightarrow> Some b | _ \<Rightarrow> None)"

text \<open>A pointer: \<^verbatim>\<open>null\<close> makes it nil, anything else is decoded into what it points to, allocating
  the zero value first when it is nil.\<close>

definition dec_ptr :: "'a \<Rightarrow> 'a decoder \<Rightarrow> 'a option decoder" where
  "dec_ptr zero d j old =
     (case j of JNull \<Rightarrow> Some None
      | _ \<Rightarrow> map_option Some (d j (case old of None \<Rightarrow> zero | Some v \<Rightarrow> v)))"

text \<open>A \<^verbatim>\<open>json.RawMessage\<close> takes whatever value is there.\<close>

definition dec_raw :: "json option decoder" where
  "dec_raw j old = Some (Some j)"

text \<open>A slice: the elements already there are decoded into.\<close>

fun dec_elems :: "'a \<Rightarrow> 'a decoder \<Rightarrow> json list \<Rightarrow> 'a list \<Rightarrow> 'a list option" where
  "dec_elems zero d [] old = Some []"
| "dec_elems zero d (j # js) old =
     (case d j (case old of [] \<Rightarrow> zero | v # _ \<Rightarrow> v) of
        None \<Rightarrow> None
      | Some v \<Rightarrow> map_option ((#) v) (dec_elems zero d js (drop 1 old)))"

definition dec_slice :: "'a \<Rightarrow> 'a decoder \<Rightarrow> 'a list decoder" where
  "dec_slice zero d j old =
     (case j of JNull \<Rightarrow> Some [] | JArr js \<Rightarrow> dec_elems zero d js old | _ \<Rightarrow> None)"

text \<open>
  A struct: a list of field names with what decoding a member does to the struct. A member goes
  to the field of exactly its name or, failing that, of the same name up to case; other members
  are skipped.
\<close>

type_synonym 'a field = "string \<times> 'a decoder"

definition find_field :: "'a field list \<Rightarrow> string \<Rightarrow> 'a field option" where
  "find_field fs key =
     (case find (\<lambda>(n, _). n = key) fs of
        Some f \<Rightarrow> Some f
      | None \<Rightarrow> find (\<lambda>(n, _). equal_fold n key) fs)"

fun dec_members :: "'a field list \<Rightarrow> (string \<times> json) list \<Rightarrow> 'a \<Rightarrow> 'a option" where
  "dec_members fs [] v = Some v"
| "dec_members fs ((key, j) # ms) v =
     (case find_field fs key of
        None \<Rightarrow> dec_members fs ms v
      | Some (_, d) \<Rightarrow> (case d j v of None \<Rightarrow> None | Some v \<Rightarrow> dec_members fs ms v))"

definition dec_struct :: "'a field list \<Rightarrow> 'a decoder" where
  "dec_struct fs j old =
     (case j of JNull \<Rightarrow> Some old | JObj ms \<Rightarrow> dec_members fs ms old | _ \<Rightarrow> None)"

text \<open>A field of a struct, from a decoder for its type and the field's selector and update.\<close>

definition field_dec :: "'b decoder \<Rightarrow> ('a \<Rightarrow> 'b) \<Rightarrow> (('b \<Rightarrow> 'b) \<Rightarrow> 'a \<Rightarrow> 'a) \<Rightarrow> 'a decoder" where
  "field_dec d get upd j v = map_option (\<lambda>x. upd (\<lambda>_. x) v) (d j (get v))"

text \<open>\<^verbatim>\<open>json.Unmarshal\<close> of a text into a zero value.\<close>

definition unmarshal :: "'a decoder \<Rightarrow> 'a \<Rightarrow> string \<Rightarrow> 'a option" where
  "unmarshal d zero s = (case parse_json s of None \<Rightarrow> None | Some j \<Rightarrow> d j zero)"

lemma unmarshal_marshal:
  "wf_json j \<Longrightarrow> depth j \<le> 10000 \<Longrightarrow> unmarshal d zero (marshal j) = d j zero"
  by (simp add: unmarshal_def parse_marshal)

end
