(* ===== verification/Iot.thy ===== *)
theory Iot
  imports Device Json Transport
begin

text \<open>
  The IOT dialect, \<^verbatim>\<open>kasa/iot.go\<close>: what sysinfo and the emeter modules decode to, the conversion
  to a reading, and the querier that reads a device over any transport. The transport is the
  function \<open>Q\<close>, the \<^verbatim>\<open>Query\<close> method of the interface; the querier keeps the transport's state.
\<close>

definition iotEmeterModule :: string where "iotEmeterModule = ''emeter''"
definition iotBulbEmeterModule :: string where "iotBulbEmeterModule = ''smartlife.iot.common.emeter''"

record 't iotQuerier =
  iq_transport :: 't
  iq_emeterModule :: string
  iq_deviceHasEmeter :: bool

definition newIOTQuerier :: "'t \<Rightarrow> 't iotQuerier" where
  "newIOTQuerier t = \<lparr>iq_transport = t, iq_emeterModule = iotEmeterModule, iq_deviceHasEmeter = True\<rparr>"

subsection \<open>What the device reports\<close>

abbreviation fzero :: float64 where "fzero \<equiv> Fin False 0 (-1074)"
abbreviation dec_pfloat :: "float64 option decoder" where "dec_pfloat \<equiv> dec_ptr fzero dec_float"
abbreviation dec_pint :: "int option decoder" where "dec_pint \<equiv> dec_ptr 0 dec_int"
abbreviation dec_pbool :: "bool option decoder" where "dec_pbool \<equiv> dec_ptr False dec_bool"

record iotChild =
  ic_ID :: string
  ic_Alias :: string
  ic_State :: "int option"
  ic_OnTime :: "float64 option"

definition zero_iotChild :: iotChild where
  "zero_iotChild = \<lparr>ic_ID = [], ic_Alias = [], ic_State = None, ic_OnTime = None\<rparr>"

definition dec_iotChild :: "iotChild decoder" where
  "dec_iotChild = dec_struct
     [(''id'', field_dec dec_string ic_ID ic_ID_update),
      (''alias'', field_dec dec_string ic_Alias ic_Alias_update),
      (''state'', field_dec dec_pint ic_State ic_State_update),
      (''on_time'', field_dec dec_pfloat ic_OnTime ic_OnTime_update)]"

text \<open>A light state holds settings and, while the light is off, the state it will return to.\<close>

record light_settings =
  ls_OnOff :: "int option"
  ls_Hue :: "float64 option"
  ls_Saturation :: "float64 option"
  ls_ColorTemp :: "float64 option"
  ls_Brightness :: "float64 option"

datatype iotLightState = LightState (ls_settings: light_settings) (ls_DefaultOnState: "iotLightState option")

definition zero_iotLightState :: iotLightState where
  "zero_iotLightState = LightState
     \<lparr>ls_OnOff = None, ls_Hue = None, ls_Saturation = None, ls_ColorTemp = None, ls_Brightness = None\<rparr> None"

definition upd_settings :: "(('b \<Rightarrow> 'b) \<Rightarrow> light_settings \<Rightarrow> light_settings) \<Rightarrow>
    ('b \<Rightarrow> 'b) \<Rightarrow> iotLightState \<Rightarrow> iotLightState" where
  "upd_settings u f l = LightState (u f (ls_settings l)) (ls_DefaultOnState l)"

fun dec_light :: "nat \<Rightarrow> iotLightState decoder" where
  "dec_light 0 j old = None"
| "dec_light (Suc n) j old = dec_struct
     [(''on_off'', field_dec dec_pint (ls_OnOff \<circ> ls_settings) (upd_settings ls_OnOff_update)),
      (''hue'', field_dec dec_pfloat (ls_Hue \<circ> ls_settings) (upd_settings ls_Hue_update)),
      (''saturation'', field_dec dec_pfloat (ls_Saturation \<circ> ls_settings) (upd_settings ls_Saturation_update)),
      (''color_temp'', field_dec dec_pfloat (ls_ColorTemp \<circ> ls_settings) (upd_settings ls_ColorTemp_update)),
      (''brightness'', field_dec dec_pfloat (ls_Brightness \<circ> ls_settings) (upd_settings ls_Brightness_update)),
      (''dft_on_state'', field_dec (dec_ptr zero_iotLightState (dec_light n)) ls_DefaultOnState
         (\<lambda>f l. LightState (ls_settings l) (f (ls_DefaultOnState l))))] j old"

text \<open>The nesting of the value bounds the nesting of the states in it.\<close>

definition dec_iotLightState :: "iotLightState decoder" where
  "dec_iotLightState j = dec_light (Suc (depth j)) j"

record iotSysinfo =
  is_SWVer :: string
  is_HWVer :: string
  is_Model :: string
  is_DeviceID :: string
  is_Alias :: string
  is_MAC :: string
  is_MicMAC :: string
  is_Type :: string
  is_MicType :: string
  is_Feature :: string
  is_RSSI :: "float64 option"
  is_RelayState :: "int option"
  is_OnTime :: "float64 option"
  is_LEDOff :: "int option"
  is_Updating :: "int option"
  is_Brightness :: "float64 option"
  is_Length :: "float64 option"
  is_LightState :: "iotLightState option"
  is_Children :: "iotChild list"
  is_ErrCode :: "int option"

definition zero_iotSysinfo :: iotSysinfo where
  "zero_iotSysinfo =
     \<lparr>is_SWVer = [], is_HWVer = [], is_Model = [], is_DeviceID = [], is_Alias = [], is_MAC = [],
      is_MicMAC = [], is_Type = [], is_MicType = [], is_Feature = [], is_RSSI = None,
      is_RelayState = None, is_OnTime = None, is_LEDOff = None, is_Updating = None,
      is_Brightness = None, is_Length = None, is_LightState = None, is_Children = [],
      is_ErrCode = None\<rparr>"

definition dec_iotSysinfo :: "iotSysinfo decoder" where
  "dec_iotSysinfo = dec_struct
     [(''sw_ver'', field_dec dec_string is_SWVer is_SWVer_update),
      (''hw_ver'', field_dec dec_string is_HWVer is_HWVer_update),
      (''model'', field_dec dec_string is_Model is_Model_update),
      (''deviceId'', field_dec dec_string is_DeviceID is_DeviceID_update),
      (''alias'', field_dec dec_string is_Alias is_Alias_update),
      (''mac'', field_dec dec_string is_MAC is_MAC_update),
      (''mic_mac'', field_dec dec_string is_MicMAC is_MicMAC_update),
      (''type'', field_dec dec_string is_Type is_Type_update),
      (''mic_type'', field_dec dec_string is_MicType is_MicType_update),
      (''feature'', field_dec dec_string is_Feature is_Feature_update),
      (''rssi'', field_dec dec_pfloat is_RSSI is_RSSI_update),
      (''relay_state'', field_dec dec_pint is_RelayState is_RelayState_update),
      (''on_time'', field_dec dec_pfloat is_OnTime is_OnTime_update),
      (''led_off'', field_dec dec_pint is_LEDOff is_LEDOff_update),
      (''updating'', field_dec dec_pint is_Updating is_Updating_update),
      (''brightness'', field_dec dec_pfloat is_Brightness is_Brightness_update),
      (''length'', field_dec dec_pfloat is_Length is_Length_update),
      (''light_state'', field_dec (dec_ptr zero_iotLightState dec_iotLightState)
         is_LightState is_LightState_update),
      (''children'', field_dec (dec_slice zero_iotChild dec_iotChild) is_Children is_Children_update),
      (''err_code'', field_dec dec_pint is_ErrCode is_ErrCode_update)]"

definition iot_family :: "iotSysinfo \<Rightarrow> string" where
  "iot_family s = (if is_MicType s \<noteq> [] then is_MicType s else is_Type s)"

definition iot_mac :: "iotSysinfo \<Rightarrow> string" where
  "iot_mac s = (if is_MAC s \<noteq> [] then is_MAC s else is_MicMAC s)"

record iotEmeter =
  em_CurrentMA :: "float64 option"
  em_Current :: "float64 option"
  em_VoltageMV :: "float64 option"
  em_Voltage :: "float64 option"
  em_PowerMW :: "float64 option"
  em_Power :: "float64 option"
  em_TotalWH :: "float64 option"
  em_Total :: "float64 option"
  em_EnergyWH :: "float64 option"
  em_Energy :: "float64 option"
  em_ErrCode :: "int option"

definition zero_iotEmeter :: iotEmeter where
  "zero_iotEmeter =
     \<lparr>em_CurrentMA = None, em_Current = None, em_VoltageMV = None, em_Voltage = None,
      em_PowerMW = None, em_Power = None, em_TotalWH = None, em_Total = None,
      em_EnergyWH = None, em_Energy = None, em_ErrCode = None\<rparr>"

definition dec_iotEmeter :: "iotEmeter decoder" where
  "dec_iotEmeter = dec_struct
     [(''current_ma'', field_dec dec_pfloat em_CurrentMA em_CurrentMA_update),
      (''current'', field_dec dec_pfloat em_Current em_Current_update),
      (''voltage_mv'', field_dec dec_pfloat em_VoltageMV em_VoltageMV_update),
      (''voltage'', field_dec dec_pfloat em_Voltage em_Voltage_update),
      (''power_mw'', field_dec dec_pfloat em_PowerMW em_PowerMW_update),
      (''power'', field_dec dec_pfloat em_Power em_Power_update),
      (''total_wh'', field_dec dec_pfloat em_TotalWH em_TotalWH_update),
      (''total'', field_dec dec_pfloat em_Total em_Total_update),
      (''energy_wh'', field_dec dec_pfloat em_EnergyWH em_EnergyWH_update),
      (''energy'', field_dec dec_pfloat em_Energy em_Energy_update),
      (''err_code'', field_dec dec_pint em_ErrCode em_ErrCode_update)]"

text \<open>An error code that is present and not zero.\<close>

definition failed :: "int option \<Rightarrow> bool" where
  "failed c \<longleftrightarrow> (case c of None \<Rightarrow> False | Some e \<Rightarrow> e \<noteq> 0)"

definition milli :: "float64 \<Rightarrow> float64" where
  "milli x = fdiv x (fint 1000)"

text \<open>The first spelling present, \<open>a\<close> scaled by a thousandth or \<open>b\<close> as it is.\<close>

definition scaled_or :: "float64 option \<Rightarrow> float64 option \<Rightarrow> float64 option" where
  "scaled_or a b = (case a of Some x \<Rightarrow> Some (milli x) | None \<Rightarrow> b)"

definition iot_energy :: "iotEmeter option \<Rightarrow> Energy option" where
  "iot_energy e = (case e of
       None \<Rightarrow> None
     | Some m \<Rightarrow>
         if failed (em_ErrCode m) then None
         else let out = \<lparr>PowerWatts = scaled_or (em_PowerMW m) (em_Power m),
                  VoltageVolts = scaled_or (em_VoltageMV m) (em_Voltage m),
                  CurrentAmperes = scaled_or (em_CurrentMA m) (em_Current m),
                  TotalKWh = (case scaled_or (em_TotalWH m) (em_Total m) of
                      Some x \<Rightarrow> Some x
                    | None \<Rightarrow> scaled_or (em_EnergyWH m) (em_Energy m))\<rparr> in
           if out = no_energy then None else Some out)"

record iotEmeterResponse =
  er_GetRealtime :: "iotEmeter option"
  er_ErrCode :: "int option"

definition zero_iotEmeterResponse :: iotEmeterResponse where
  "zero_iotEmeterResponse = \<lparr>er_GetRealtime = None, er_ErrCode = None\<rparr>"

definition dec_iotEmeterResponse :: "iotEmeterResponse decoder" where
  "dec_iotEmeterResponse = dec_struct
     [(''get_realtime'', field_dec (dec_ptr zero_iotEmeter dec_iotEmeter) er_GetRealtime er_GetRealtime_update),
      (''err_code'', field_dec dec_pint er_ErrCode er_ErrCode_update)]"

definition realtime :: "iotEmeterResponse option \<Rightarrow> iotEmeter option" where
  "realtime m = (case m of
       None \<Rightarrow> None
     | Some r \<Rightarrow> if failed (er_ErrCode r) then None else er_GetRealtime r)"

text \<open>The \<^verbatim>\<open>system\<close> module is an anonymous struct with the one field \<^verbatim>\<open>get_sysinfo\<close>.\<close>

record iotResponse =
  ir_System :: "iotSysinfo option option"
  ir_Emeter :: "iotEmeterResponse option"
  ir_SmartlifeEmeter :: "iotEmeterResponse option"

definition zero_iotResponse :: iotResponse where
  "zero_iotResponse = \<lparr>ir_System = None, ir_Emeter = None, ir_SmartlifeEmeter = None\<rparr>"

definition dec_iotResponse :: "iotResponse decoder" where
  "dec_iotResponse = dec_struct
     [(''system'', field_dec (dec_ptr None (dec_struct
         [(''get_sysinfo'', dec_ptr zero_iotSysinfo dec_iotSysinfo)])) ir_System ir_System_update),
      (''emeter'', field_dec (dec_ptr zero_iotEmeterResponse dec_iotEmeterResponse)
         ir_Emeter ir_Emeter_update),
      (''smartlife.iot.common.emeter'', field_dec (dec_ptr zero_iotEmeterResponse dec_iotEmeterResponse)
         ir_SmartlifeEmeter ir_SmartlifeEmeter_update)]"

subsection \<open>The reading\<close>

definition empty_reading :: Reading where
  "empty_reading =
     \<lparr>rd_Host = [], rd_Alias = [], rd_Model = [], rd_DeviceID = [], rd_HardwareVersion = [],
      rd_FirmwareVersion = [], rd_MAC = [], rd_Type = TypeUnknown, rd_Protocol = ProtocolIOT,
      rd_On = None, rd_LEDOn = None, rd_Overheated = None, rd_Updating = None,
      rd_UptimeSeconds = None, rd_RSSI = None, rd_SignalLevel = None, rd_Brightness = None,
      rd_ColorTempKelvin = None, rd_Hue = None, rd_Saturation = None, rd_LightStripLength = None,
      rd_Energy = None, rd_Sockets = [], rd_Children = []\<rparr>"

definition applyLightState :: "Reading \<Rightarrow> iotLightState \<Rightarrow> Reading" where
  "applyLightState r state =
     (let onoff = ls_OnOff (ls_settings state);
          r = (case onoff of None \<Rightarrow> r | Some n \<Rightarrow> r\<lparr>rd_On := Some (n \<noteq> 0)\<rparr>);
          active = (case (onoff, ls_DefaultOnState state) of
              (Some n, Some d) \<Rightarrow> if n = 0 then d else state
            | _ \<Rightarrow> state);
          a = ls_settings active;
          r = r\<lparr>rd_Hue := ls_Hue a, rd_Saturation := ls_Saturation a, rd_ColorTempKelvin := ls_ColorTemp a\<rparr> in
      case ls_Brightness a of None \<Rightarrow> r | Some b \<Rightarrow> r\<lparr>rd_Brightness := Some b\<rparr>)"

definition iotReading :: "iotSysinfo \<Rightarrow> Reading" where
  "iotReading s =
     (let r = empty_reading
        \<lparr>rd_Alias := is_Alias s, rd_Model := is_Model s, rd_DeviceID := is_DeviceID s,
         rd_HardwareVersion := is_HWVer s, rd_FirmwareVersion := is_SWVer s, rd_MAC := iot_mac s,
         rd_Type := deviceTypeFor (is_Model s) (iot_family s), rd_Protocol := ProtocolIOT,
         rd_RSSI := is_RSSI s, rd_UptimeSeconds := is_OnTime s, rd_Brightness := is_Brightness s,
         rd_LightStripLength := is_Length s,
         rd_On := map_option (\<lambda>n. n \<noteq> 0) (is_RelayState s),
         rd_LEDOn := map_option (\<lambda>n. n = 0) (is_LEDOff s),
         rd_Updating := map_option (\<lambda>n. n \<noteq> 0) (is_Updating s)\<rparr> in
      case is_LightState s of None \<Rightarrow> r | Some l \<Rightarrow> applyLightState r l)"

definition addFloat :: "float64 option \<Rightarrow> float64 option \<Rightarrow> float64 option" where
  "addFloat acc v = (case v of
       None \<Rightarrow> acc
     | Some x \<Rightarrow> (case acc of None \<Rightarrow> Some x | Some y \<Rightarrow> Some (fadd y x)))"

definition addEnergy :: "Energy \<Rightarrow> Energy \<Rightarrow> Energy" where
  "addEnergy acc add =
     acc\<lparr>PowerWatts := addFloat (PowerWatts acc) (PowerWatts add),
       CurrentAmperes := addFloat (CurrentAmperes acc) (CurrentAmperes add),
       TotalKWh := addFloat (TotalKWh acc) (TotalKWh add),
       VoltageVolts := (case VoltageVolts acc of None \<Rightarrow> VoltageVolts add | Some v \<Rightarrow> Some v)\<rparr>"

subsection \<open>Requests\<close>

definition iot_query ::
  "('t, 'w) query_fun \<Rightarrow> 't iotQuerier \<Rightarrow> json \<Rightarrow> 'w
     \<Rightarrow> (kasa_error + iotResponse) \<times> 't iotQuerier \<times> 'w" where
  "iot_query Q q request w =
     (case Q (iq_transport q) (bytes_of (marshal request)) w of (r, t, w) \<Rightarrow>
      let q = q\<lparr>iq_transport := t\<rparr> in
      case r of
        Inl e \<Rightarrow> (Inl e, q, w)
      | Inr raw \<Rightarrow>
          (case unmarshal dec_iotResponse zero_iotResponse (string_of raw) of
             None \<Rightarrow> (Inl (DialectError BadResponse), q, w)
           | Some response \<Rightarrow> (Inr response, q, w)))"

definition jempty :: json where "jempty = JObj []"

definition sysinfo_member :: "string \<times> json" where
  "sysinfo_member = (''system'', jmap [(''get_sysinfo'', jempty)])"

definition emeter_member :: "string \<Rightarrow> string \<times> json" where
  "emeter_member m = (m, jmap [(''get_realtime'', jempty)])"

definition state_request :: "'t iotQuerier \<Rightarrow> json" where
  "state_request q =
     jmap (sysinfo_member # (if iq_deviceHasEmeter q then [emeter_member (iq_emeterModule q)] else []))"

definition socket_request :: "string \<Rightarrow> json" where
  "socket_request childID =
     jmap [(''context'', jmap [(''child_ids'', JArr [JStr childID])]), emeter_member ''emeter'']"

text \<open>The reading of whichever emeter module answered.\<close>

definition response_emeter :: "iotResponse \<Rightarrow> iotEmeter option" where
  "response_emeter response =
     (case realtime (ir_Emeter response) of
        Some e \<Rightarrow> Some e
      | None \<Rightarrow> realtime (ir_SmartlifeEmeter response))"

definition iot_retryEmeter ::
  "('t, 'w) query_fun \<Rightarrow> 't iotQuerier \<Rightarrow> DeviceType \<Rightarrow> 'w \<Rightarrow> iotEmeter option \<times> 't iotQuerier \<times> 'w" where
  "iot_retryEmeter Q q deviceType w =
     (if deviceType \<noteq> TypeBulb \<and> deviceType \<noteq> TypeLightStrip
      then (None, q\<lparr>iq_deviceHasEmeter := False\<rparr>, w)
      else let other = (if iq_emeterModule q = iotBulbEmeterModule then iotEmeterModule else iotBulbEmeterModule) in
        case iot_query Q q (jmap [emeter_member other]) w of
          (Inl _, q, w) \<Rightarrow> (None, q, w)
        | (Inr response, q, w) \<Rightarrow>
            (case response_emeter response of
               None \<Rightarrow> (None, q\<lparr>iq_deviceHasEmeter := False\<rparr>, w)
             | Some energy \<Rightarrow> (Some energy, q\<lparr>iq_emeterModule := other\<rparr>, w)))"

definition socket_id :: "iotSysinfo \<Rightarrow> iotChild \<Rightarrow> string" where
  "socket_id s child =
     (if length (ic_ID child) \<le> 2 then is_DeviceID s @ ic_ID child else ic_ID child)"

definition readSocketEnergy ::
  "('t, 'w) query_fun \<Rightarrow> 't iotQuerier \<Rightarrow> iotSysinfo \<Rightarrow> iotChild \<Rightarrow> 'w
     \<Rightarrow> (kasa_error + Energy option) \<times> 't iotQuerier \<times> 'w" where
  "readSocketEnergy Q q s child w =
     (case iot_query Q q (socket_request (socket_id s child)) w of
        (Inl e, q, w) \<Rightarrow> (Inl e, q, w)
      | (Inr response, q, w) \<Rightarrow> (Inr (iot_energy (realtime (ir_Emeter response))), q, w))"

text \<open>The loop over the outlets, from outlet \<open>i\<close> on.\<close>

record socket_tally =
  ta_total :: Energy
  ta_measured :: nat
  ta_failures :: nat
  ta_sockets :: "Socket list"

definition tally_socket :: "nat \<Rightarrow> iotChild \<Rightarrow> kasa_error + Energy option \<Rightarrow> socket_tally \<Rightarrow> socket_tally" where
  "tally_socket i child r ta =
     (let socket = \<lparr>so_ID = itoa (int (i + 1)), so_Alias = ic_Alias child,
          so_On = map_option (\<lambda>n. n \<noteq> 0) (ic_State child), so_UptimeSeconds = ic_OnTime child,
          so_Energy = (case r of Inr (Some e) \<Rightarrow> Some e | _ \<Rightarrow> None)\<rparr>;
          ta = (case r of
              Inl _ \<Rightarrow> ta\<lparr>ta_failures := ta_failures ta + 1\<rparr>
            | Inr None \<Rightarrow> ta
            | Inr (Some e) \<Rightarrow> ta\<lparr>ta_measured := ta_measured ta + 1, ta_total := addEnergy (ta_total ta) e\<rparr>) in
      ta\<lparr>ta_sockets := ta_sockets ta @ [socket]\<rparr>)"

fun sockets_loop ::
  "('t, 'w) query_fun \<Rightarrow> 't iotQuerier \<Rightarrow> iotSysinfo \<Rightarrow> nat \<Rightarrow> iotChild list \<Rightarrow> socket_tally \<Rightarrow> 'w
     \<Rightarrow> socket_tally \<times> 't iotQuerier \<times> 'w" where
  "sockets_loop Q q s i [] ta w = (ta, q, w)"
| "sockets_loop Q q s i (child # children) ta w =
     (case readSocketEnergy Q q s child w of (r, q, w) \<Rightarrow>
        sockets_loop Q q s (i + 1) children (tally_socket i child r ta) w)"

definition start_tally :: "Socket list \<Rightarrow> socket_tally" where
  "start_tally sockets = \<lparr>ta_total = no_energy, ta_measured = 0, ta_failures = 0, ta_sockets = sockets\<rparr>"

definition finish_sockets :: "nat \<Rightarrow> socket_tally \<Rightarrow> Reading \<Rightarrow> kasa_error + Reading" where
  "finish_sockets n ta reading =
     (let reading = reading\<lparr>rd_Sockets := ta_sockets ta\<rparr> in
      if ta_failures ta = n then Inl (DialectError NoOutletReadable)
      else if 0 < ta_measured ta
      then Inr (reading\<lparr>rd_Energy := Some (if ta_measured ta < n then (ta_total ta)\<lparr>TotalKWh := None\<rparr> else ta_total ta)\<rparr>)
      else Inr reading)"

definition readSockets ::
  "('t, 'w) query_fun \<Rightarrow> 't iotQuerier \<Rightarrow> iotSysinfo \<Rightarrow> Reading \<Rightarrow> 'w
     \<Rightarrow> (kasa_error + Reading) \<times> 't iotQuerier \<times> 'w" where
  "readSockets Q q s reading w =
     (if is_Children s = [] then (Inr reading, q, w)
      else case sockets_loop Q q s 0 (is_Children s) (start_tally (rd_Sockets reading)) w of (ta, q, w) \<Rightarrow>
        (finish_sockets (length (is_Children s)) ta reading, q, w))"

definition iot_read ::
  "('t, 'w) query_fun \<Rightarrow> 't iotQuerier \<Rightarrow> 'w \<Rightarrow> (kasa_error + Reading) \<times> 't iotQuerier \<times> 'w" where
  "iot_read Q q w =
     (case iot_query Q q (state_request q) w of
        (Inl e, q, w) \<Rightarrow> (Inl e, q, w)
      | (Inr response, q, w) \<Rightarrow>
      case Option.bind (ir_System response) (\<lambda>s. s) of
        None \<Rightarrow> (Inl (DialectError NoSysinfo), q, w)
      | Some sysinfo \<Rightarrow>
      if failed (is_ErrCode sysinfo)
      then (Inl (DialectError (SysinfoErrorCode (the (is_ErrCode sysinfo)))), q, w)
      else let reading = iotReading sysinfo in
        if rd_Type reading = TypeStrip
        then readSockets Q (q\<lparr>iq_deviceHasEmeter := False\<rparr>) sysinfo reading w
        else case response_emeter response of
            Some e \<Rightarrow> (Inr (reading\<lparr>rd_Energy := iot_energy (Some e)\<rparr>), q, w)
          | None \<Rightarrow>
              if iq_deviceHasEmeter q
              then (case iot_retryEmeter Q q (rd_Type reading) w of (follow, q, w) \<Rightarrow>
                (Inr (reading\<lparr>rd_Energy := iot_energy follow\<rparr>), q, w))
              else (Inr (reading\<lparr>rd_Energy := None\<rparr>), q, w))"

definition iot_close :: "('t \<Rightarrow> 't) \<Rightarrow> 't iotQuerier \<Rightarrow> 't iotQuerier" where
  "iot_close C q = q\<lparr>iq_transport := C (iq_transport q)\<rparr>"

subsection \<open>What a read does to the transport and to the querier\<close>

lemma iot_query_flags:
  "iot_query Q q request w = (r, q', w') \<Longrightarrow>
    iq_emeterModule q' = iq_emeterModule q \<and> iq_deviceHasEmeter q' = iq_deviceHasEmeter q"
  by (auto simp: iot_query_def Let_def split: sum.splits option.splits prod.splits)

lemma readSocketEnergy_flags:
  "readSocketEnergy Q q s child w = (r, q', w') \<Longrightarrow>
    iq_emeterModule q' = iq_emeterModule q \<and> iq_deviceHasEmeter q' = iq_deviceHasEmeter q"
  by (auto simp: readSocketEnergy_def dest: iot_query_flags split: sum.splits prod.splits)

lemma sockets_loop_flags:
  "sockets_loop Q q s i children ta w = (ta', q', w') \<Longrightarrow>
    iq_emeterModule q' = iq_emeterModule q \<and> iq_deviceHasEmeter q' = iq_deviceHasEmeter q"
proof (induction children arbitrary: q i ta w)
  case (Cons child children)
  then show ?case by (auto split: prod.splits dest!: readSocketEnergy_flags)
qed simp

context transport
begin

lemma iot_query_talk:
  "iot_query query q request w = (r, q', w') \<Longrightarrow> talk (iq_transport q) (iq_transport q')"
  by (auto simp: iot_query_def Let_def intro: talk_one split: sum.splits option.splits prod.splits)

lemma readSocketEnergy_talk:
  "readSocketEnergy query q s child w = (r, q', w') \<Longrightarrow> talk (iq_transport q) (iq_transport q')"
  by (auto simp: readSocketEnergy_def dest: iot_query_talk split: sum.splits prod.splits)

lemma sockets_loop_talk:
  "sockets_loop query q s i children ta w = (ta', q', w') \<Longrightarrow> talk (iq_transport q) (iq_transport q')"
proof (induction children arbitrary: q i ta w)
  case Nil
  then show ?case by (simp add: talk_stop)
next
  case (Cons child children)
  then show ?case
    by (auto split: prod.splits intro: talk_trans dest!: readSocketEnergy_talk)
qed

lemma iot_retryEmeter_talk:
  "iot_retryEmeter query q ty w = (r, q', w') \<Longrightarrow> talk (iq_transport q) (iq_transport q')"
  by (auto simp: iot_retryEmeter_def Let_def talk_stop dest!: iot_query_talk
      split: if_splits sum.splits prod.splits option.splits)

lemma readSockets_talk:
  "readSockets query q s reading w = (r, q', w') \<Longrightarrow> talk (iq_transport q) (iq_transport q')"
  by (auto simp: readSockets_def talk_stop dest!: sockets_loop_talk split: if_splits prod.splits)

lemma iot_read_talk:
  assumes "iot_read query q w = (r, q', w')"
  shows "talk (iq_transport q) (iq_transport q')"
proof -
  obtain x q1 w1 where x: "iot_query query q (state_request q) w = (x, q1, w1)"
    by (metis prod.collapse)
  have t: "talk (iq_transport q) (iq_transport q1)" using iot_query_talk [OF x] .
  show ?thesis
    using assms t
    by (auto simp: iot_read_def x Let_def dest!: iot_retryEmeter_talk readSockets_talk
        split: sum.splits option.splits if_splits prod.splits intro: talk_trans)
qed

lemma iot_read_valid: "iot_read query q w = (r, q', w') \<Longrightarrow> valid (iq_transport q) \<Longrightarrow> valid (iq_transport q')"
  by (rule talk_valid [OF iot_read_talk])

lemma iot_read_config: "iot_read query q w = (r, q', w') \<Longrightarrow> config (iq_transport q') = config (iq_transport q)"
  by (rule talk_config [OF iot_read_talk])

end

subsection \<open>The strip's totals\<close>

text \<open>What a strip's figures are, from the readings of its outlets: sums, except voltage.\<close>

definition fsum :: "float64 list \<Rightarrow> float64 option" where
  "fsum xs = (case xs of [] \<Rightarrow> None | x # r \<Rightarrow> Some (foldl fadd x r))"

definition strip_total :: "Energy list \<Rightarrow> Energy" where
  "strip_total es =
     \<lparr>PowerWatts = fsum (List.map_filter PowerWatts es),
      VoltageVolts = (case List.map_filter VoltageVolts es of [] \<Rightarrow> None | v # _ \<Rightarrow> Some v),
      CurrentAmperes = fsum (List.map_filter CurrentAmperes es),
      TotalKWh = fsum (List.map_filter TotalKWh es)\<rparr>"

lemma map_filter_snoc: "List.map_filter f (xs @ [x]) = List.map_filter f xs @ (case f x of None \<Rightarrow> [] | Some y \<Rightarrow> [y])"
  by (simp add: List.map_filter_def split: option.splits)

lemma addFloat_fsum: "addFloat (fsum xs) v = fsum (xs @ (case v of None \<Rightarrow> [] | Some y \<Rightarrow> [y]))"
  by (auto simp: addFloat_def fsum_def split: option.splits list.splits)

lemma foldl_addEnergy: "foldl addEnergy no_energy es = strip_total es"
proof (induction es rule: rev_induct)
  case Nil
  then show ?case by (simp add: no_energy_def strip_total_def fsum_def List.map_filter_def)
next
  case (snoc e es)
  have v: "(case (case xs of [] \<Rightarrow> None | v # _ \<Rightarrow> Some v) of None \<Rightarrow> x | Some v \<Rightarrow> Some v) =
      (case xs @ (case x of None \<Rightarrow> [] | Some y \<Rightarrow> [y]) of [] \<Rightarrow> None | v # _ \<Rightarrow> Some v)" for xs and x :: "float64 option"
    by (cases xs; cases x) simp_all
  have "foldl addEnergy no_energy (es @ [e]) = addEnergy (strip_total es) e" by (simp add: snoc)
  also have "\<dots> = strip_total (es @ [e])"
    by (simp add: addEnergy_def strip_total_def map_filter_snoc addFloat_fsum v)
  finally show ?case .
qed

text \<open>The results of the outlets, in order.\<close>

fun socket_results ::
  "('t, 'w) query_fun \<Rightarrow> 't iotQuerier \<Rightarrow> iotSysinfo \<Rightarrow> iotChild list \<Rightarrow> 'w
     \<Rightarrow> (kasa_error + Energy option) list \<times> 't iotQuerier \<times> 'w" where
  "socket_results Q q s [] w = ([], q, w)"
| "socket_results Q q s (child # children) w =
     (case readSocketEnergy Q q s child w of (r, q, w) \<Rightarrow>
        case socket_results Q q s children w of (rs, q, w) \<Rightarrow> (r # rs, q, w))"

lemma socket_results_length:
  "socket_results Q q s children w = (rs, q', w') \<Longrightarrow> length rs = length children"
  by (induction children arbitrary: q w rs) (auto split: prod.splits)

fun reading_of :: "kasa_error + Energy option \<Rightarrow> Energy option" where
  "reading_of (Inr r) = r"
| "reading_of (Inl _) = None"

definition outlet :: "nat \<Rightarrow> iotChild \<Rightarrow> kasa_error + Energy option \<Rightarrow> Socket" where
  "outlet i child r =
     \<lparr>so_ID = itoa (int (i + 1)), so_Alias = ic_Alias child, so_On = map_option (\<lambda>n. n \<noteq> 0) (ic_State child),
      so_UptimeSeconds = ic_OnTime child, so_Energy = reading_of r\<rparr>"

fun outlets :: "nat \<Rightarrow> iotChild list \<Rightarrow> (kasa_error + Energy option) list \<Rightarrow> Socket list" where
  "outlets i (c # cs) (r # rs) = outlet i c r # outlets (i + 1) cs rs"
| "outlets i _ _ = []"

definition failures :: "(kasa_error + Energy option) list \<Rightarrow> nat" where
  "failures rs = length (filter isl rs)"

text \<open>The specification of a strip's reading.\<close>

definition strip_reading ::
  "iotChild list \<Rightarrow> (kasa_error + Energy option) list \<Rightarrow> Reading \<Rightarrow> kasa_error + Reading" where
  "strip_reading children rs reading =
     (let es = List.map_filter reading_of rs in
      if failures rs = length rs then Inl (DialectError NoOutletReadable)
      else Inr (reading\<lparr>rd_Sockets := rd_Sockets reading @ outlets 0 children rs,
        rd_Energy := (if es = [] then rd_Energy reading
          else if length es < length rs then Some ((strip_total es)\<lparr>TotalKWh := None\<rparr>)
          else Some (strip_total es))\<rparr>))"

lemma tally_socket_eq:
  "tally_socket i child r ta =
     \<lparr>ta_total = (case reading_of r of None \<Rightarrow> ta_total ta | Some e \<Rightarrow> addEnergy (ta_total ta) e),
      ta_measured = (case reading_of r of None \<Rightarrow> ta_measured ta | Some _ \<Rightarrow> ta_measured ta + 1),
      ta_failures = (if isl r then ta_failures ta + 1 else ta_failures ta),
      ta_sockets = ta_sockets ta @ [outlet i child r]\<rparr>"
  by (cases r) (auto simp: tally_socket_def outlet_def Let_def split: option.splits)

lemma sockets_loop_results:
  "sockets_loop Q q s i children ta w =
     (case socket_results Q q s children w of (rs, q, w) \<Rightarrow>
       (\<lparr>ta_total = foldl addEnergy (ta_total ta) (List.map_filter reading_of rs),
         ta_measured = ta_measured ta + length (List.map_filter reading_of rs),
         ta_failures = ta_failures ta + failures rs,
         ta_sockets = ta_sockets ta @ outlets i children rs\<rparr>, q, w))"
proof (induction children arbitrary: q i ta w)
  case Nil
  then show ?case by (simp add: failures_def List.map_filter_simps)
next
  case (Cons child children)
  obtain r q1 w1 where r: "readSocketEnergy Q q s child w = (r, q1, w1)" by (metis prod.collapse)
  obtain rs q2 w2 where rs: "socket_results Q q1 s children w1 = (rs, q2, w2)" by (metis prod.collapse)
  show ?case
    by (simp add: r rs Cons.IH tally_socket_eq failures_def List.map_filter_simps split: option.split)
qed

lemma failures_le: "failures rs \<le> length rs"
  by (simp add: failures_def)

lemma readSockets_spec:
  assumes "is_Children s \<noteq> []"
  shows "readSockets Q q s reading w =
    (case socket_results Q q s (is_Children s) w of (rs, q, w) \<Rightarrow>
      (strip_reading (is_Children s) rs reading, q, w))"
proof -
  obtain rs q1 w1 where rs: "socket_results Q q s (is_Children s) w = (rs, q1, w1)" by (metis prod.collapse)
  note len = socket_results_length [OF rs]
  show ?thesis
    using assms
    by (simp add: readSockets_def sockets_loop_results rs start_tally_def finish_sockets_def strip_reading_def
        foldl_addEnergy len [symmetric] Let_def split: prod.split)
qed

subsection \<open>What a read asks\<close>

definition encoded :: "json \<Rightarrow> byte list" where
  "encoded j = bytes_of (marshal j)"

lemma iot_query_trace:
  "iot_query (traced_query Q) q request (w, tr) = (r, q', w', tr') \<Longrightarrow> tr' = tr @ [encoded request]"
  by (auto simp: iot_query_def traced_query_def encoded_def Let_def split: sum.splits option.splits prod.splits)

lemma readSocketEnergy_trace:
  "readSocketEnergy (traced_query Q) q s child (w, tr) = (r, q', w', tr') \<Longrightarrow>
    tr' = tr @ [encoded (socket_request (socket_id s child))]"
  by (auto simp: readSocketEnergy_def dest: iot_query_trace split: sum.splits prod.splits)

lemma sockets_loop_trace:
  "sockets_loop (traced_query Q) q s i children ta (w, tr) = (ta', q', w', tr') \<Longrightarrow>
    tr' = tr @ map (\<lambda>c. encoded (socket_request (socket_id s c))) children"
proof (induction children arbitrary: q i ta w tr)
  case (Cons child children)
  obtain r q1 w1 tr1 where r: "readSocketEnergy (traced_query Q) q s child (w, tr) = (r, q1, w1, tr1)"
    by (metis prod.collapse)
  have tr1: "tr1 = tr @ [encoded (socket_request (socket_id s child))]"
    using readSocketEnergy_trace [OF r] .
  have "sockets_loop (traced_query Q) q1 s (i + 1) children (tally_socket i child r ta) (w1, tr1) = (ta', q', w', tr')"
    using Cons.prems by (simp add: r)
  from Cons.IH [OF this] show ?case by (simp add: tr1)
qed simp

lemma sockets_loop_traced:
  assumes "sockets_loop (traced_query Q) q s i children ta (w, tr) = (ta', q', w', tr')"
  shows "tr' = tr @ map (\<lambda>c. encoded (socket_request (socket_id s c))) children
    \<and> iq_deviceHasEmeter q' = iq_deviceHasEmeter q"
  using sockets_loop_trace [OF assms] sockets_loop_flags [OF assms] by simp

lemma iot_query_traced:
  assumes "iot_query (traced_query Q) q request (w, tr) = (r, q', w', tr')"
  shows "tr' = tr @ [encoded request] \<and> iq_deviceHasEmeter q' = iq_deviceHasEmeter q"
  using iot_query_trace [OF assms] iot_query_flags [OF assms] by simp

lemma readSockets_trace:
  "readSockets (traced_query Q) q s reading (w, tr) = (r, q', w', tr') \<Longrightarrow>
    tr' = tr @ map (\<lambda>c. encoded (socket_request (socket_id s c))) (is_Children s)
    \<and> iq_deviceHasEmeter q' = iq_deviceHasEmeter q"
  by (auto simp: readSockets_def dest!: sockets_loop_traced split: if_splits prod.splits)

lemma retryEmeter_trace:
  "iot_retryEmeter (traced_query Q) q ty (w, tr) = (r, q', w', tr') \<Longrightarrow>
    tr' = tr @ (if ty = TypeBulb \<or> ty = TypeLightStrip then [encoded (jmap [emeter_member
        (if iq_emeterModule q = ''smartlife.iot.common.emeter'' then ''emeter'' else ''smartlife.iot.common.emeter'')])] else [])
    \<and> (iq_deviceHasEmeter q' \<longrightarrow> iq_deviceHasEmeter q \<and> (ty = TypeBulb \<or> ty = TypeLightStrip))"
  by (auto simp: iot_retryEmeter_def iotBulbEmeterModule_def iotEmeterModule_def Let_def dest!: iot_query_traced
      split: if_splits sum.splits prod.splits option.splits)

lemma iot_query_traced_eq:
  "iot_query (traced_query Q) q request (w, tr)
    = (case iot_query Q q request w of (r, q, w) \<Rightarrow> (r, q, w, tr @ [encoded request]))"
  by (simp add: iot_query_def traced_query_def encoded_def Let_def split: sum.split option.split prod.split)

lemma iotReading_type: "rd_Type (iotReading s) = deviceTypeFor (is_Model s) (iot_family s)"
  by (simp add: iotReading_def applyLightState_def Let_def split: option.split)

subsection \<open>Properties\<close>

text \<open>C12. A strip's reading is derived from its outlets: one socket per outlet in order, numbered from
  1 whatever its name, an error exactly when no outlet could be read, and as the strip's own
  figures the sums over the outlets that answered except voltage, which is taken from the first;
  the cumulative total is left out as soon as one outlet gave no reading.\<close>

theorem strip_derived_from_outlets:
  assumes "is_Children s \<noteq> []"
  shows "readSockets Q q s reading w =
    (case socket_results Q q s (is_Children s) w of (rs, q, w) \<Rightarrow>
      (strip_reading (is_Children s) rs reading, q, w))"
  using assms by (rule readSockets_spec)

definition two_outlets :: iotSysinfo where
  "two_outlets = zero_iotSysinfo\<lparr>is_DeviceID := ''8006'', is_Model := ''HS300(US)'',
     is_Children := [zero_iotChild\<lparr>ic_ID := ''00'', ic_Alias := ''Empty''\<rparr>,
                     zero_iotChild\<lparr>ic_ID := ''01'', ic_Alias := ''Empty''\<rparr>]\<rparr>"

text \<open>A transport whose state is the list of answers it still has to give.\<close>

fun scripted :: "(json list, unit) query_fun" where
  "scripted [] request w = (Inl (HttpError RequestFailed), [], w)"
| "scripted (j # js) request w = (Inr (encoded j), js, w)"

definition meter_answer :: "string \<Rightarrow> json" where
  "meter_answer watts = JObj [(''emeter'', JObj [(''get_realtime'',
     JObj [(''power'', JNum watts), (''voltage'', JNum ''120''), (''total'', JNum ''2'')])])]"

theorem strip_derived_from_outlets_witness:
  "fst (readSockets scripted (newIOTQuerier [meter_answer ''10'', meter_answer ''32'']) two_outlets empty_reading ()) =
     strip_reading (is_Children two_outlets)
       (fst (socket_results scripted (newIOTQuerier [meter_answer ''10'', meter_answer ''32'']) two_outlets
          (is_Children two_outlets) ())) empty_reading
   \<and> map_option PowerWatts (rd_Energy (projr (fst (readSockets scripted
        (newIOTQuerier [meter_answer ''10'', meter_answer ''32'']) two_outlets empty_reading ())))) = Some (Some (fint 42))"
  (is "_ \<and> ?e")
proof -
  have ne: "is_Children two_outlets \<noteq> []" by (simp add: two_outlets_def)
  have e: ?e by code_simp
  show ?thesis
    using strip_derived_from_outlets [OF ne, of scripted "newIOTQuerier [meter_answer ''10'', meter_answer ''32'']"
        empty_reading "()"] e by (simp split: prod.splits)
qed

text \<open>What a read asks after its first request, given the answer to that: for a usable sysinfo of a strip,
  every outlet in order; for one of a bulb or light strip that gave no meter reading while it is believed
  to have a meter, the other meter module; otherwise nothing.\<close>

definition follow_ups :: "'t iotQuerier \<Rightarrow> kasa_error + iotResponse \<Rightarrow> json list" where
  "follow_ups q answer =
     (case answer of
        Inl _ \<Rightarrow> []
      | Inr response \<Rightarrow>
          (case ir_System response of
             Some (Some s) \<Rightarrow>
               let ty = deviceTypeFor (is_Model s) (iot_family s) in
               if \<not> (is_ErrCode s = None \<or> is_ErrCode s = Some 0) then []
               else if ty = TypeStrip then map (\<lambda>c. socket_request (socket_id s c)) (is_Children s)
               else if (ty = TypeBulb \<or> ty = TypeLightStrip) \<and> response_emeter response = None \<and> iq_deviceHasEmeter q
               then [jmap [emeter_member
                 (if iq_emeterModule q = ''smartlife.iot.common.emeter'' then ''emeter'' else ''smartlife.iot.common.emeter'')]]
               else []
           | _ \<Rightarrow> []))"

text \<open>C27. A read asks what it must and no more: first the state request, and then, decided by the answer to
  that, exactly one request per outlet in order for a strip, one request for the other meter module for
  a bulb or light strip believed to have a meter that gave no reading, and nothing in every other case.
  A querier that has concluded there is no meter never changes its mind, and it concludes so for a strip
  and for anything but a light that gave no reading.\<close>

theorem iot_read_requests:
  assumes "iot_read (traced_query Q) q (w, []) = (r, q', w', tr)"
  defines "answer \<equiv> fst (iot_query Q q (state_request q) w)"
  shows "tr = map encoded (state_request q # follow_ups q answer)
    \<and> (iq_deviceHasEmeter q' \<longrightarrow> iq_deviceHasEmeter q)
    \<and> (\<forall>response s. answer = Inr response \<longrightarrow> ir_System response = Some (Some s) \<longrightarrow>
         (is_ErrCode s = None \<or> is_ErrCode s = Some 0) \<longrightarrow>
         (let ty = deviceTypeFor (is_Model s) (iot_family s) in
            ty = TypeStrip \<or> (response_emeter response = None \<and> ty \<noteq> TypeBulb \<and> ty \<noteq> TypeLightStrip)) \<longrightarrow>
         \<not> iq_deviceHasEmeter q')"
proof -
  obtain x q1 w1 where x: "iot_query Q q (state_request q) w = (x, q1, w1)" by (metis prod.collapse)
  have t: "iot_query (traced_query Q) q (state_request q) (w, []) = (x, q1, w1, [encoded (state_request q)])"
    by (simp add: iot_query_traced_eq x)
  have fl: "iq_deviceHasEmeter q1 = iq_deviceHasEmeter q" "iq_emeterModule q1 = iq_emeterModule q"
    using iot_query_flags [OF x] by simp_all
  have a: "answer = x" by (simp add: answer_def x)
  show ?thesis
  proof (cases "\<exists>response s. x = Inr response \<and> ir_System response = Some (Some s)")
    case True
    then obtain response s where s: "x = Inr response" "ir_System response = Some (Some s)" by blast
    show ?thesis
      using assms(1) fl unfolding a
      by (auto simp: iot_read_def t s follow_ups_def iotReading_type failed_def Let_def dest!: retryEmeter_trace readSockets_trace
          split: option.splits if_splits prod.splits)
  next
    case False
    then show ?thesis
      using assms(1) fl unfolding a
      by (auto simp: iot_read_def t follow_ups_def split: sum.splits option.splits bind_splits)
  qed
qed

definition bulb_answer :: json where
  "bulb_answer = JObj [(''system'', JObj [(''get_sysinfo'', JObj [(''model'', JStr ''LB130(US)'')])])]"

theorem iot_read_requests_witness:
  "\<exists>r q' w'. iot_read (traced_query scripted) (newIOTQuerier [bulb_answer, bulb_answer]) ((), []) =
     (r, q', w', [encoded (state_request (newIOTQuerier [bulb_answer])),
        encoded (jmap [emeter_member ''smartlife.iot.common.emeter''])])"
proof -
  let ?q = "newIOTQuerier [bulb_answer, bulb_answer]"
  obtain r q' w' tr where r: "iot_read (traced_query scripted) ?q ((), []) = (r, q', w', tr)" by (metis prod.collapse)
  have "follow_ups ?q (fst (iot_query scripted ?q (state_request ?q) ())) = [jmap [emeter_member ''smartlife.iot.common.emeter'']]"
    by code_simp
  moreover have "state_request ?q = state_request (newIOTQuerier [bulb_answer])"
    by (simp add: state_request_def newIOTQuerier_def)
  ultimately show ?thesis using iot_read_requests [OF r] r by simp
qed

text \<open>What a device answers for its state and its meter, from the two objects it reports.\<close>

definition state_answer :: "json \<Rightarrow> json \<Rightarrow> json" where
  "state_answer sysinfo meter =
     JObj [(''system'', JObj [(''get_sysinfo'', sysinfo)]), (''emeter'', JObj [(''get_realtime'', meter)])]"

lemma dec_struct_obj: "dec_struct fs (JObj ms) = dec_members fs ms"
  by (rule ext) (simp add: dec_struct_def)

lemma find_field_exact: "fs = (key, d) # fs' \<Longrightarrow> find_field fs key = Some (key, d)"
  by (simp add: find_field_def)

lemma dec_ptr_obj: "j \<noteq> JNull \<Longrightarrow> dec_ptr zero d j None = map_option Some (d j zero)"
  by (cases j) (simp_all add: dec_ptr_def)

lemma dec_state_answer:
  assumes "sysinfo \<noteq> JNull" "meter \<noteq> JNull"
    and "dec_iotSysinfo sysinfo zero_iotSysinfo = Some s" and "dec_iotEmeter meter zero_iotEmeter = Some m"
  shows "dec_iotResponse (state_answer sysinfo meter) zero_iotResponse =
    Some (zero_iotResponse\<lparr>ir_System := Some (Some s), ir_Emeter := Some (zero_iotEmeterResponse\<lparr>er_GetRealtime := Some m\<rparr>)\<rparr>)"
  using assms
  by (simp add: dec_iotResponse_def state_answer_def dec_struct_obj find_field_def field_dec_def dec_ptr_obj
      zero_iotResponse_def dec_iotEmeterResponse_def zero_iotEmeterResponse_def)

lemma wf_state_answer:
  "wf_json sysinfo \<Longrightarrow> wf_json meter \<Longrightarrow> depth sysinfo \<le> 9998 \<Longrightarrow> depth meter \<le> 9998 \<Longrightarrow>
    wf_json (state_answer sysinfo meter) \<and> depth (state_answer sysinfo meter) \<le> 10000"
  by (simp add: state_answer_def decode_rune_def)

lemma iot_query_answered:
  assumes "Q (iq_transport q) (encoded request) w = (Inr (encoded answer), t, w')"
    and "wf_json answer" "depth answer \<le> 10000" "dec_iotResponse answer zero_iotResponse = Some response"
  shows "iot_query Q q request w = (Inr response, q\<lparr>iq_transport := t\<rparr>, w')"
  using assms by (simp add: iot_query_def encoded_def unmarshal_marshal)

lemma iot_read_answered:
  assumes "Q (iq_transport q) (encoded (state_request q)) w = (Inr (encoded (state_answer sysinfo meter)), t, w')"
    and "wf_json sysinfo" "wf_json meter" "depth sysinfo \<le> 9998" "depth meter \<le> 9998"
    and "sysinfo \<noteq> JNull" "meter \<noteq> JNull"
    and "dec_iotSysinfo sysinfo zero_iotSysinfo = Some s" "dec_iotEmeter meter zero_iotEmeter = Some m"
    and "\<not> failed (is_ErrCode s)" "deviceTypeFor (is_Model s) (iot_family s) \<noteq> TypeStrip"
    and "\<not> failed (em_ErrCode m)"
  shows "iot_read Q q w = (Inr ((iotReading s)\<lparr>rd_Energy := iot_energy (Some m)\<rparr>), q\<lparr>iq_transport := t\<rparr>, w')"
proof -
  have ty: "rd_Type (iotReading s) = deviceTypeFor (is_Model s) (iot_family s)"
    by (simp add: iotReading_def applyLightState_def Let_def split: option.split)
  show ?thesis
    using iot_query_answered [of Q q "state_request q" w "state_answer sysinfo meter", OF assms(1)] wf_state_answer [OF assms(2-5)] dec_state_answer [OF assms(6-9)] assms(10,11) ty
    by (simp add: iot_read_def response_emeter_def realtime_def failed_def zero_iotEmeterResponse_def Let_def)
qed

text \<open>C28. One round trip reads a metered plug: when the device answers the state request with its
  sysinfo and its meter, whatever else those objects hold, the reading is sysinfo's with the
  meter's quantities in SI units, and nothing else is asked.\<close>

theorem iot_read_metered:
  assumes "Q (iq_transport q) (encoded (state_request q)) w = (Inr (encoded (state_answer sysinfo meter)), t, w')"
    and "wf_json sysinfo" "wf_json meter" "depth sysinfo \<le> 9998" "depth meter \<le> 9998"
    and "sysinfo \<noteq> JNull" "meter \<noteq> JNull"
    and "dec_iotSysinfo sysinfo zero_iotSysinfo = Some s" "dec_iotEmeter meter zero_iotEmeter = Some m"
    and "\<not> failed (is_ErrCode s)" "deviceTypeFor (is_Model s) (iot_family s) \<noteq> TypeStrip"
    and "\<not> failed (em_ErrCode m)"
  shows "iot_read Q q w = (Inr ((iotReading s)\<lparr>rd_Energy := iot_energy (Some m)\<rparr>), q\<lparr>iq_transport := t\<rparr>, w')"
  using assms by (rule iot_read_answered)

definition fridge :: json where
  "fridge = JObj [(''model'', JStr ''HS110(US)''), (''alias'', JStr ''Fridge''), (''relay_state'', jint 1)]"

definition fridge_meter :: json where
  "fridge_meter = JObj [(''power_mw'', JNum ''1500''), (''total_wh'', JNum ''2000'')]"

lemma fridge_wf:
  "wf_json fridge" "wf_json fridge_meter" "depth fridge \<le> 9998" "depth fridge_meter \<le> 9998"
  "fridge \<noteq> JNull" "fridge_meter \<noteq> JNull"
  by (simp_all add: fridge_def fridge_meter_def decode_rune_def number_literal_def scan_number_def scan_int_def
      is_digit_def scan_frac_def scan_exp_def)

theorem iot_read_metered_witness:
  "\<exists>r q'. iot_read scripted (newIOTQuerier [state_answer fridge fridge_meter]) () = (Inr r, q', ())
    \<and> rd_Type r = TypePlug \<and> rd_On r = Some True
    \<and> rd_Energy r = Some (no_energy\<lparr>PowerWatts := num_float ''1.5'', TotalKWh := Some (fint 2)\<rparr>)"
proof -
  let ?q = "newIOTQuerier [state_answer fridge fridge_meter]"
  let ?s = "the (dec_iotSysinfo fridge zero_iotSysinfo)" and ?m = "the (dec_iotEmeter fridge_meter zero_iotEmeter)"
  have s: "dec_iotSysinfo fridge zero_iotSysinfo = Some ?s" by code_simp
  have m: "dec_iotEmeter fridge_meter zero_iotEmeter = Some ?m" by code_simp
  note wf = fridge_wf
  have "iot_read scripted ?q () =
      (Inr ((iotReading ?s)\<lparr>rd_Energy := iot_energy (Some ?m)\<rparr>), ?q\<lparr>iq_transport := []\<rparr>, ())"
    using s m wf by (intro iot_read_metered [where sysinfo = fridge and meter = fridge_meter]) 
      (simp_all add: newIOTQuerier_def, (code_simp)+)
  moreover have "rd_Type (iotReading ?s) = TypePlug \<and> rd_On (iotReading ?s) = Some True" by code_simp
  moreover have "iot_energy (Some ?m) = Some (no_energy\<lparr>PowerWatts := num_float ''1.5'', TotalKWh := Some (fint 2)\<rparr>)"
    by code_simp
  ultimately show ?thesis by simp
qed

text \<open>While a light is off, what is reported are the settings it will return to, and its state is
  off; while it is on, the settings are its own.\<close>

theorem light_off_reports_default_state:
  assumes "is_LightState s = Some (LightState l (Some d))" and "ls_OnOff l = Some n"
  shows "let r = iotReading s; a = (if n = 0 then ls_settings d else l) in
      rd_On r = Some (n \<noteq> 0) \<and> rd_Hue r = ls_Hue a \<and> rd_Saturation r = ls_Saturation a
    \<and> rd_ColorTempKelvin r = ls_ColorTemp a
    \<and> rd_Brightness r = (case ls_Brightness a of None \<Rightarrow> is_Brightness s | Some b \<Rightarrow> Some b)"
  using assms by (auto simp: iotReading_def applyLightState_def Let_def split: option.split)

theorem light_off_reports_default_state_witness:
  "let off = ls_settings zero_iotLightState\<lparr>ls_OnOff := Some 0, ls_Brightness := Some fzero\<rparr>;
       stored = LightState (ls_settings zero_iotLightState\<lparr>ls_Brightness := Some (fint 75)\<rparr>) None;
       r = iotReading (zero_iotSysinfo\<lparr>is_LightState := Some (LightState off (Some stored))\<rparr>) in
   rd_On r = Some False \<and> rd_Brightness r = Some (fint 75)"
  using light_off_reports_default_state [of "zero_iotSysinfo\<lparr>is_LightState := Some (LightState
      (ls_settings zero_iotLightState\<lparr>ls_OnOff := Some 0, ls_Brightness := Some fzero\<rparr>)
      (Some (LightState (ls_settings zero_iotLightState\<lparr>ls_Brightness := Some (fint 75)\<rparr>) None)))\<rparr>"]
  by (simp add: Let_def)

text \<open>A meter reading is absent exactly when the module reported an error or no quantity at all;
  a quantity is absent exactly when no spelling of it was sent, so a quantity a device does not
  measure is never a zero.\<close>

theorem iot_energy_presence:
  "(iot_energy (Some m) = None \<longleftrightarrow>
      failed (em_ErrCode m) \<or>
      (em_PowerMW m = None \<and> em_Power m = None \<and> em_VoltageMV m = None \<and> em_Voltage m = None
       \<and> em_CurrentMA m = None \<and> em_Current m = None \<and> em_TotalWH m = None \<and> em_Total m = None
       \<and> em_EnergyWH m = None \<and> em_Energy m = None))
   \<and> (case iot_energy (Some m) of None \<Rightarrow> True | Some e \<Rightarrow>
       (PowerWatts e = None \<longleftrightarrow> em_PowerMW m = None \<and> em_Power m = None)
     \<and> (VoltageVolts e = None \<longleftrightarrow> em_VoltageMV m = None \<and> em_Voltage m = None)
     \<and> (CurrentAmperes e = None \<longleftrightarrow> em_CurrentMA m = None \<and> em_Current m = None)
     \<and> (TotalKWh e = None \<longleftrightarrow> em_TotalWH m = None \<and> em_Total m = None \<and> em_EnergyWH m = None \<and> em_Energy m = None))"
  by (auto simp: iot_energy_def scaled_or_def no_energy_def Let_def split: option.split)

text \<open>The strip's cumulative total can still be partial: an outlet that reports its power but not
  its total counts as measured, so a strip whose second outlet leaves its total out reports the
  first outlet's total as its own.\<close>

theorem strip_total_can_be_partial:
  "let full = no_energy\<lparr>PowerWatts := Some (fint 10), TotalKWh := Some (fint 7)\<rparr>;
       partial = no_energy\<lparr>PowerWatts := Some (fint 10)\<rparr>;
       ta = tally_socket 1 zero_iotChild (Inr (Some partial))
              (tally_socket 0 zero_iotChild (Inr (Some full)) (start_tally [])) in
   case finish_sockets 2 ta empty_reading of
     Inr r \<Rightarrow> map_option TotalKWh (rd_Energy r) = Some (Some (fint 7))
   | Inl _ \<Rightarrow> False"
  by code_simp

end
