(* ===== verification/Base64.thy ===== *)
theory Base64
  imports Prelude
begin

text \<open>
  \<^verbatim>\<open>encoding/base64\<close>'s standard encoding: padded output, and a decoder that skips carriage
  returns and newlines and rejects everything else outside the alphabet, missing padding and
  anything after it.
\<close>

definition b64_char :: "int \<Rightarrow> char" where
  "b64_char i =
     char_of (if i < 26 then 65 + i else if i < 52 then 71 + i else if i < 62 then i - 4
              else if i = 62 then 43 else 47)"

definition b64_val :: "char \<Rightarrow> int option" where
  "b64_val c =
     (let n = of_char c :: int in
      if 65 \<le> n \<and> n \<le> 90 then Some (n - 65)
      else if 97 \<le> n \<and> n \<le> 122 then Some (n - 71)
      else if 48 \<le> n \<and> n \<le> 57 then Some (n + 4)
      else if n = 43 then Some 62
      else if n = 47 then Some 63
      else None)"

abbreviation pad_char :: char where "pad_char \<equiv> CHR ''=''"

fun b64_encode :: "byte list \<Rightarrow> string" where
  "b64_encode [] = []"
| "b64_encode [a] =
     (let n = uint a * 16 in [b64_char (n div 64), b64_char (n mod 64), pad_char, pad_char])"
| "b64_encode [a, b] =
     (let n = (uint a * 256 + uint b) * 4 in
      [b64_char (n div 4096), b64_char (n div 64 mod 64), b64_char (n mod 64), pad_char])"
| "b64_encode (a # b # c # r) =
     (let n = (uint a * 256 + uint b) * 256 + uint c in
      [b64_char (n div 262144), b64_char (n div 4096 mod 64), b64_char (n div 64 mod 64), b64_char (n mod 64)]
        @ b64_encode r)"

fun b64_quanta :: "string \<Rightarrow> byte list option" where
  "b64_quanta [] = Some []"
| "b64_quanta (a # b # c # d # r) =
     (case (b64_val a, b64_val b) of
        (Some w, Some x) \<Rightarrow>
          if c = pad_char then
            (if d = pad_char \<and> r = [] then Some [word_of_int ((w * 64 + x) div 16)] else None)
          else (case b64_val c of
              None \<Rightarrow> None
            | Some y \<Rightarrow>
                if d = pad_char then
                  (if r = [] then
                     (let n = ((w * 64 + x) * 64 + y) div 4 in
                      Some [word_of_int (n div 256), word_of_int (n mod 256)])
                   else None)
                else (case b64_val d of
                    None \<Rightarrow> None
                  | Some z \<Rightarrow>
                      let n = ((w * 64 + x) * 64 + y) * 64 + z in
                      map_option (\<lambda>bs. [word_of_int (n div 65536), word_of_int (n div 256 mod 256),
                          word_of_int (n mod 256)] @ bs) (b64_quanta r)))
      | _ \<Rightarrow> None)"
| "b64_quanta _ = None"

definition b64_decode :: "string \<Rightarrow> byte list option" where
  "b64_decode s = b64_quanta (filter (\<lambda>c. c \<noteq> CHR 0x0A \<and> c \<noteq> CHR 0x0D) s)"

subsection \<open>Round trip\<close>

lemma of_char_char_of_int: "0 \<le> n \<Longrightarrow> n < 256 \<Longrightarrow> of_char (char_of n) = (n :: int)"
  by simp

lemma b64_val_char:
  assumes "0 \<le> i" "i < 64"
  shows "b64_val (b64_char i) = Some i"
    and "b64_char i \<noteq> pad_char" "b64_char i \<noteq> CHR 0x0A" "b64_char i \<noteq> CHR 0x0D"
proof -
  let ?n = "if i < 26 then 65 + i else if i < 52 then 71 + i else if i < 62 then i - 4
              else if i = 62 then 43 else (47 :: int)"
  have n: "of_char (b64_char i) = ?n" unfolding b64_char_def using assms by (intro of_char_char_of_int) auto
  show "b64_val (b64_char i) = Some i" using assms by (auto simp: b64_val_def n Let_def)
  have "of_char (b64_char i) \<noteq> (61 :: int)" "of_char (b64_char i) \<noteq> (10 :: int)" "of_char (b64_char i) \<noteq> (13 :: int)"
    unfolding n using assms by auto
  then show "b64_char i \<noteq> pad_char" "b64_char i \<noteq> CHR 0x0A" "b64_char i \<noteq> CHR 0x0D" by auto
qed

lemma uint_byte: "0 \<le> uint (a :: byte)" "uint (a :: byte) < 256"
  using uint_lt2p [of a] by simp_all

lemma word_of_uint: "n = uint (a :: byte) \<Longrightarrow> word_of_int n = a"
  by simp

lemma join_quantum:
  "(n :: int) div 262144 * 64 + n div 4096 mod 64 = n div 4096"
  "n div 4096 * 64 + n div 64 mod 64 = n div 64"
  "n div 64 * 64 + n mod 64 = n"
proof -
  show "n div 64 * 64 + n mod 64 = n" by (rule div_mult_mod_eq)
  have "n div 4096 = n div 64 div 64" by (simp add: zdiv_zmult2_eq)
  then show "n div 4096 * 64 + n div 64 mod 64 = n div 64" by (simp only: div_mult_mod_eq)
  have "n div 262144 = n div 4096 div 64" by (simp add: zdiv_zmult2_eq)
  then show "n div 262144 * 64 + n div 4096 mod 64 = n div 4096" by (simp only: div_mult_mod_eq)
qed

lemma split_bytes:
  assumes "0 \<le> b" "b < 256" "0 \<le> c" "c < (256 :: int)"
  shows "((a * 256 + b) * 256 + c) div 65536 = a" "((a * 256 + b) * 256 + c) div 256 mod 256 = b"
    "((a * 256 + b) * 256 + c) mod 256 = c" "(a * 256 + b) div 256 = a" "(a * 256 + b) mod 256 = b"
proof -
  have d: "((a * 256 + b) * 256 + c) div 256 = a * 256 + b" using assms by simp
  have "((a * 256 + b) * 256 + c) div 65536 = ((a * 256 + b) * 256 + c) div 256 div 256"
    by (simp flip: zdiv_zmult2_eq)
  then show "((a * 256 + b) * 256 + c) div 65536 = a" unfolding d using assms by simp
  show "((a * 256 + b) * 256 + c) div 256 mod 256 = b" unfolding d using assms by simp
  have "c mod 256 = ((a * 256 + b) * 256 + c) mod 256" by (rule mod_mult_self3 [symmetric])
  then show "((a * 256 + b) * 256 + c) mod 256 = c" using assms by (simp del: mod_mult_self3)
  show "(a * 256 + b) div 256 = a" "(a * 256 + b) mod 256 = b" using assms by simp_all
qed

definition clean :: "string \<Rightarrow> bool" where
  "clean s \<longleftrightarrow> list_all (\<lambda>c. c \<noteq> CHR 0x0A \<and> c \<noteq> CHR 0x0D) s"

lemma mod64_range: "0 \<le> (n :: int) mod 64" "n mod 64 < 64"
  by simp_all

lemma b64_quanta_encode: "b64_quanta (b64_encode bs) = Some bs \<and> clean (b64_encode bs)"
proof (induction bs rule: b64_encode.induct)
  case 1
  then show ?case by (simp add: clean_def)
next
  case (2 a)
  define n where "n = uint a * 16"
  have "0 \<le> n" "n < 64 * 64" using uint_byte [of a] by (simp_all add: n_def)
  then have r: "0 \<le> n div 64" "n div 64 < 64" by linarith+
  have j: "n div 64 * 64 + n mod 64 = n" by (rule join_quantum)
  have "n div 16 = uint a" by (simp add: n_def)
  then show ?case
    by (simp add: n_def [symmetric] b64_val_char r j clean_def)
next
  case (3 a b)
  define n where "n = (uint a * 256 + uint b) * 4"
  have "0 \<le> n" "n < 4096 * 64" using uint_byte [of a] uint_byte [of b] by (simp_all add: n_def)
  then have r: "0 \<le> n div 4096" "n div 4096 < 64" by linarith+
  have "n div 4 = uint a * 256 + uint b" by (simp add: n_def)
  then show ?case
    using split_bytes(4,5) [of "uint b" 0 "uint a"] uint_byte [of b]
    unfolding b64_encode.simps Let_def n_def [symmetric]
    by (simp add: b64_val_char r join_quantum clean_def)
next
  case (4 a b c r)
  define n where "n = (uint a * 256 + uint b) * 256 + uint c"
  have "0 \<le> n" "n < 262144 * 64"
    using uint_byte [of a] uint_byte [of b] uint_byte [of c] by (simp_all add: n_def)
  then have q: "0 \<le> n div 262144" "n div 262144 < 64" by linarith+
  have "n div 65536 = uint a" "n div 256 mod 256 = uint b" "n mod 256 = uint c"
    unfolding n_def using uint_byte [of b] uint_byte [of c] by (simp_all only: split_bytes)
  then show ?case
    using 4 unfolding b64_encode.simps Let_def n_def [symmetric]
    by (simp add: b64_val_char q join_quantum clean_def)
qed

lemma b64_decode_encode [simp]: "b64_decode (b64_encode bs) = Some bs"
proof -
  have "filter (\<lambda>c. c \<noteq> CHR 0x0A \<and> c \<noteq> CHR 0x0D) (b64_encode bs) = b64_encode bs"
    using b64_quanta_encode [of bs] by (simp add: clean_def list_all_iff filter_id_conv)
  then show ?thesis using b64_quanta_encode [of bs] by (simp add: b64_decode_def)
qed

interpretation base64: codec b64_encode b64_decode "\<lambda>_. True"
  by unfold_locales simp

lemma b64_encode_eq_Nil [simp]: "b64_encode bs = [] \<longleftrightarrow> bs = []"
  by (cases bs rule: b64_encode.cases) (simp_all add: Let_def)

end
