(* ===== verification/Smart.thy ===== *)
theory Smart
  imports Iot Base64
begin

text \<open>
  The SMART dialect, \<^verbatim>\<open>kasa/smart.go\<close>: what device information, the energy methods and the child
  list decode to, the batched request, and the querier that stops asking for methods a device
  leaves unanswered.
\<close>

definition smartGetDeviceInfo :: string where "smartGetDeviceInfo = ''get_device_info''"
definition smartGetEnergyUsage :: string where "smartGetEnergyUsage = ''get_energy_usage''"
definition smartGetCurrentPower :: string where "smartGetCurrentPower = ''get_current_power''"
definition smartGetChildDeviceList :: string where "smartGetChildDeviceList = ''get_child_device_list''"
definition smartMultipleRequest :: string where "smartMultipleRequest = ''multipleRequest''"
definition terminalUUID :: string where "terminalUUID = ''00000000-0000-0000-0000-000000000000''"

lemmas smart_methods = smartGetDeviceInfo_def smartGetEnergyUsage_def smartGetCurrentPower_def
  smartGetChildDeviceList_def smartMultipleRequest_def

text \<open>
  The shared request counter (\<^verbatim>\<open>atomic.Int64\<close>, which wraps) and the wall clock, as parts of the
  world.
\<close>

record 'w smart_env =
  request_id :: "'w \<Rightarrow> 64 word"
  set_request_id :: "64 word \<Rightarrow> 'w \<Rightarrow> 'w"
  unix_milli :: "'w \<Rightarrow> int"

record 't smartQuerier =
  sq_transport :: 't
  sq_wantsEnergy :: bool
  sq_wantsPower :: bool
  sq_wantsChildren :: bool

definition newSMARTQuerier :: "'t \<Rightarrow> 't smartQuerier" where
  "newSMARTQuerier t =
     \<lparr>sq_transport = t, sq_wantsEnergy = True, sq_wantsPower = True, sq_wantsChildren = True\<rparr>"

subsection \<open>What the device reports\<close>

record smartEnvelope =
  sv_ErrorCode :: int
  sv_Result :: "json option"

definition dec_smartEnvelope :: "smartEnvelope decoder" where
  "dec_smartEnvelope = dec_struct
     [(''error_code'', field_dec dec_int sv_ErrorCode sv_ErrorCode_update),
      (''result'', field_dec dec_raw sv_Result sv_Result_update)]"

record smartBatchResponse =
  br_Method :: string
  br_ErrorCode :: int
  br_Result :: "json option"

definition zero_smartBatchResponse :: smartBatchResponse where
  "zero_smartBatchResponse = \<lparr>br_Method = [], br_ErrorCode = 0, br_Result = None\<rparr>"

definition dec_smartBatchResponse :: "smartBatchResponse decoder" where
  "dec_smartBatchResponse = dec_struct
     [(''method'', field_dec dec_string br_Method br_Method_update),
      (''error_code'', field_dec dec_int br_ErrorCode br_ErrorCode_update),
      (''result'', field_dec dec_raw br_Result br_Result_update)]"

record smartDeviceInfo =
  di_DeviceID :: string
  di_Model :: string
  di_Type :: string
  di_HWVer :: string
  di_FWVer :: string
  di_MAC :: string
  di_Nickname :: string
  di_DeviceOn :: "bool option"
  di_OnTime :: "float64 option"
  di_Overheated :: "bool option"
  di_RSSI :: "float64 option"
  di_SignalLevel :: "float64 option"
  di_Brightness :: "float64 option"
  di_ColorTemp :: "float64 option"
  di_Hue :: "float64 option"
  di_Saturation :: "float64 option"
  di_LEDOff :: "int option"
  di_Position :: "int option"
  di_Category :: string
  di_Status :: string
  di_AtLowBattery :: "bool option"
  di_BatteryPercentage :: "float64 option"
  di_CurrentTemp :: "float64 option"
  di_CurrentHumidity :: "float64 option"
  di_TempUnit :: string

definition zero_smartDeviceInfo :: smartDeviceInfo where
  "zero_smartDeviceInfo =
     \<lparr>di_DeviceID = [], di_Model = [], di_Type = [], di_HWVer = [], di_FWVer = [], di_MAC = [],
      di_Nickname = [], di_DeviceOn = None, di_OnTime = None, di_Overheated = None,
      di_RSSI = None, di_SignalLevel = None, di_Brightness = None, di_ColorTemp = None,
      di_Hue = None, di_Saturation = None, di_LEDOff = None, di_Position = None,
      di_Category = [], di_Status = [], di_AtLowBattery = None, di_BatteryPercentage = None,
      di_CurrentTemp = None, di_CurrentHumidity = None, di_TempUnit = []\<rparr>"

definition dec_smartDeviceInfo :: "smartDeviceInfo decoder" where
  "dec_smartDeviceInfo = dec_struct
     [(''device_id'', field_dec dec_string di_DeviceID di_DeviceID_update),
      (''model'', field_dec dec_string di_Model di_Model_update),
      (''type'', field_dec dec_string di_Type di_Type_update),
      (''hw_ver'', field_dec dec_string di_HWVer di_HWVer_update),
      (''fw_ver'', field_dec dec_string di_FWVer di_FWVer_update),
      (''mac'', field_dec dec_string di_MAC di_MAC_update),
      (''nickname'', field_dec dec_string di_Nickname di_Nickname_update),
      (''device_on'', field_dec dec_pbool di_DeviceOn di_DeviceOn_update),
      (''on_time'', field_dec dec_pfloat di_OnTime di_OnTime_update),
      (''overheated'', field_dec dec_pbool di_Overheated di_Overheated_update),
      (''rssi'', field_dec dec_pfloat di_RSSI di_RSSI_update),
      (''signal_level'', field_dec dec_pfloat di_SignalLevel di_SignalLevel_update),
      (''brightness'', field_dec dec_pfloat di_Brightness di_Brightness_update),
      (''color_temp'', field_dec dec_pfloat di_ColorTemp di_ColorTemp_update),
      (''hue'', field_dec dec_pfloat di_Hue di_Hue_update),
      (''saturation'', field_dec dec_pfloat di_Saturation di_Saturation_update),
      (''led_off'', field_dec dec_pint di_LEDOff di_LEDOff_update),
      (''position'', field_dec dec_pint di_Position di_Position_update),
      (''category'', field_dec dec_string di_Category di_Category_update),
      (''status'', field_dec dec_string di_Status di_Status_update),
      (''at_low_battery'', field_dec dec_pbool di_AtLowBattery di_AtLowBattery_update),
      (''battery_percentage'', field_dec dec_pfloat di_BatteryPercentage di_BatteryPercentage_update),
      (''current_temp'', field_dec dec_pfloat di_CurrentTemp di_CurrentTemp_update),
      (''current_humidity'', field_dec dec_pfloat di_CurrentHumidity di_CurrentHumidity_update),
      (''temp_unit'', field_dec dec_string di_TempUnit di_TempUnit_update)]"

definition isPrintable :: "string \<Rightarrow> bool" where
  "isPrintable b \<longleftrightarrow> b \<noteq> [] \<and> valid_utf8 b \<and> \<not> list_ex is_control (runes b)"

definition smart_alias :: "smartDeviceInfo \<Rightarrow> string" where
  "smart_alias i =
     (if di_Nickname i = [] then []
      else case b64_decode (di_Nickname i) of
          None \<Rightarrow> di_Nickname i
        | Some decoded \<Rightarrow> if isPrintable (string_of decoded) then string_of decoded else di_Nickname i)"

record smartEnergyUsage =
  eu_CurrentPowerMW :: "float64 option"
  eu_TodayEnergyWH :: "float64 option"
  eu_MonthEnergyWH :: "float64 option"

definition dec_smartEnergyUsage :: "smartEnergyUsage decoder" where
  "dec_smartEnergyUsage = dec_struct
     [(''current_power'', field_dec dec_pfloat eu_CurrentPowerMW eu_CurrentPowerMW_update),
      (''today_energy'', field_dec dec_pfloat eu_TodayEnergyWH eu_TodayEnergyWH_update),
      (''month_energy'', field_dec dec_pfloat eu_MonthEnergyWH eu_MonthEnergyWH_update)]"

definition zero_smartEnergyUsage :: smartEnergyUsage where
  "zero_smartEnergyUsage = \<lparr>eu_CurrentPowerMW = None, eu_TodayEnergyWH = None, eu_MonthEnergyWH = None\<rparr>"

text \<open>\<^verbatim>\<open>smartCurrentPower\<close> has one field, the power in watts.\<close>

definition dec_smartCurrentPower :: "float64 option decoder" where
  "dec_smartCurrentPower = dec_struct [(''current_power'', dec_pfloat)]"

text \<open>\<^verbatim>\<open>smartChildList\<close> has one field, the children.\<close>

definition dec_smartChildList :: "smartDeviceInfo list decoder" where
  "dec_smartChildList = dec_struct
     [(''child_device_list'', dec_slice zero_smartDeviceInfo dec_smartDeviceInfo)]"

subsection \<open>Requests\<close>

definition smartRequest ::
  "'w smart_env \<Rightarrow> string \<Rightarrow> json option \<Rightarrow> 'w \<Rightarrow> json \<times> 'w" where
  "smartRequest S method params w =
     (let w = set_request_id S (request_id S w + 1) w in
      (jmap ([(''method'', JStr method), (''requestID'', jint (sint (request_id S w))),
              (''request_time_milis'', jint (unix_milli S w)), (''terminal_uuid'', JStr terminalUUID)]
             @ (case params of None \<Rightarrow> [] | Some p \<Rightarrow> [(''params'', p)])), w))"

definition smart_query ::
  "('t, 'w) query_fun \<Rightarrow> 't smartQuerier \<Rightarrow> json \<Rightarrow> 'w
     \<Rightarrow> (kasa_error + json option) \<times> 't smartQuerier \<times> 'w" where
  "smart_query Q q request w =
     (case Q (sq_transport q) (bytes_of (marshal request)) w of (r, t, w) \<Rightarrow>
      let q = q\<lparr>sq_transport := t\<rparr> in
      case r of
        Inl e \<Rightarrow> (Inl e, q, w)
      | Inr raw \<Rightarrow>
          (case unmarshal dec_smartEnvelope \<lparr>sv_ErrorCode = 0, sv_Result = None\<rparr> (string_of raw) of
             None \<Rightarrow> (Inl (DialectError BadResponse), q, w)
           | Some envelope \<Rightarrow>
               if sv_ErrorCode envelope \<noteq> 0
               then (Inl (DialectError (DeviceErrorCode (sv_ErrorCode envelope))), q, w)
               else (Inr (sv_Result envelope), q, w)))"

type_synonym results = "string \<Rightarrow> json option"

text \<open>The answered methods, a later answer for a method replacing an earlier one.\<close>

definition batch_results :: "smartBatchResponse list \<Rightarrow> results" where
  "batch_results responses =
     foldl (\<lambda>out r. if br_ErrorCode r = 0 then
              (case br_Result r of None \<Rightarrow> out | Some j \<Rightarrow> out(br_Method r \<mapsto> j)) else out)
       (\<lambda>_. None) responses"

definition batch_params :: "string list \<Rightarrow> json" where
  "batch_params methods =
     jmap [(''requests'', JArr (map (\<lambda>m. jmap [(''method'', JStr m)]) methods))]"

definition smart_batch ::
  "('t, 'w) query_fun \<Rightarrow> 'w smart_env \<Rightarrow> 't smartQuerier \<Rightarrow> string list \<Rightarrow> 'w
     \<Rightarrow> (kasa_error + results) \<times> 't smartQuerier \<times> 'w" where
  "smart_batch Q S q methods w =
     (case smartRequest S smartMultipleRequest (Some (batch_params methods)) w of (request, w) \<Rightarrow>
      case smart_query Q q request w of
        (Inl e, q, w) \<Rightarrow> (Inl e, q, w)
      | (Inr result, q, w) \<Rightarrow>
          (case Option.bind result (\<lambda>j. dec_struct
               [(''responses'', dec_slice zero_smartBatchResponse dec_smartBatchResponse)] j []) of
             None \<Rightarrow> (Inl (DialectError BadBatch), q, w)
           | Some responses \<Rightarrow> (Inr (batch_results responses), q, w)))"

subsection \<open>The reading\<close>

definition smartReading :: "smartDeviceInfo \<Rightarrow> Reading" where
  "smartReading i = empty_reading
     \<lparr>rd_Alias := smart_alias i, rd_Model := di_Model i, rd_DeviceID := di_DeviceID i,
      rd_HardwareVersion := di_HWVer i, rd_FirmwareVersion := di_FWVer i, rd_MAC := di_MAC i,
      rd_Type := deviceTypeFor (di_Model i) (di_Type i), rd_Protocol := ProtocolSMART,
      rd_On := di_DeviceOn i, rd_Overheated := di_Overheated i, rd_RSSI := di_RSSI i,
      rd_SignalLevel := di_SignalLevel i, rd_UptimeSeconds := di_OnTime i,
      rd_Brightness := di_Brightness i, rd_ColorTempKelvin := di_ColorTemp i,
      rd_Hue := di_Hue i, rd_Saturation := di_Saturation i,
      rd_LEDOn := map_option (\<lambda>n. n = 0) (di_LEDOff i)\<rparr>"

definition smart_socket :: "nat \<Rightarrow> smartDeviceInfo \<Rightarrow> Socket" where
  "smart_socket i child =
     \<lparr>so_ID = (case di_Position child of None \<Rightarrow> itoa (int (i + 1)) | Some p \<Rightarrow> itoa (wrap64 (p + 1))),
      so_Alias = smart_alias child, so_On = di_DeviceOn child,
      so_UptimeSeconds = di_OnTime child, so_Energy = None\<rparr>"

fun smart_sockets_from :: "nat \<Rightarrow> smartDeviceInfo list \<Rightarrow> Socket list" where
  "smart_sockets_from i [] = []"
| "smart_sockets_from i (child # children) = smart_socket i child # smart_sockets_from (i + 1) children"

definition smartSockets :: "smartDeviceInfo list \<Rightarrow> Socket list" where
  "smartSockets children = smart_sockets_from 0 children"

definition to_celsius :: "float64 \<Rightarrow> float64" where
  "to_celsius temp = fdiv (fmul (fsub temp (fint 32)) (fint 5)) (fint 9)"

definition smart_child :: "smartDeviceInfo \<Rightarrow> Child" where
  "smart_child child =
     \<lparr>ch_ID = di_DeviceID child, ch_Alias = smart_alias child, ch_Model = di_Model child,
      ch_Category = di_Category child,
      ch_Online = (if di_Status child = [] then None else Some (equal_fold (di_Status child) ''online'')),
      ch_BatteryPercent = di_BatteryPercentage child, ch_BatteryLow = di_AtLowBattery child,
      ch_TemperatureCelsius = map_option (\<lambda>temp.
          if equal_fold (di_TempUnit child) ''fahrenheit'' then to_celsius temp else temp) (di_CurrentTemp child),
      ch_HumidityPercent = di_CurrentHumidity child, ch_SignalLevel = di_SignalLevel child,
      ch_RSSI = di_RSSI child\<rparr>"

definition smartChildren :: "smartDeviceInfo list \<Rightarrow> Child list" where
  "smartChildren children = map smart_child children"

definition applyChildren :: "Reading \<Rightarrow> json \<Rightarrow> Reading" where
  "applyChildren reading raw =
     (case dec_smartChildList raw [] of
        None \<Rightarrow> reading
      | Some [] \<Rightarrow> reading
      | Some children \<Rightarrow>
          if rd_Type reading = TypeHub then reading\<lparr>rd_Children := smartChildren children\<rparr>
          else reading\<lparr>rd_Type := TypeStrip, rd_Sockets := smartSockets children\<rparr>)"

text \<open>The two energy methods merged; a silent method is not wanted any more.\<close>

definition readEnergy :: "results \<Rightarrow> 't smartQuerier \<Rightarrow> Energy option \<times> 't smartQuerier" where
  "readEnergy results q =
     (let (out, q) = (case results smartGetEnergyUsage of
            Some raw \<Rightarrow>
              (case dec_smartEnergyUsage raw zero_smartEnergyUsage of
                 None \<Rightarrow> no_energy
               | Some usage \<Rightarrow> no_energy\<lparr>PowerWatts := map_option milli (eu_CurrentPowerMW usage),
                   TotalKWh := map_option milli (eu_MonthEnergyWH usage)\<rparr>, q)
          | None \<Rightarrow> (no_energy, q\<lparr>sq_wantsEnergy := False\<rparr>));
          (out, q) = (case results smartGetCurrentPower of
            Some raw \<Rightarrow>
              (case dec_smartCurrentPower raw None of
                 Some (Some watts) \<Rightarrow> out\<lparr>PowerWatts := Some watts\<rparr>
               | _ \<Rightarrow> out, q)
          | None \<Rightarrow> (out, q\<lparr>sq_wantsPower := False\<rparr>)) in
      (if PowerWatts out = None \<and> TotalKWh out = None then None else Some out, q))"

definition wanted_methods :: "'t smartQuerier \<Rightarrow> string list" where
  "wanted_methods q =
     [smartGetDeviceInfo]
     @ (if sq_wantsEnergy q then [smartGetEnergyUsage] else [])
     @ (if sq_wantsPower q then [smartGetCurrentPower] else [])
     @ (if sq_wantsChildren q then [smartGetChildDeviceList] else [])"

text \<open>The reading once the device information is there.\<close>

definition smart_assemble ::
  "results \<Rightarrow> json option \<Rightarrow> 't smartQuerier \<Rightarrow> (kasa_error + Reading) \<times> 't smartQuerier" where
  "smart_assemble results rawInfo q =
     (case Option.bind rawInfo (\<lambda>j. dec_smartDeviceInfo j zero_smartDeviceInfo) of
        None \<Rightarrow> (Inl (DialectError BadDeviceInfo), q)
      | Some info \<Rightarrow>
      let reading = smartReading info; (energy, q) = readEnergy results q;
          reading = reading\<lparr>rd_Energy := energy\<rparr> in
      case results smartGetChildDeviceList of
        Some raw \<Rightarrow> (Inr (applyChildren reading raw), q)
      | None \<Rightarrow> (Inr reading, q\<lparr>sq_wantsChildren := False\<rparr>))"

definition smart_read ::
  "('t, 'w) query_fun \<Rightarrow> 'w smart_env \<Rightarrow> 't smartQuerier \<Rightarrow> 'w
     \<Rightarrow> (kasa_error + Reading) \<times> 't smartQuerier \<times> 'w" where
  "smart_read Q S q w =
     (case smart_batch Q S q (wanted_methods q) w of
        (Inl e, q, w) \<Rightarrow> (Inl e, q, w)
      | (Inr results, q, w) \<Rightarrow>
      case results smartGetDeviceInfo of
        Some rawInfo \<Rightarrow> (case smart_assemble results (Some rawInfo) q of (r, q) \<Rightarrow> (r, q, w))
      | None \<Rightarrow>
          (case smartRequest S smartGetDeviceInfo None w of (request, w) \<Rightarrow>
           case smart_query Q q request w of
             (Inl e, q, w) \<Rightarrow> (Inl e, q, w)
           | (Inr rawInfo, q, w) \<Rightarrow> (case smart_assemble results rawInfo q of (r, q) \<Rightarrow> (r, q, w))))"

definition smart_close :: "('t \<Rightarrow> 't) \<Rightarrow> 't smartQuerier \<Rightarrow> 't smartQuerier" where
  "smart_close C q = q\<lparr>sq_transport := C (sq_transport q)\<rparr>"

subsection \<open>What a read does to the transport and to the querier\<close>

text \<open>The methods a querier still asks for are fewer and fewer.\<close>

definition wants_le :: "'t smartQuerier \<Rightarrow> 't smartQuerier \<Rightarrow> bool" where
  "wants_le q' q \<longleftrightarrow> (sq_wantsEnergy q' \<longrightarrow> sq_wantsEnergy q) \<and> (sq_wantsPower q' \<longrightarrow> sq_wantsPower q)
     \<and> (sq_wantsChildren q' \<longrightarrow> sq_wantsChildren q)"

definition same_wants :: "'t smartQuerier \<Rightarrow> 't smartQuerier \<Rightarrow> bool" where
  "same_wants q' q \<longleftrightarrow> sq_wantsEnergy q' = sq_wantsEnergy q \<and> sq_wantsPower q' = sq_wantsPower q
     \<and> sq_wantsChildren q' = sq_wantsChildren q"

lemma smart_query_wants: "smart_query Q q request w = (r, q', w') \<Longrightarrow> same_wants q' q"
  by (auto simp: smart_query_def same_wants_def Let_def split: sum.splits option.splits prod.splits if_splits)

lemma smart_batch_wants: "smart_batch Q S q methods w = (r, q', w') \<Longrightarrow> same_wants q' q"
  by (auto simp: smart_batch_def dest!: smart_query_wants split: sum.splits option.splits prod.splits)

lemma readEnergy_frame:
  "readEnergy results q = (e, q') \<Longrightarrow>
    sq_transport q' = sq_transport q \<and> sq_wantsChildren q' = sq_wantsChildren q
    \<and> sq_wantsEnergy q' = (sq_wantsEnergy q \<and> results smartGetEnergyUsage \<noteq> None)
    \<and> sq_wantsPower q' = (sq_wantsPower q \<and> results smartGetCurrentPower \<noteq> None)"
  by (auto simp: readEnergy_def Let_def split: option.splits if_splits)

lemma smart_assemble_frame:
  "smart_assemble results rawInfo q = (r, q') \<Longrightarrow> sq_transport q' = sq_transport q"
  by (auto simp: smart_assemble_def Let_def dest!: readEnergy_frame split: option.splits prod.splits)

text \<open>After a reading, what is still wanted is what was wanted and answered.\<close>

lemma smart_assemble_wants:
  "smart_assemble results rawInfo q = (Inr reading, q') \<Longrightarrow>
    sq_wantsEnergy q' = (sq_wantsEnergy q \<and> results smartGetEnergyUsage \<noteq> None)
    \<and> sq_wantsPower q' = (sq_wantsPower q \<and> results smartGetCurrentPower \<noteq> None)
    \<and> sq_wantsChildren q' = (sq_wantsChildren q \<and> results smartGetChildDeviceList \<noteq> None)"
  by (auto simp: smart_assemble_def Let_def dest!: readEnergy_frame split: option.splits prod.splits)

lemma smart_assemble_le: "smart_assemble results rawInfo q = (r, q') \<Longrightarrow> wants_le q' q"
  by (auto simp: smart_assemble_def wants_le_def Let_def dest!: readEnergy_frame split: option.splits prod.splits)

lemma wants_le_trans: "same_wants q1 q \<Longrightarrow> wants_le q2 q1 \<Longrightarrow> wants_le q2 q"
  by (simp add: same_wants_def wants_le_def)

context transport
begin

lemma smart_query_talk:
  "smart_query query q request w = (r, q', w') \<Longrightarrow> talk (sq_transport q) (sq_transport q')"
  by (auto simp: smart_query_def Let_def intro: talk_one split: sum.splits option.splits prod.splits if_splits)

lemma smart_batch_talk:
  "smart_batch query S q methods w = (r, q', w') \<Longrightarrow> talk (sq_transport q) (sq_transport q')"
  by (auto simp: smart_batch_def dest!: smart_query_talk split: sum.splits option.splits prod.splits)

lemma smart_read_talk:
  assumes "smart_read query S q w = (r, q', w')"
  shows "talk (sq_transport q) (sq_transport q')"
proof -
  obtain x q1 w1 where x: "smart_batch query S q (wanted_methods q) w = (x, q1, w1)"
    by (metis prod.collapse)
  have t: "talk (sq_transport q) (sq_transport q1)" using smart_batch_talk [OF x] .
  show ?thesis
    using assms t
    by (auto simp: smart_read_def x dest!: smart_query_talk smart_assemble_frame
        split: sum.splits option.splits prod.splits intro: talk_trans)
qed

lemma smart_read_valid: "smart_read query S q w = (r, q', w') \<Longrightarrow> valid (sq_transport q) \<Longrightarrow> valid (sq_transport q')"
  by (rule talk_valid [OF smart_read_talk])

lemma smart_read_config: "smart_read query S q w = (r, q', w') \<Longrightarrow> config (sq_transport q') = config (sq_transport q)"
  by (rule talk_config [OF smart_read_talk])

end

subsection \<open>What a read asks\<close>

lemma smart_query_trace:
  "smart_query (traced_query Q) q request (w, tr) = (r, q', w', tr') \<Longrightarrow> tr' = tr @ [encoded request]"
  by (auto simp: smart_query_def traced_query_def encoded_def Let_def
      split: sum.splits option.splits prod.splits if_splits)

text \<open>The traced world beside the world the counter and the clock belong to.\<close>

definition traced_env :: "'w smart_env \<Rightarrow> ('w \<times> byte list list) smart_env" where
  "traced_env S =
     \<lparr>request_id = (\<lambda>(w, tr). request_id S w),
      set_request_id = (\<lambda>i (w, tr). (set_request_id S i w, tr)),
      unix_milli = (\<lambda>(w, tr). unix_milli S w)\<rparr>"

lemma smartRequest_traced:
  "smartRequest (traced_env S) m p (w, tr) = (request, w') \<Longrightarrow> snd w' = tr"
  by (auto simp: smartRequest_def traced_env_def Let_def)

lemma smart_batch_trace:
  assumes "smart_batch (traced_query Q) (traced_env S) q methods (w, tr) = (r, q', w', tr')"
  shows "tr' = tr @ [encoded (fst (smartRequest (traced_env S) smartMultipleRequest (Some (batch_params methods)) (w, tr)))]"
proof -
  obtain request w1 where rq: "smartRequest (traced_env S) smartMultipleRequest (Some (batch_params methods)) (w, tr) =
      (request, w1, tr)"
    using smartRequest_traced [of S smartMultipleRequest "Some (batch_params methods)" w tr] by (metis prod.collapse)
  show ?thesis
    using assms by (auto simp: smart_batch_def rq dest!: smart_query_trace
        split: sum.splits option.splits prod.splits)
qed

subsection \<open>Properties\<close>

text \<open>C29. A read costs one round trip, two at most: the first request is one batch asking for the
  device information and exactly the methods still wanted; a second is sent only to ask for the
  device information alone. A method that is not wanted any more is never wanted again.\<close>

theorem smart_read_requests:
  assumes "smart_read (traced_query Q) (traced_env S) q (w, []) = (r, q', w', tr)"
  shows "\<exists>rest. tr = encoded (fst (smartRequest (traced_env S) smartMultipleRequest
        (Some (batch_params (wanted_methods q))) (w, []))) # rest
    \<and> length rest \<le> 1 \<and> wants_le q' q"
proof -
  obtain y q1 w2 tr2 where b: "smart_batch (traced_query Q) (traced_env S) q (wanted_methods q) (w, []) = (y, q1, w2, tr2)"
    by (metis prod.collapse)
  have tr2: "tr2 = [encoded (fst (smartRequest (traced_env S) smartMultipleRequest
      (Some (batch_params (wanted_methods q))) (w, [])))]"
    using smart_batch_trace [OF b] by simp
  have w1: "same_wants q1 q" by (rule smart_batch_wants [OF b])
  obtain rq2 w3 where r2: "smartRequest (traced_env S) smartGetDeviceInfo None (w2, tr2) = (rq2, w3, tr2)"
    using smartRequest_traced [of S smartGetDeviceInfo None w2 tr2] by (metis prod.collapse)
  have same_le: "same_wants a q1 \<Longrightarrow> wants_le a q" for a :: "'a smartQuerier"
    using w1 by (simp add: same_wants_def wants_le_def)
  have le_le: "wants_le a q1 \<Longrightarrow> wants_le a q" for a :: "'a smartQuerier"
    using w1 by (rule wants_le_trans)
  obtain z q2 w4 tr4 where z: "smart_query (traced_query Q) q1 rq2 (w3, tr2) = (z, q2, w4, tr4)"
    by (metis prod.collapse)
  note tr4 = smart_query_trace [OF z] and w2 = smart_query_wants [OF z]
  have le2: "wants_le a q2 \<Longrightarrow> wants_le a q" for a :: "'a smartQuerier"
    using w1 w2 by (simp add: same_wants_def wants_le_def)
  show ?thesis
  proof (cases y)
    case (Inl e)
    then show ?thesis using assms same_le [of q1] by (auto simp: smart_read_def b tr2 same_wants_def)
  next
    case (Inr results)
    show ?thesis
    proof (cases "results smartGetDeviceInfo")
      case (Some rawInfo)
      obtain r0 q0 where a: "smart_assemble results (Some rawInfo) q1 = (r0, q0)" by fastforce
      show ?thesis
        using assms le_le [OF smart_assemble_le [OF a]] by (auto simp: smart_read_def b tr2 Inr Some a)
    next
      case None
      have rd: "smart_read (traced_query Q) (traced_env S) q (w, []) =
          (case z of Inl e \<Rightarrow> (Inl e, q2, w4, tr4)
           | Inr rawInfo \<Rightarrow> (case smart_assemble results rawInfo q2 of (r, q) \<Rightarrow> (r, q, w4, tr4)))"
        by (simp add: smart_read_def b r2 z Inr None split: sum.split)
      have sh: "tr = tr4" "wants_le q' q"
        using assms same_le [of q2] w2 le2 [OF smart_assemble_le]
        by (auto simp: rd same_wants_def wants_le_def w1 [unfolded same_wants_def]
            split: sum.splits prod.splits)
      then show ?thesis using tr4 tr2 by auto
    qed
  qed
qed

definition no_clock :: "64 word smart_env" where
  "no_clock = \<lparr>request_id = (\<lambda>w. w), set_request_id = (\<lambda>i _. i), unix_milli = (\<lambda>_. 0)\<rparr>"

fun scripted_smart :: "(json list, 64 word) query_fun" where
  "scripted_smart [] request w = (Inl (HttpError RequestFailed), [], w)"
| "scripted_smart (j # js) request w = (Inr (encoded j), js, w)"

theorem smart_read_requests_witness:
  "\<exists>r q' w' tr. smart_read (traced_query scripted_smart) (traced_env no_clock) (newSMARTQuerier []) (0, [])
     = (r, q', w', tr) \<and> length tr \<le> 2"
proof -
  obtain r q' w' tr where h: "smart_read (traced_query scripted_smart) (traced_env no_clock)
      (newSMARTQuerier []) (0, []) = (r, q', w', tr)" by (metis prod.collapse)
  from smart_read_requests [OF h] h show ?thesis by auto
qed

text \<open>C30. Names survive: a readable name comes back as it was from the base64 the firmware wraps it in.\<close>

theorem smart_alias_decodes:
  assumes "isPrintable name" and "di_Nickname i = b64_encode (bytes_of name)"
  shows "smart_alias i = name"
proof -
  have "bytes_of name \<noteq> []" using assms(1) by (auto simp: isPrintable_def bytes_of_def)
  then show ?thesis using assms by (simp add: smart_alias_def)
qed

theorem smart_alias_decodes_witness:
  "smart_alias (zero_smartDeviceInfo\<lparr>di_Nickname := ''UmFjayBB''\<rparr>) = ''Rack A''"
proof -
  have p: "isPrintable ''Rack A''" by code_simp
  have e: "''UmFjayBB'' = b64_encode (bytes_of ''Rack A'')" by code_simp
  show ?thesis by (rule smart_alias_decodes [OF p]) (simp add: e)
qed

text \<open>The readable-text test does not separate the two firmware variants: the name \<^verbatim>\<open>TV01\<close> sent in
  the clear is also base64 of readable text and is reported as that text, where \<^verbatim>\<open>Hall\<close> is
  reported verbatim.\<close>

theorem plaintext_alias_misread:
  "smart_alias (zero_smartDeviceInfo\<lparr>di_Nickname := ''TV01''\<rparr>) = ''M]5''
   \<and> smart_alias (zero_smartDeviceInfo\<lparr>di_Nickname := ''Hall''\<rparr>) = ''Hall''"
  by code_simp

lemma smart_sockets_nth:
  "length (smart_sockets_from i children) = length children \<and>
   (\<forall>k < length children. smart_sockets_from i children ! k = smart_socket (i + k) (children ! k))"
  by (induction children arbitrary: i) (auto simp: nth_Cons split: nat.split)

lemma distinct_sockets:
  assumes "\<And>a b. a < length children \<Longrightarrow> b < length children \<Longrightarrow> a \<noteq> b \<Longrightarrow>
    so_ID (smart_socket a (children ! a)) \<noteq> so_ID (smart_socket b (children ! b))"
  shows "distinct (map so_ID (smartSockets children))"
  using assms smart_sockets_nth [of 0 children]
  by (auto simp: smartSockets_def distinct_conv_nth)

text \<open>C31. Sockets keep apart: when every outlet names its position and no two share one, or when none
  names a position, the socket identifiers of a SMART strip are pairwise distinct, whatever the
  outlets are called.\<close>

theorem smart_socket_ids_distinct:
  assumes "(\<forall>c \<in> set children. \<exists>p. di_Position c = Some p \<and> 0 \<le> p \<and> p < 2 ^ 31) \<and> distinct (map di_Position children)
    \<or> (\<forall>c \<in> set children. di_Position c = None)"
  shows "distinct (map so_ID (smartSockets children))"
  using assms
proof
  assume a: "(\<forall>c \<in> set children. \<exists>p. di_Position c = Some p \<and> 0 \<le> p \<and> p < 2 ^ 31) \<and> distinct (map di_Position children)"
  show ?thesis
  proof (rule distinct_sockets)
    fix x y assume xy: "x < length children" "y < length children" "x \<noteq> y"
    then obtain p q where "di_Position (children ! x) = Some p" "di_Position (children ! y) = Some q"
      and r: "0 \<le> p" "p < 2 ^ 31" "0 \<le> q" "q < 2 ^ 31" using a by (meson nth_mem)
    moreover from this have "p \<noteq> q" using a xy by (metis length_map nth_eq_iff_index_eq nth_map)
    ultimately show "so_ID (smart_socket x (children ! x)) \<noteq> so_ID (smart_socket y (children ! y))"
      by (simp add: smart_socket_def)
  qed
next
  assume a: "\<forall>c \<in> set children. di_Position c = None"
  then show ?thesis
    by (intro distinct_sockets) (simp add: smart_socket_def)
qed

theorem smart_socket_ids_distinct_witness:
  "distinct (map so_ID (smartSockets
     [zero_smartDeviceInfo\<lparr>di_Position := Some 1\<rparr>, zero_smartDeviceInfo\<lparr>di_Position := Some 0\<rparr>]))"
  by (rule smart_socket_ids_distinct) simp

text \<open>Identifiers can collide when only some outlets name a position: the first outlet at position
  1 and a second that names none are both socket 2.\<close>

theorem smart_socket_ids_collide:
  "map so_ID (smartSockets [zero_smartDeviceInfo\<lparr>di_Position := Some 1\<rparr>, zero_smartDeviceInfo]) = [''2'', ''2'']"
  by code_simp

text \<open>The steps of the conversion: 32, 5 and 9 are exact, and the difference to 32 does not underflow.\<close>

lemma small_ints:
  "val (fint 32) = 32" "val (fint 5) = 5" "val (fint 9) = 9"
  "is_finite (fint 32)" "is_finite (fint 5)" "is_finite (fint 9)" "canonical (fint 5)" "canonical (fint 9)"
proof -
  have "val (fint i) = real_of_int i \<and> is_finite (fint i) \<and> canonical (fint i)" if "\<bar>i\<bar> < 2 ^ 53" for i
    using val_fint [OF that] fround_canonical [of 1 "\<bar>i\<bar>"] by (simp add: fint_def)
  then show "val (fint 32) = 32" "val (fint 5) = 5" "val (fint 9) = 9"
    "is_finite (fint 32)" "is_finite (fint 5)" "is_finite (fint 9)" "canonical (fint 5)" "canonical (fint 9)" by simp_all
qed

lemma away_from_32:
  assumes "is_finite t" and "canonical t" and "val t \<noteq> 32"
  shows "2 powi (-48) \<le> \<bar>val t - 32\<bar>"
proof -
  obtain s m e where t: "t = Fin s m e" using assms(1) by (auto simp: is_finite_def split: float64.splits)
  have m: "0 \<le> m" "m < 2 ^ 53" using assms(2) by (simp_all add: t canonical_def)
  show ?thesis
  proof (cases "-48 \<le> e")
    case True
    define i where "i = signed s m * 2 ^ nat (e + 48) - 32 * 2 ^ 48"
    have "val t = of_int (signed s m) * (2 ^ nat (e - (-48)) * 2 powi (-48))"
      unfolding powi_shift [OF True] t signed_val ..
    then have v: "val t - 32 = of_int i * 2 powi (-48)"
      by (simp add: i_def algebra_simps power_int_minus)
    then have "i \<noteq> 0" using assms(3) by auto
    then have "(1 :: real) \<le> of_int \<bar>i\<bar>" by linarith
    then have "1 * 2 powi (-48) \<le> of_int \<bar>i\<bar> * (2 powi (-48) :: real)" by (rule mult_right_mono) simp
    then show ?thesis by (simp add: v abs_mult)
  next
    case False
    have "\<bar>val t\<bar> = of_int m * 2 powi e" using m by (simp add: t val_def abs_mult)
    also have "\<dots> \<le> 2 ^ 53 * 2 powi (-49)"
    proof (rule mult_mono)
      have "real_of_int m \<le> real_of_int (2 ^ 53)" using m(2) by (simp only: of_int_le_iff)
      then show "real_of_int m \<le> 2 ^ 53" by simp
      show "(2 :: real) powi e \<le> 2 powi (-49)" using False by (intro power_int_increasing) auto
    qed simp_all
    also have "\<dots> = (16 :: real)" by (simp add: power_int_minus)
    finally have "16 \<le> \<bar>val t - 32\<bar>" by linarith
    moreover have "(2 :: real) powi (-48) \<le> 1" by (simp add: power_int_minus)
    ultimately show ?thesis by linarith
  qed
qed

lemma fahrenheit_on_grid:
  assumes "is_finite t" and "canonical t" and "val t = of_int a * 2 powi (-10)" and "\<bar>a\<bar> < 2 ^ 40"
  shows "is_finite (to_celsius t)
    \<and> \<bar>val (to_celsius t) - (val t - 32) * 5 / 9\<bar> \<le> \<bar>(val t - 32) * 5 / 9\<bar> * 2 powi (-53)"
proof -
  have c: "is_finite (fint i) \<and> canonical (fint i)" if "\<bar>i\<bar> < 2 ^ 53" for i
    using val_fint [OF that] fround_canonical [of 1 "\<bar>i\<bar>"] by (simp add: fint_def)
  have v32: "val (fint 32) = 32" and v5: "val (fint 5) = 5" and v9: "val (fint 9) = 9"
    using val_fint [of 32] val_fint [of 5] val_fint [of 9] by simp_all
  have p10: "(2 :: real) powi (-10) = 1 / 1024" by (simp add: power_int_def power_one_over)
  let ?d = "fsub t (fint 32)"
  have d: "val ?d = of_int (a - 32768) * 2 powi (-10) \<and> is_finite ?d \<and> canonical ?d"
    using assms c [of 32] by (intro val_fsub) (auto simp: v32 p10 algebra_simps)
  let ?m = "fmul ?d (fint 5)"
  have m: "val ?m = of_int ((a - 32768) * 5) * 2 powi (-10) \<and> is_finite ?m \<and> canonical ?m"
    using assms(4) d c [of 5] by (intro val_fmul) (auto simp: v5)
  have mv: "val ?m = (val t - 32) * 5" using m assms(3) by (simp add: p10 algebra_simps)
  show ?thesis
  proof (cases "a = 32768")
    case True
    then have z: "val ?m = 0" using m by simp
    then obtain s e where "?m = Fin s 0 e" using m by (auto simp: val_def is_finite_def split: float64.splits if_splits)
    then have "val (to_celsius t) = 0 \<and> is_finite (to_celsius t)"
      using c [of 9] v9 by (auto simp: to_celsius_def is_finite_def val_def fround_def split: float64.splits)
    then show ?thesis using z mv by simp
  next
    case False
    then have ne: "val ?m \<noteq> 0" using m by simp
    have q: "\<bar>val ?m / val (fint 9)\<bar> = of_int \<bar>(a - 32768) * 5\<bar> / 9216"
    proof -
      have "val ?m = of_int ((a - 32768) * 5) / 1024" using m by (simp add: p10)
      then show ?thesis unfolding v9 by (simp add: abs_mult)
    qed
    have lo: "(1 :: real) \<le> of_int \<bar>(a - 32768) * 5\<bar>" 
    proof -
      have "0 < \<bar>(a - 32768) * 5\<bar>" using False by (simp only: zero_less_abs_iff) simp
      then have "1 \<le> \<bar>(a - 32768) * 5\<bar>" by linarith
      then show ?thesis by (simp only: of_int_1_le_iff)
    qed
    have hi: "of_int \<bar>(a - 32768) * 5\<bar> < (2 ^ 50 :: real)"
    proof -
      have "\<bar>a - 32768\<bar> \<le> \<bar>a\<bar> + 32768" by linarith
      then have "\<bar>a - 32768\<bar> * 5 < 2 ^ 50" using assms(4) by simp
      then have "\<bar>(a - 32768) * 5\<bar> < 2 ^ 50" by (simp only: abs_mult abs_numeral)
      then have "real_of_int \<bar>(a - 32768) * 5\<bar> < real_of_int (2 ^ 50)" by (simp only: of_int_less_iff)
      then show ?thesis by simp
    qed
    have "2 powi (-1022) \<le> (2 powi (-20) :: real)" by (rule power_int_increasing) auto
    also have "\<dots> \<le> 1 / 9216" by (simp add: power_int_minus field_simps)
    finally have l: "2 powi (-1022) \<le> \<bar>val ?m / val (fint 9)\<bar>" using lo unfolding q by linarith
    have "(2 :: real) ^ 50 \<le> 2 ^ 1023" by (rule power_increasing) simp_all
    then have h: "\<bar>val ?m / val (fint 9)\<bar> < 2 ^ 1023" using hi lo unfolding q by linarith
    have "is_finite (fdiv ?m (fint 9))
      \<and> \<bar>val (fdiv ?m (fint 9)) - val ?m / val (fint 9)\<bar> \<le> \<bar>val ?m / val (fint 9)\<bar> * 2 powi (-53)"
      using m c [of 9] ne l h by (intro conjI fdiv_relative) (simp_all add: v9)
    then show ?thesis unfolding to_celsius_def mv v9 .
  qed
qed

lemma fahrenheit_bound:
  assumes "is_finite t" and "canonical t" and "\<bar>val t\<bar> \<le> 2 ^ 1000"
  shows "is_finite (to_celsius t) \<and> \<bar>val (to_celsius t) - (val t - 32) * 5 / 9\<bar> \<le> \<bar>(val t - 32) * 5 / 9\<bar> * 2 powi (-51)"
proof (cases "val t = 32")
  case True
  have "val t = of_int 32768 * 2 powi (-10)" by (simp add: True power_int_minus)
  from fahrenheit_on_grid [OF assms(1,2) this] show ?thesis by (simp add: True)
next
  case False
  define u :: real where "u = 2 powi (-53)"
  define D where "D = val t - 32"
  let ?d = "fsub t (fint 32)" and ?m = "fmul (fsub t (fint 32)) (fint 5)"
  have tiny: "2 powi (-1022) \<le> (2 powi (-60) :: real)" by (rule power_int_increasing) simp_all
  have u: "0 \<le> u" "u \<le> 1 / 8" "4 * u = 2 powi (-51)" by (simp_all add: u_def power_int_minus)
  have huge: "(2 :: real) ^ 1000 * 64 \<le> 2 ^ 1023" and "(64 :: real) \<le> 2 ^ 1000"
    using power_increasing [of 6 1000 "2 :: real"] power_increasing [of 1006 1023 "2 :: real"] by (simp_all add: power_add)
  have low: "2 powi (-48) \<le> \<bar>D\<bar>" using away_from_32 [OF assms(1,2) False] by (simp add: D_def)
  have high: "\<bar>D\<bar> \<le> 2 * 2 ^ 1000" using assms(3) \<open>64 \<le> _\<close> unfolding D_def by linarith
  have d: "\<bar>val ?d - D\<bar> \<le> \<bar>D\<bar> * u" "is_finite ?d" "canonical ?d"
    using fadd_relative [of t "fneg (fint 32)"] assms(1) low high tiny huge
    by (simp_all add: fsub_def val_fneg small_ints D_def u_def)
  have dl: "\<bar>D\<bar> * (1 - u) \<le> \<bar>val ?d\<bar>" "\<bar>val ?d\<bar> \<le> \<bar>D\<bar> * (1 + u)" using d(1) by (simp_all add: algebra_simps)
  have "\<bar>D\<bar> * u \<le> \<bar>D\<bar> * (1 / 8)" using u(2) by (rule mult_left_mono) simp
  then have d2: "\<bar>D\<bar> / 2 \<le> \<bar>val ?d\<bar>" "\<bar>val ?d\<bar> \<le> 2 * \<bar>D\<bar>" using d(1) by linarith+
  have p48: "(2 :: real) powi (-48) = 4096 * 2 powi (-60)" by (simp add: power_int_minus)
  have pos: "(0 :: real) < 2 powi (-60)" by simp
  have m: "\<bar>val ?m - val ?d * 5\<bar> \<le> \<bar>val ?d * 5\<bar> * u \<and> is_finite ?m \<and> canonical ?m"
    using fmul_relative [of ?d "fint 5"] d d2 low high tiny huge p48 pos
    by (simp add: small_ints u_def abs_mult)
  have "\<bar>val ?d * 5\<bar> * u \<le> \<bar>val ?d * 5\<bar> * (1 / 8)" using u(2) by (rule mult_left_mono) simp
  then have m2: "\<bar>val ?d\<bar> \<le> \<bar>val ?m\<bar>" "\<bar>val ?m\<bar> \<le> 10 * \<bar>val ?d\<bar>" using m abs_mult [of "val ?d" 5] by linarith+
  have "val ?m \<noteq> 0" using m2(1) d2(1) low p48 pos by linarith
  then have q: "\<bar>val (to_celsius t) - val ?m / 9\<bar> \<le> \<bar>val ?m / 9\<bar> * u \<and> is_finite (to_celsius t)"
    using fdiv_relative [of ?m "fint 9"] m m2 d2 low high tiny huge p48 pos
    by (simp add: small_ints u_def to_celsius_def)
  have dm: "\<bar>val ?d * 5 / 9 - D * 5 / 9\<bar> \<le> \<bar>D * 5 / 9\<bar> * u"
    using relative_scale [OF d(1), of "5 / 9"] by simp
  have md: "\<bar>val ?m / 9 - val ?d * 5 / 9\<bar> \<le> \<bar>val ?d * 5 / 9\<bar> * u"
    using relative_scale [OF conjunct1 [OF m], of "1 / 9"] by simp
  have "\<bar>val (to_celsius t) - D * 5 / 9\<bar> \<le> \<bar>D * 5 / 9\<bar> * (u + u + u * u + u + (u + u + u * u) * u)"
    using relative_trans [OF relative_trans [OF dm md u(1) u(1)] conjunct1 [OF q] _ u(1)] u(1) by simp
  also have "\<dots> \<le> \<bar>D * 5 / 9\<bar> * (4 * u)"
    using three_roundings [OF u(1,2)] by (rule mult_left_mono) simp
  finally show ?thesis using q unfolding u(3) D_def by blast
qed

text \<open>C32. A temperature in Fahrenheit is exported in Celsius to the last bits: for every finite reading below
  \<open>2 ^ 1000\<close> in magnitude the conversion is finite and off by at most one part in \<open>2 ^ 51\<close>, so that a
  sensor at 32 degrees reads exactly 0; and for a reading that is a multiple of 1/1024 degree it is off
  by at most one part in \<open>2 ^ 53\<close>, a single rounding.\<close>

theorem fahrenheit_converted:
  assumes "is_finite t" and "canonical t" and "\<bar>val t\<bar> \<le> 2 ^ 1000"
  defines "exact \<equiv> (val t - 32) * 5 / 9"
  shows "is_finite (to_celsius t) \<and> \<bar>val (to_celsius t) - exact\<bar> \<le> \<bar>exact\<bar> * 2 powi (-51)
    \<and> (\<forall>a. val t = of_int a * 2 powi (-10) \<longrightarrow> \<bar>a\<bar> < 2 ^ 40 \<longrightarrow>
        \<bar>val (to_celsius t) - exact\<bar> \<le> \<bar>exact\<bar> * 2 powi (-53))"
  using fahrenheit_bound [OF assms(1-3)] fahrenheit_on_grid [OF assms(1,2)] unfolding exact_def by blast


theorem fahrenheit_converted_witness:
  "\<exists>t. num_float ''61.8'' = Some t \<and> \<bar>val (to_celsius t) - (val t - 32) * 5 / 9\<bar> \<le> \<bar>(val t - 32) * 5 / 9\<bar> * 2 powi (-51)"
proof -
  have n: "num_float ''61.8'' = Some (Fin False 8697576780359270 (-47))" by code_simp
  let ?t = "Fin False 8697576780359270 (-47)"
  have "is_finite ?t" "canonical ?t" by (simp_all add: is_finite_def canonical_def)
  moreover have "\<bar>val ?t\<bar> \<le> 2 ^ 6" by (simp add: val_def power_int_minus)
  then have "\<bar>val ?t\<bar> \<le> 2 ^ 1000" using power_increasing [of 6 1000 "2 :: real"] by linarith
  ultimately show ?thesis using fahrenheit_converted [of ?t] n by blast
qed

end
