(* ===== verification/Aes.thy ===== *)
theory Aes
  imports Klap Smart
begin

text \<open>
  The secure-passthrough transport, \<^verbatim>\<open>kasa/aes.go\<close>: an RSA key exchange that yields a session
  key, a login that exchanges the credentials for a token, and the passthrough that carries every
  later request as base64 ciphertext inside a JSON envelope.
\<close>

definition aesSessionLen :: nat where "aesSessionLen = 32"

record aesTransport =
  at_baseURL :: string
  at_credentials :: Credentials
  at_key :: "byte list"
  at_iv :: "byte list"
  at_token :: string
  at_sessionID :: string
  at_established :: bool

text \<open>
  What the transport calls: the HTTP client, \<^verbatim>\<open>rsa.GenerateKey\<close> (a key is of type \<^typ>\<open>'k\<close>), the PEM
  document of its public half, PKCS#1 v1.5 decryption and the clock.
\<close>

record ('k, 'w) aes_env =
  aes_http :: "'w http_env"
  generate_key :: "'w \<Rightarrow> 'k option \<times> 'w"
  public_pem :: "'k \<Rightarrow> string option"
  decrypt_pkcs1 :: "'k \<Rightarrow> byte list \<Rightarrow> 'w \<Rightarrow> byte list option \<times> 'w"
  now_milli :: "'w \<Rightarrow> int \<times> 'w"

record aesEnvelope =
  ae_ErrorCode :: int
  ae_Result :: "json option"

definition dec_aesEnvelope :: "aesEnvelope decoder" where
  "dec_aesEnvelope = dec_struct
     [(''error_code'', field_dec dec_int ae_ErrorCode ae_ErrorCode_update),
      (''result'', field_dec dec_raw ae_Result ae_Result_update)]"

definition zero_aesEnvelope :: aesEnvelope where
  "zero_aesEnvelope = \<lparr>ae_ErrorCode = 0, ae_Result = None\<rparr>"

text \<open>The structs with one string member: \<^verbatim>\<open>key\<close>, \<^verbatim>\<open>response\<close> and, nested, \<^verbatim>\<open>result.token\<close>.\<close>

definition dec_wrapped :: "string \<Rightarrow> string decoder" where
  "dec_wrapped name = dec_struct [(name, dec_string)]"

definition dec_login_reply :: "string decoder" where
  "dec_login_reply = dec_struct [(''result'', dec_struct [(''token'', dec_string)])]"

definition hex_encode :: "byte list \<Rightarrow> string" where
  "hex_encode bs = concat (map (\<lambda>b. [hex_digit (unat b div 16), hex_digit (unat b mod 16)]) bs)"

definition aesErrorFor :: "int \<Rightarrow> kasa_error option" where
  "aesErrorFor code =
     (if code = 0 then None
      else if code = -1501 \<or> code = -1002 then Some (AesError (UnauthorizedCode code))
      else if code = 9999 \<or> code = -1301 then Some (AesError SessionExpired)
      else Some (AesError (ReplyErrorCode code)))"

subsection \<open>Encryption\<close>

definition aes_encrypt :: "crypto \<Rightarrow> aesTransport \<Rightarrow> byte list \<Rightarrow> kasa_error + byte list" where
  "aes_encrypt C t payload =
     (if \<not> aes_key_ok (at_key t) then Inl (CipherError (KeySize (length (at_key t))))
      else Inr (cbc_seal C (at_key t) (at_iv t) payload))"

definition aes_decrypt :: "crypto \<Rightarrow> aesTransport \<Rightarrow> byte list \<Rightarrow> kasa_error + byte list" where
  "aes_decrypt C t payload =
     (if \<not> aes_key_ok (at_key t) then Inl (CipherError (KeySize (length (at_key t))))
      else if payload = [] \<or> length payload mod 16 \<noteq> 0
      then Inl (CipherError (Unaligned (length payload)))
      else cbc_open C (at_key t) (at_iv t) payload)"

subsection \<open>One post\<close>

definition aes_post ::
  "('k, 'w) aes_env \<Rightarrow> aesTransport \<Rightarrow> string \<Rightarrow> byte list \<Rightarrow> 'w
     \<Rightarrow> (kasa_error + json option) \<times> aesTransport \<times> 'w" where
  "aes_post E t query body w =
     (case http_do (aes_http E) \<lparr>rq_url = at_baseURL t @ query, rq_body = body,
                      rq_cookie = cookie_of (at_sessionID t)\<rparr> w of
        (None, w) \<Rightarrow> (Inl (HttpError RequestFailed), t, w)
      | (Some r, w) \<Rightarrow>
          (case read_limited r of
             Inl e \<Rightarrow> (Inl e, t, w)
           | Inr data \<Rightarrow>
               if rs_status r \<noteq> http_ok then (Inl (AesError (HttpStatus (rs_status r))), t, w)
               else
               let t = (case session_cookie r of None \<Rightarrow> t | Some v \<Rightarrow> t\<lparr>at_sessionID := v\<rparr>) in
               case unmarshal dec_aesEnvelope zero_aesEnvelope (string_of data) of
                 None \<Rightarrow> (Inl (AesError BadReply), t, w)
               | Some envelope \<Rightarrow>
                   (case aesErrorFor (ae_ErrorCode envelope) of
                      Some e \<Rightarrow> (Inl e, t, w)
                    | None \<Rightarrow> (Inr (ae_Result envelope), t, w))))"

subsection \<open>Passthrough\<close>

definition passthrough_request :: "byte list \<Rightarrow> json" where
  "passthrough_request ciphertext =
     jmap [(''method'', JStr ''securePassthrough''),
           (''params'', jmap [(''request'', JStr (b64_encode ciphertext))])]"

definition token_query :: "aesTransport \<Rightarrow> string" where
  "token_query t = (if at_token t = [] then [] else ''?token='' @ at_token t)"

text \<open>From the result member to the plain answer.\<close>

definition passthrough_reply :: "crypto \<Rightarrow> aesTransport \<Rightarrow> json option \<Rightarrow> kasa_error + byte list" where
  "passthrough_reply C t result =
     (case Option.bind result (\<lambda>j. dec_wrapped ''response'' j []) of
        None \<Rightarrow> Inl (AesError BadReply)
      | Some response \<Rightarrow>
      case b64_decode response of
        None \<Rightarrow> Inl (AesError BadBase64)
      | Some raw \<Rightarrow>
      case aes_decrypt C t raw of
        Inl e \<Rightarrow> Inl e
      | Inr plain \<Rightarrow>
      case unmarshal dec_aesEnvelope zero_aesEnvelope (string_of plain) of
        None \<Rightarrow> Inl (AesError BadReply)
      | Some inner \<Rightarrow>
      case aesErrorFor (ae_ErrorCode inner) of
        Some e \<Rightarrow> Inl e
      | None \<Rightarrow> Inr plain)"

definition aes_passthrough ::
  "crypto \<Rightarrow> ('k, 'w) aes_env \<Rightarrow> aesTransport \<Rightarrow> byte list \<Rightarrow> 'w
     \<Rightarrow> (kasa_error + byte list) \<times> aesTransport \<times> 'w" where
  "aes_passthrough C E t request w =
     (case aes_encrypt C t request of
        Inl e \<Rightarrow> (Inl e, t, w)
      | Inr ciphertext \<Rightarrow>
      case aes_post E t (token_query t) (encoded (passthrough_request ciphertext)) w of
        (Inl e, t, w) \<Rightarrow> (Inl e, t, w)
      | (Inr result, t, w) \<Rightarrow> (passthrough_reply C t result, t, w))"

subsection \<open>Login\<close>

definition aes_username :: "crypto \<Rightarrow> Credentials \<Rightarrow> string" where
  "aes_username C creds = b64_encode (bytes_of (hex_encode (sha1 C (bytes_of (Username creds)))))"

text \<open>The older shape sends the password as it is, the newer hashes it.\<close>

definition aes_logins :: "crypto \<Rightarrow> Credentials \<Rightarrow> json list" where
  "aes_logins C creds =
     [jmap [(''username'', JStr (aes_username C creds)),
            (''password'', JStr (b64_encode (bytes_of (Password creds))))],
      jmap [(''username'', JStr (aes_username C creds)),
            (''password2'', JStr (b64_encode (bytes_of (hex_encode (sha1 C (bytes_of (Password creds)))))))]]"

definition login_request :: "json \<Rightarrow> int \<Rightarrow> int \<Rightarrow> json" where
  "login_request params now1 now2 =
     jmap [(''method'', JStr ''login_device''), (''params'', params),
           (''requestTimeMils'', jint now1), (''request_time_milis'', jint now2),
           (''terminal_uuid'', JStr terminalUUID), (''request_id_reserved'', JNull)]"

text \<open>The token in a login answer; the errors of an attempt that failed.\<close>

definition login_token :: "kasa_error + byte list \<Rightarrow> kasa_error + string" where
  "login_token answer =
     (case answer of
        Inl e \<Rightarrow> Inl e
      | Inr plain \<Rightarrow>
          (case unmarshal dec_login_reply [] (string_of plain) of
             None \<Rightarrow> Inl (AesError BadLoginReply)
           | Some token \<Rightarrow> if token = [] then Inl (AesError NoToken) else Inr token))"

text \<open>The loop of \<^verbatim>\<open>login\<close> over the shapes left, with the last error seen.\<close>

fun login_loop ::
  "crypto \<Rightarrow> ('k, 'w) aes_env \<Rightarrow> aesTransport \<Rightarrow> json list \<Rightarrow> kasa_error option \<Rightarrow> 'w
     \<Rightarrow> (kasa_error + unit) \<times> aesTransport \<times> 'w" where
  "login_loop C E t [] lastErr w =
     (Inl (case lastErr of None \<Rightarrow> AesError LoginRefused | Some e \<Rightarrow> AesUnauthorized e),
      t\<lparr>at_established := False\<rparr>, w)"
| "login_loop C E t (params # rest) lastErr w =
     (case now_milli E w of (now1, w) \<Rightarrow>
      case now_milli E w of (now2, w) \<Rightarrow>
      case aes_passthrough C E t (encoded (login_request params now1 now2)) w of (answer, t, w) \<Rightarrow>
      case login_token answer of
        Inl e \<Rightarrow> login_loop C E t rest (Some e) w
      | Inr token \<Rightarrow> (Inr (), t\<lparr>at_token := token\<rparr>, w))"

definition aes_login ::
  "crypto \<Rightarrow> ('k, 'w) aes_env \<Rightarrow> aesTransport \<Rightarrow> 'w \<Rightarrow> (kasa_error + unit) \<times> aesTransport \<times> 'w" where
  "aes_login C E t w = login_loop C E t (aes_logins C (at_credentials t)) None w"

subsection \<open>Key exchange\<close>

definition handshake_request :: "string \<Rightarrow> json" where
  "handshake_request pem = jmap [(''method'', JStr ''handshake''), (''params'', jmap [(''key'', JStr pem)])]"

definition aes_install :: "aesTransport \<Rightarrow> byte list \<Rightarrow> aesTransport" where
  "aes_install t secret = t\<lparr>at_key := take 16 secret, at_iv := drop 16 secret, at_established := True\<rparr>"

text \<open>The session secret from the result of the handshake.\<close>

definition session_secret ::
  "('k, 'w) aes_env \<Rightarrow> 'k \<Rightarrow> json option \<Rightarrow> 'w \<Rightarrow> (kasa_error + byte list) \<times> 'w" where
  "session_secret E key result w =
     (case Option.bind result (\<lambda>j. dec_wrapped ''key'' j []) of
        None \<Rightarrow> (Inl (AesError BadHandshakeReply), w)
      | Some wrapped \<Rightarrow>
      case b64_decode wrapped of
        None \<Rightarrow> (Inl (AesError BadBase64), w)
      | Some cipher \<Rightarrow>
      case decrypt_pkcs1 E key cipher w of
        (None, w) \<Rightarrow> (Inl (AesError RsaFailed), w)
      | (Some secret, w) \<Rightarrow>
          if length secret \<noteq> aesSessionLen then (Inl (AesError (SessionKeyLength (length secret))), w)
          else (Inr secret, w))"

definition aes_connect ::
  "crypto \<Rightarrow> ('k, 'w) aes_env \<Rightarrow> aesTransport \<Rightarrow> 'w \<Rightarrow> (kasa_error + unit) \<times> aesTransport \<times> 'w" where
  "aes_connect C E t w =
     (let t = t\<lparr>at_token := [], at_sessionID := []\<rparr> in
      case generate_key E w of
        (None, w) \<Rightarrow> (Inl (AesError RsaFailed), t, w)
      | (Some key, w) \<Rightarrow>
      case public_pem E key of
        None \<Rightarrow> (Inl (AesError RsaFailed), t, w)
      | Some pem \<Rightarrow>
      case aes_post E t [] (encoded (handshake_request pem)) w of
        (Inl e, t, w) \<Rightarrow> (Inl e, t, w)
      | (Inr result, t, w) \<Rightarrow>
      case session_secret E key result w of
        (Inl e, w) \<Rightarrow> (Inl e, t, w)
      | (Inr secret, w) \<Rightarrow> aes_login C E (aes_install t secret) w)"

subsection \<open>Query and close\<close>

text \<open>The loop of \<^verbatim>\<open>Query\<close>, with the number of attempts left.\<close>

fun aes_attempts ::
  "nat \<Rightarrow> crypto \<Rightarrow> ('k, 'w) aes_env \<Rightarrow> aesTransport \<Rightarrow> byte list \<Rightarrow> 'w
     \<Rightarrow> (kasa_error + byte list) \<times> aesTransport \<times> 'w" where
  "aes_attempts 0 C E t request w = (Inl (AesError ExpiredTwice), t, w)"
| "aes_attempts (Suc n) C E t request w =
     (case (if at_established t then (Inr (), t, w) else aes_connect C E t w) of
        (Inl e, t, w) \<Rightarrow> (Inl e, t, w)
      | (Inr _, t, w) \<Rightarrow>
      case aes_passthrough C E t request w of
        (Inl e, t, w) \<Rightarrow>
          if e = AesError SessionExpired
          then aes_attempts n C E (t\<lparr>at_established := False\<rparr>) request w
          else (Inl e, t, w)
      | (Inr plain, t, w) \<Rightarrow> (Inr plain, t, w))"

definition aes_query ::
  "crypto \<Rightarrow> ('k, 'w) aes_env \<Rightarrow> aesTransport \<Rightarrow> byte list \<Rightarrow> 'w
     \<Rightarrow> (kasa_error + byte list) \<times> aesTransport \<times> 'w" where
  "aes_query C E t request w = aes_attempts 2 C E t request w"

definition aes_close :: "aesTransport \<Rightarrow> aesTransport" where
  "aes_close t = t\<lparr>at_established := False, at_token := [], at_sessionID := []\<rparr>"

subsection \<open>What a session is\<close>

text \<open>An established session has the two halves of the secret and a token.\<close>

definition aes_session_ok :: "aesTransport \<Rightarrow> bool" where
  "aes_session_ok t \<longleftrightarrow>
     (at_established t \<longrightarrow> length (at_key t) = 16 \<and> length (at_iv t) = 16 \<and> at_token t \<noteq> [])"

definition aes_config :: "aesTransport \<Rightarrow> string \<times> Credentials" where
  "aes_config t = (at_baseURL t, at_credentials t)"

lemma aes_post_frame:
  "aes_post E t query body w = (r, t', w') \<Longrightarrow> \<exists>sid. t' = t\<lparr>at_sessionID := sid\<rparr>"
proof -
  have "\<exists>sid. t = t\<lparr>at_sessionID := sid\<rparr>" by (rule exI [of _ "at_sessionID t"]) simp
  then show "aes_post E t query body w = (r, t', w') \<Longrightarrow> ?thesis"
    by (auto simp: aes_post_def Let_def split: sum.splits option.splits prod.splits if_splits)
qed

lemma aes_passthrough_frame:
  "aes_passthrough C E t request w = (r, t', w') \<Longrightarrow> \<exists>sid. t' = t\<lparr>at_sessionID := sid\<rparr>"
proof -
  have "\<exists>sid. t = t\<lparr>at_sessionID := sid\<rparr>" by (rule exI [of _ "at_sessionID t"]) simp
  then show "aes_passthrough C E t request w = (r, t', w') \<Longrightarrow> ?thesis"
    by (auto simp: aes_passthrough_def dest!: aes_post_frame split: sum.splits option.splits prod.splits)
qed

lemma login_token_nonempty: "login_token answer = Inr token \<Longrightarrow> token \<noteq> []"
  by (auto simp: login_token_def split: sum.splits option.splits if_splits)

lemma login_loop_result:
  "login_loop C E t ps lastErr w = (r, t', w') \<Longrightarrow>
    at_key t' = at_key t \<and> at_iv t' = at_iv t \<and> aes_config t' = aes_config t
    \<and> (case r of Inr _ \<Rightarrow> at_token t' \<noteq> [] \<and> at_established t' = at_established t
        | Inl e \<Rightarrow> \<not> at_established t' \<and> is_unauthorized e)"
proof (induction ps arbitrary: t lastErr w)
  case Nil
  then show ?case by (auto simp: aes_config_def split: option.split)
next
  case (Cons params rest)
  obtain now1 w1 where n1: "now_milli E w = (now1, w1)" by fastforce
  obtain now2 w2 where n2: "now_milli E w1 = (now2, w2)" by fastforce
  obtain answer t1 w3 where p: "aes_passthrough C E t (encoded (login_request params now1 now2)) w2 = (answer, t1, w3)"
    by (metis prod.collapse)
  obtain sid where t1: "t1 = t\<lparr>at_sessionID := sid\<rparr>" using aes_passthrough_frame [OF p] by blast
  show ?case
  proof (cases "login_token answer")
    case (Inl e)
    then have "login_loop C E t1 rest (Some e) w3 = (r, t', w')" using Cons.prems by (simp add: n1 n2 p)
    from Cons.IH [OF this] show ?thesis unfolding t1 aes_config_def by (simp split: sum.splits)
  next
    case (Inr token)
    then show ?thesis
      using Cons.prems login_token_nonempty [OF Inr] by (auto simp: n1 n2 p t1 aes_config_def)
  qed
qed

lemma session_secret_length: "session_secret E key result w = (Inr secret, w') \<Longrightarrow> length secret = 32"
  by (auto simp: session_secret_def aesSessionLen_def split: option.splits prod.splits if_splits)

text \<open>A connection that fails leaves no session, one that succeeds a complete one.\<close>

lemma aes_connect_result:
  assumes "aes_connect C E t w = (r, t', w')"
  shows "aes_config t' = aes_config t"
    and "\<not> at_established t \<Longrightarrow> aes_session_ok t' \<and> (at_established t' \<longleftrightarrow> (\<exists>u. r = Inr u))"
  using assms
  by (auto simp: aes_connect_def aes_login_def aes_install_def aes_session_ok_def aes_config_def Let_def
      dest!: aes_post_frame login_loop_result session_secret_length
      split: sum.splits option.splits prod.splits)

text \<open>One attempt: connect if need be.\<close>

definition aes_ready ::
  "crypto \<Rightarrow> ('k, 'w) aes_env \<Rightarrow> aesTransport \<Rightarrow> 'w \<Rightarrow> (kasa_error + unit) \<times> aesTransport \<times> 'w" where
  "aes_ready C E t w = (if at_established t then (Inr (), t, w) else aes_connect C E t w)"

lemma aes_ready_result:
  assumes "aes_ready C E t w = (r, t', w')"
  shows "aes_config t' = aes_config t"
    and "aes_session_ok t \<Longrightarrow> aes_session_ok t' \<and> (at_established t' \<longleftrightarrow> (\<exists>u. r = Inr u))"
  using assms aes_connect_result [of C E t w r t' w'] by (auto simp: aes_ready_def split: if_splits)

lemma aes_config_update [simp]:
  "aes_config (t\<lparr>at_sessionID := sid\<rparr>) = aes_config t"
  "aes_config (t\<lparr>at_established := b\<rparr>) = aes_config t"
  "aes_config (t\<lparr>at_token := tok\<rparr>) = aes_config t"
  by (simp_all add: aes_config_def)

lemma aes_session_ok_update [simp]:
  "aes_session_ok (t\<lparr>at_sessionID := sid\<rparr>) = aes_session_ok t"
  "aes_session_ok (t\<lparr>at_established := False\<rparr>)"
  by (simp_all add: aes_session_ok_def)

lemma aes_attempts_result:
  "aes_attempts n C E t request w = (r, t', w') \<Longrightarrow>
    aes_config t' = aes_config t \<and> (aes_session_ok t \<longrightarrow> aes_session_ok t')"
proof (induction n arbitrary: t w)
  case (Suc n)
  obtain x t1 w1 where h: "aes_ready C E t w = (x, t1, w1)" by (metis prod.collapse)
  note t1 = aes_ready_result [OF h]
  show ?case
  proof (cases x)
    case (Inl e)
    then show ?thesis using Suc.prems t1 by (auto simp: h [unfolded aes_ready_def])
  next
    case (Inr u)
    obtain y t2 w2 where p: "aes_passthrough C E t1 request w1 = (y, t2, w2)" by (metis prod.collapse)
    obtain sid where t2: "t2 = t1\<lparr>at_sessionID := sid\<rparr>" using aes_passthrough_frame [OF p] by blast
    have IH: "aes_attempts n C E (t2\<lparr>at_established := False\<rparr>) request w2 = (r, t', w') \<Longrightarrow> ?thesis"
      using Suc.IH [of "t2\<lparr>at_established := False\<rparr>" w2] t1(1) by (simp add: t2)
    show ?thesis
      using Suc.prems t1 IH
      by (auto simp: h [unfolded aes_ready_def] Inr p t2 split: sum.splits if_splits)
  qed
qed simp

interpretation aes: transport "aes_query C E" aes_close aes_session_ok aes_config
  for C :: crypto and E :: "('k, 'w) aes_env"
proof
  fix t t' request r and w w' :: 'w
  assume q: "aes_query C E t request w = (r, t', w')"
  show "aes_config t' = aes_config t" and "aes_session_ok t \<Longrightarrow> aes_session_ok t'"
    using q by (auto simp: aes_query_def dest!: aes_attempts_result)
qed (simp_all add: aes_close_def aes_session_ok_def)

subsection \<open>How many posts\<close>

definition traced_aes :: "('k, 'w) aes_env \<Rightarrow> ('k, 'w \<times> http_request list) aes_env" where
  "traced_aes E =
     \<lparr>aes_http = traced_http (aes_http E),
      generate_key = (\<lambda>(w, tr). case generate_key E w of (k, w) \<Rightarrow> (k, w, tr)),
      public_pem = public_pem E,
      decrypt_pkcs1 = (\<lambda>k c (w, tr). case decrypt_pkcs1 E k c w of (m, w) \<Rightarrow> (m, w, tr)),
      now_milli = (\<lambda>(w, tr). case now_milli E w of (n, w) \<Rightarrow> (n, w, tr))\<rparr>"

lemma traced_aes_simps [simp]:
  "generate_key (traced_aes E) (w, tr) = (case generate_key E w of (k, w) \<Rightarrow> (k, w, tr))"
  "public_pem (traced_aes E) = public_pem E"
  "decrypt_pkcs1 (traced_aes E) k c (w, tr) = (case decrypt_pkcs1 E k c w of (m, w) \<Rightarrow> (m, w, tr))"
  "now_milli (traced_aes E) (w, tr) = (case now_milli E w of (n, w) \<Rightarrow> (n, w, tr))"
  by (simp_all add: traced_aes_def)

lemma aes_post_trace:
  "aes_post (traced_aes E) t query body (w, tr) = (r, t', w', tr') \<Longrightarrow>
    tr' = tr @ [\<lparr>rq_url = at_baseURL t @ query, rq_body = body, rq_cookie = cookie_of (at_sessionID t)\<rparr>]"
  by (auto simp: aes_post_def traced_aes_def traced_http_def Let_def
      split: sum.splits option.splits prod.splits if_splits)

lemma aes_passthrough_trace:
  "aes_passthrough C (traced_aes E) t request (w, tr) = (r, t', w', tr') \<Longrightarrow>
    \<exists>rqs. tr' = tr @ rqs \<and> length rqs \<le> 1"
  by (auto simp: aes_passthrough_def dest!: aes_post_trace split: sum.splits prod.splits)

lemma login_loop_trace:
  "login_loop C (traced_aes E) t ps lastErr (w, tr) = (r, t', w', tr') \<Longrightarrow>
    \<exists>rqs. tr' = tr @ rqs \<and> length rqs \<le> length ps"
proof (induction ps arbitrary: t lastErr w tr)
  case (Cons params rest)
  obtain now1 w1 where n1: "now_milli E w = (now1, w1)" by fastforce
  obtain now2 w2 where n2: "now_milli E w1 = (now2, w2)" by fastforce
  obtain answer t1 w3 tr3 where p:
      "aes_passthrough C (traced_aes E) t (encoded (login_request params now1 now2)) (w2, tr) = (answer, t1, w3, tr3)"
    by (metis prod.collapse)
  obtain rqs where tr3: "tr3 = tr @ rqs" "length rqs \<le> 1" using aes_passthrough_trace [OF p] by blast
  show ?case
    using Cons.prems tr3 Cons.IH [of t1 _ w3 tr3] by (fastforce simp: n1 n2 p split: sum.splits)
qed simp

lemma session_secret_traced:
  "session_secret (traced_aes E) key result (w, tr) = (case session_secret E key result w of (r, w) \<Rightarrow> (r, w, tr))"
  by (simp add: session_secret_def split: option.split prod.split)

lemma length_aes_logins [simp]: "length (aes_logins C creds) = 2"
  by (simp add: aes_logins_def)

lemma aes_connect_trace:
  "aes_connect C (traced_aes E) t (w, tr) = (r, t', w', tr') \<Longrightarrow> \<exists>rqs. tr' = tr @ rqs \<and> length rqs \<le> 3"
  by (auto simp: aes_connect_def aes_login_def session_secret_traced Let_def
      dest!: aes_post_trace login_loop_trace split: sum.splits option.splits prod.splits)

lemma aes_attempts_trace:
  "aes_attempts n C (traced_aes E) t request (w, tr) = (r, t', w', tr') \<Longrightarrow>
    \<exists>rqs. tr' = tr @ rqs \<and> length rqs \<le> 4 * n"
proof (induction n arbitrary: t w tr)
  case (Suc n)
  obtain x t1 w1 tr1 where h: "aes_ready C (traced_aes E) t (w, tr) = (x, t1, w1, tr1)"
    by (metis prod.collapse)
  have p1: "\<exists>rqs. tr1 = tr @ rqs \<and> length rqs \<le> 3"
    using h aes_connect_trace [of C E t w tr x t1 w1 tr1] by (auto simp: aes_ready_def split: if_splits)
  from Suc.prems p1 show ?case
    by (auto simp: h [unfolded aes_ready_def] split: sum.splits prod.splits if_splits dest!: aes_passthrough_trace)
      (drule Suc.IH, force)
qed simp

subsection \<open>Base64 inside JSON\<close>

lemma ascii_valid: "\<forall>c \<in> set s. (of_char c :: nat) < 128 \<Longrightarrow> valid_utf8 s"
  by (induction s) (simp_all add: decode_rune_def)

lemma b64_char_ascii: "0 \<le> i \<Longrightarrow> i < 64 \<Longrightarrow> (of_char (b64_char i) :: nat) < 128"
proof -
  assume i: "0 \<le> i" "i < 64"
  have "(of_char (b64_char i) :: int) < 128" using i by (simp add: b64_char_def of_char_char_of_int)
  then show ?thesis by (metis of_nat_of_char of_nat_less_iff of_nat_numeral)
qed

lemma b64_encode_ascii: "\<forall>c \<in> set (b64_encode bs). (of_char c :: nat) < 128"
proof (induction bs rule: b64_encode.induct)
  case (2 a)
  have "uint a < 256" "0 \<le> uint a" by (rule uint_byte)+
  then have "(uint a * 16) div 64 < 64" "0 \<le> (uint a * 16) div 64" by linarith+
  then show ?case by (simp add: Let_def b64_char_ascii)
next
  case (3 a b)
  define n where "n = (uint a * 256 + uint b) * 4"
  have "0 \<le> n" "n < 4096 * 64" using uint_byte [of a] uint_byte [of b] by (simp_all add: n_def)
  then have "0 \<le> n div 4096" "n div 4096 < 64" by linarith+
  then show ?case unfolding b64_encode.simps Let_def n_def [symmetric] by (simp add: b64_char_ascii)
next
  case (4 a b c r)
  define n where "n = (uint a * 256 + uint b) * 256 + uint c"
  have "0 \<le> n" "n < 262144 * 64"
    using uint_byte [of a] uint_byte [of b] uint_byte [of c] by (simp_all add: n_def)
  then have "0 \<le> n div 262144" "n div 262144 < 64" by linarith+
  then show ?case using 4 unfolding b64_encode.simps Let_def n_def [symmetric] by (simp add: b64_char_ascii)
qed simp

lemma valid_utf8_b64 [simp]: "valid_utf8 (b64_encode bs)"
  by (rule ascii_valid [OF b64_encode_ascii])

text \<open>What a device answers to a passthrough request: the plain answer sealed under the session.\<close>

definition sealed_answer :: "crypto \<Rightarrow> byte list \<Rightarrow> byte list \<Rightarrow> byte list \<Rightarrow> json" where
  "sealed_answer C key iv plain =
     JObj [(''error_code'', jint 0),
           (''result'', JObj [(''response'', JStr (b64_encode (cbc_seal C key iv plain)))])]"

lemma num_int_zero: "num_int (itoa 0) = Some 0"
  by code_simp

lemma dec_sealed_answer:
  "wf_json (sealed_answer C key iv plain) \<and> depth (sealed_answer C key iv plain) \<le> 10000"
  "dec_aesEnvelope (sealed_answer C key iv plain) zero_aesEnvelope =
     Some (zero_aesEnvelope\<lparr>ae_Result := Some (JObj [(''response'', JStr (b64_encode (cbc_seal C key iv plain)))])\<rparr>)"
  by (simp_all add: sealed_answer_def decode_rune_def dec_aesEnvelope_def dec_struct_obj find_field_def
      field_dec_def dec_raw_def dec_int_def jint_def num_int_zero zero_aesEnvelope_def)

lemma passthrough_reply_sealed:
  assumes "crypto_ok C" and "length (at_key t) = 16" and "length (at_iv t) = 16"
    and "unmarshal dec_aesEnvelope zero_aesEnvelope (string_of plain) = Some inner" and "ae_ErrorCode inner = 0"
  shows "passthrough_reply C t (Some (JObj [(''response'',
      JStr (b64_encode (cbc_seal C (at_key t) (at_iv t) plain)))])) = Inr plain"
proof -
  have k: "aes_key_ok (at_key t)" using assms(2) by (simp add: aes_key_ok_def)
  note c = cbc_seal_length [OF assms(1) k assms(3), of plain]
  have "length (cbc_seal C (at_key t) (at_iv t) plain) mod 16 = 0" using c(1) by (rule dvd_imp_mod_0)
  then have "aes_decrypt C t (cbc_seal C (at_key t) (at_iv t) plain) = Inr plain"
    using k c(2) cbc_open_seal [OF assms(1) k assms(3)] by (simp add: aes_decrypt_def)
  then show ?thesis
    using assms(4,5)
    by (simp add: passthrough_reply_def dec_wrapped_def dec_struct_obj find_field_def dec_string_def aesErrorFor_def)
qed

lemma rs_status_reply [simp]: "rs_status (reply s b c) = s"
  by (simp add: reply_def)

subsection \<open>Properties\<close>

lemma aes_attempts_reply:
  "aes_session_ok t \<Longrightarrow> aes_attempts n C E t request w = (Inr plain, t', w') \<Longrightarrow> at_established t'"
proof (induction n arbitrary: t w)
  case (Suc n)
  obtain r1 t1 w1 where c: "aes_ready C E t w = (r1, t1, w1)" by (metis prod.collapse)
  show ?case
  proof (cases r1)
    case (Inr u)
    have ok: "at_established t1" "aes_session_ok t1" using aes_ready_result(2) [OF c Suc.prems(1)] Inr by auto
    obtain r2 t2 w2 where p: "aes_passthrough C E t1 request w1 = (r2, t2, w2)" by (metis prod.collapse)
    obtain sid where t2: "t2 = t1\<lparr>at_sessionID := sid\<rparr>" using aes_passthrough_frame [OF p] by blast
    have "aes_session_ok (t2\<lparr>at_established := False\<rparr>)" by (simp add: aes_session_ok_def)
    note Suc.IH [OF this]
    then show ?thesis using Suc.prems(2) ok(1) c unfolding aes_ready_def Inr
      by (auto simp: p t2 split: sum.splits if_splits)
  qed (use Suc.prems(2) c in \<open>simp add: aes_ready_def\<close>)
qed simp

text \<open>C10. Sessions are whole: whatever the device answers, a query that starts from no session or from a
  complete one ends the same way, with a 16-byte key, a 16-byte IV and a token whenever a session
  is held, for the same device and credentials; every reply it returns leaves a session held; and a
  close leaves none, nor its token nor its name, for the same device and credentials.\<close>

theorem aes_session_complete:
  assumes "aes_session_ok t" and "aes_query C E t request w = (r, t', w')"
  shows "(at_established t' \<longrightarrow> length (at_key t') = 16 \<and> length (at_iv t') = 16 \<and> at_token t' \<noteq> [])
    \<and> aes_config t' = aes_config t
    \<and> (\<forall>plain. r = Inr plain \<longrightarrow> at_established t')
    \<and> (let c = aes_close t' in \<not> at_established c \<and> at_token c = [] \<and> at_sessionID c = [] \<and> aes_session_ok c
         \<and> aes_config c = aes_config t)"
  using aes.query_valid [OF assms] aes.query_config [OF assms(2)] aes_attempts_reply [OF assms(1), of 2 C E request w]
    assms(2)
  by (simp add: aes_session_ok_def aes_close_def aes_config_def aes_query_def Let_def)

text \<open>C20. Passthrough is exact: in a session, one post carries the request under the session key, and a
  device that seals its answer gets it delivered byte for byte.\<close>

theorem aes_passthrough_exact:
  assumes "crypto_ok C" and "length (at_key t) = 16" and "length (at_iv t) = 16"
    and "http_do (aes_http E) \<lparr>rq_url = at_baseURL t @ token_query t,
        rq_body = encoded (passthrough_request (cbc_seal C (at_key t) (at_iv t) request)),
        rq_cookie = cookie_of (at_sessionID t)\<rparr> w = (Some (reply http_ok body []), w')"
    and "body = encoded (sealed_answer C (at_key t) (at_iv t) plain)" and "length body \<le> maxResponseBytes"
    and "unmarshal dec_aesEnvelope zero_aesEnvelope (string_of plain) = Some inner" and "ae_ErrorCode inner = 0"
  shows "aes_passthrough C E t request w = (Inr plain, t, w')
    \<and> cbc_open C (at_key t) (at_iv t) (cbc_seal C (at_key t) (at_iv t) request) = Inr request"
proof -
  have k: "aes_key_ok (at_key t)" using assms(2) by (simp add: aes_key_ok_def)
  have "aes_post E t (token_query t)
      (encoded (passthrough_request (cbc_seal C (at_key t) (at_iv t) request))) w =
      (Inr (Some (JObj [(''response'', JStr (b64_encode (cbc_seal C (at_key t) (at_iv t) plain)))])), t, w')"
    using assms(4,5,6) dec_sealed_answer [of C "at_key t" "at_iv t" plain]
    by (simp add: aes_post_def read_limited_reply session_cookie_reply encoded_def unmarshal_marshal Let_def
        aesErrorFor_def zero_aesEnvelope_def)
  then show ?thesis
    using k cbc_open_seal [OF assms(1) k assms(3)] passthrough_reply_sealed [OF assms(1-3,7,8)]
    by (simp add: aes_passthrough_def aes_encrypt_def)
qed

text \<open>C37. A query is bounded: at most two attempts of one handshake, two logins and one request each.\<close>

theorem aes_query_bounded:
  assumes "aes_query C (traced_aes E) t request (w, []) = (r, t', w', tr)"
  shows "length tr \<le> 8"
  using aes_attempts_trace [of 2 C E t request w "[]" r t' w' tr] assms
  by (auto simp: aes_query_def)

definition silent_aes :: "(unit, unit) aes_env" where
  "silent_aes =
     \<lparr>aes_http = \<lparr>http_do = (\<lambda>_ w. (None, w)), rand_read = (\<lambda>_ w. (None, w))\<rparr>,
      generate_key = (\<lambda>w. (Some (), w)), public_pem = (\<lambda>_. Some ''PEM''),
      decrypt_pkcs1 = (\<lambda>_ c w. (Some c, w)), now_milli = (\<lambda>w. (0, w))\<rparr>"

definition fresh_aes :: aesTransport where
  "fresh_aes =
     \<lparr>at_baseURL = ''http://h:80/app'', at_credentials = \<lparr>Username = ''u'', Password = ''p''\<rparr>,
      at_key = [], at_iv = [], at_token = [], at_sessionID = [], at_established = False\<rparr>"

definition live_aes :: aesTransport where
  "live_aes = fresh_aes\<lparr>at_key := replicate 16 1, at_iv := replicate 16 2, at_token := ''T'', at_established := True\<rparr>"

definition answering_aes :: "byte list \<Rightarrow> (unit, unit) aes_env" where
  "answering_aes body =
     silent_aes\<lparr>aes_http := \<lparr>http_do = (\<lambda>_ w. (Some (reply http_ok body []), w)), rand_read = (\<lambda>_ w. (None, w))\<rparr>\<rparr>"

theorem aes_session_complete_witness:
  "\<exists>r t' w'. aes_query toy_crypto silent_aes live_aes [1] () = (r, t', w') \<and> at_token t' = ''T''"
proof -
  obtain r t' w' where q: "aes_query toy_crypto silent_aes live_aes [1] () = (r, t', w')"
    by (metis prod.collapse)
  have ok: "aes_session_ok live_aes" by (simp add: aes_session_ok_def live_aes_def)
  have "at_token t' = ''T''"
    using aes_session_complete [OF ok q] q
    by (auto simp: aes_query_def numeral_2_eq_2 live_aes_def aes_passthrough_def aes_encrypt_def aes_key_ok_def
        aes_post_def silent_aes_def)
  with q show ?thesis by blast
qed

lemma sealed_length: "length (encoded (sealed_answer toy_crypto (replicate 16 1) (replicate 16 2) (bytes_of ''{}''))) < 200"
  by code_simp

lemma inner_ok: "unmarshal dec_aesEnvelope zero_aesEnvelope ''{}'' = Some zero_aesEnvelope"
  by code_simp

theorem aes_passthrough_exact_witness:
  "fst (aes_passthrough toy_crypto
       (answering_aes (encoded (sealed_answer toy_crypto (replicate 16 1) (replicate 16 2) (bytes_of ''{}''))))
       live_aes [7, 8] ()) = Inr (bytes_of ''{}'')"
proof -
  define body where "body = encoded (sealed_answer toy_crypto (replicate 16 1) (replicate 16 2) (bytes_of ''{}''))"
  have keys: "at_key live_aes = replicate 16 1" "at_iv live_aes = replicate 16 2" by (simp_all add: live_aes_def)
  have b: "body = encoded (sealed_answer toy_crypto (at_key live_aes) (at_iv live_aes) (bytes_of ''{}''))"
    by (simp only: body_def keys)
  have l: "length body \<le> maxResponseBytes"
    using sealed_length unfolding body_def [symmetric] by (simp add: maxResponseBytes_def)
  have h: "http_do (aes_http (answering_aes body)) rq () = (Some (reply http_ok body []), ())" for rq
    by (simp add: answering_aes_def)
  have i: "unmarshal dec_aesEnvelope zero_aesEnvelope (string_of (bytes_of ''{}'')) = Some zero_aesEnvelope"
    using inner_ok by (simp only: string_of_bytes_of)
  have "aes_passthrough toy_crypto (answering_aes body) live_aes [7, 8] () = (Inr (bytes_of ''{}''), live_aes, ())
      \<and> cbc_open toy_crypto (at_key live_aes) (at_iv live_aes)
          (cbc_seal toy_crypto (at_key live_aes) (at_iv live_aes) [7, 8]) = Inr [7, 8]"
    by (rule aes_passthrough_exact [OF toy_crypto_ok _ _ h b l i])
      (simp_all only: keys length_replicate, simp add: zero_aesEnvelope_def)
  then show ?thesis unfolding body_def by (simp only: fst_conv)
qed

theorem aes_query_bounded_witness:
  "\<exists>r t' w' tr. aes_query toy_crypto (traced_aes silent_aes) live_aes [1] ((), []) = (r, t', w', tr) \<and> length tr \<le> 8"
  using aes_query_bounded [of toy_crypto silent_aes live_aes "[1]" "()"] by (metis prod.collapse)

lemma login_loop_unreachable:
  assumes "aes_key_ok (at_key t)" and "\<And>rq w. fst (http_do (aes_http E) rq w) = None"
  shows "ps \<noteq> [] \<or> lastErr = Some (HttpError RequestFailed) \<Longrightarrow>
    \<exists>t' w'. login_loop C E t ps lastErr w = (Inl (AesUnauthorized (HttpError RequestFailed)), t', w')
      \<and> \<not> at_established t'"
proof (induction ps arbitrary: lastErr w)
  case (Cons params rest)
  have post: "\<exists>w'. aes_post E t query body w = (Inl (HttpError RequestFailed), t, w')" for query body w
    using assms(2) [of "\<lparr>rq_url = at_baseURL t @ query, rq_body = body, rq_cookie = cookie_of (at_sessionID t)\<rparr>" w]
    by (auto simp: aes_post_def split: prod.split)
  have p: "\<exists>w'. aes_passthrough C E t rq w = (Inl (HttpError RequestFailed), t, w')" for rq w
    using post [of "token_query t" "encoded (passthrough_request (cbc_seal C (at_key t) (at_iv t) rq))" w] assms(1)
    by (auto simp: aes_passthrough_def aes_encrypt_def)
  obtain now1 w1 now2 w2 where n: "now_milli E w = (now1, w1)" "now_milli E w1 = (now2, w2)" by fastforce
  obtain w3 where "aes_passthrough C E t (encoded (login_request params now1 now2)) w2 =
      (Inl (HttpError RequestFailed), t, w3)" using p by blast
  then show ?case using Cons.IH [of "Some (HttpError RequestFailed)" w3] by (simp add: n login_token_def)
qed simp

text \<open>A login that never got an answer counts as refused: when neither login reaches the device at
  all, the error is the one that stops the connect path as a credential failure would.\<close>

theorem aes_unreachable_login_is_refused:
  assumes "aes_key_ok (at_key t)" and "\<And>rq w. fst (http_do (aes_http E) rq w) = None"
  shows "\<exists>t' w'. aes_login C E t w = (Inl (AesUnauthorized (HttpError RequestFailed)), t', w')
    \<and> is_unauthorized (AesUnauthorized (HttpError RequestFailed)) \<and> \<not> at_established t'"
  using login_loop_unreachable [OF assms, where ps = "aes_logins C (at_credentials t)" and lastErr = None and C = C and w = w]
  by (auto simp: aes_login_def aes_logins_def)

theorem aes_unreachable_login_is_refused_witness:
  "\<exists>t' w'. aes_login toy_crypto silent_aes live_aes () = (Inl (AesUnauthorized (HttpError RequestFailed)), t', w')
    \<and> \<not> at_established t'"
  using aes_unreachable_login_is_refused [of live_aes silent_aes toy_crypto "()"]
  by (auto simp: live_aes_def aes_key_ok_def silent_aes_def)

end
