(* ===== verification/Discover.thy ===== *)
theory Discover
  imports Xor Klap Smart "HOL-Library.AList"
begin

text \<open>
  Discovery, \<^verbatim>\<open>kasa/discover.go\<close>: the two probes, the replies of the two device ranges, and the
  collection of one description per device.
\<close>

definition discoveryPortIOT :: int where "discoveryPortIOT = 9999"
definition discoveryPortSMART :: int where "discoveryPortSMART = 20002"

definition discoveryProbeSMART :: "byte list" where
  "discoveryProbeSMART =
     [0x02, 0x00, 0x00, 0x01, 0x00, 0x00, 0x00, 0x00, 0x00, 0x00, 0x00, 0x00, 0x46, 0x3C, 0xB5, 0xD3]"

definition discoveryHeaderSMART :: nat where "discoveryHeaderSMART = 16"

definition encryptXOR :: string where "encryptXOR = ''XOR''"
definition encryptKLAP :: string where "encryptKLAP = ''KLAP''"
definition encryptAES :: string where "encryptAES = ''AES''"

lemmas encrypt_names = encryptXOR_def encryptKLAP_def encryptAES_def

record discoveryResult =
  dr_Host :: string
  dr_Alias :: string
  dr_Model :: string
  dr_DeviceID :: string
  dr_MAC :: string
  dr_Family :: string
  dr_EncryptType :: string
  dr_HTTPPort :: int
  dr_LoginVersion :: int
  dr_HTTPS :: bool

definition zero_discoveryResult :: discoveryResult where
  "zero_discoveryResult =
     \<lparr>dr_Host = [], dr_Alias = [], dr_Model = [], dr_DeviceID = [], dr_MAC = [], dr_Family = [],
      dr_EncryptType = [], dr_HTTPPort = 0, dr_LoginVersion = 0, dr_HTTPS = False\<rparr>"

definition dr_dialect :: "discoveryResult \<Rightarrow> Protocol" where
  "dr_dialect d = (if has_prefix (to_upper (dr_Family d)) ''SMART'' then ProtocolSMART else ProtocolIOT)"

definition dr_loginVersion :: "discoveryResult \<Rightarrow> int" where
  "dr_loginVersion d =
     (if dr_LoginVersion d \<noteq> 0 then dr_LoginVersion d
      else if dr_dialect d = ProtocolSMART then klapLoginV2
      else klapLoginV1)"

definition dr_port :: "discoveryResult \<Rightarrow> int" where
  "dr_port d = (if dr_HTTPPort d \<noteq> 0 then dr_HTTPPort d else 80)"

subsection \<open>Replies\<close>

record encryptScheme =
  es_IsSupportHTTPS :: bool
  es_EncryptType :: string
  es_HTTPPort :: int
  es_LoginVersion :: int

definition zero_encryptScheme :: encryptScheme where
  "zero_encryptScheme = \<lparr>es_IsSupportHTTPS = False, es_EncryptType = [], es_HTTPPort = 0, es_LoginVersion = 0\<rparr>"

definition dec_encryptScheme :: "encryptScheme decoder" where
  "dec_encryptScheme = dec_struct
     [(''is_support_https'', field_dec dec_bool es_IsSupportHTTPS es_IsSupportHTTPS_update),
      (''encrypt_type'', field_dec dec_string es_EncryptType es_EncryptType_update),
      (''http_port'', field_dec dec_int es_HTTPPort es_HTTPPort_update),
      (''lv'', field_dec dec_int es_LoginVersion es_LoginVersion_update)]"

record smartDiscoveryResult =
  sd_DeviceID :: string
  sd_DeviceType :: string
  sd_DeviceModel :: string
  sd_Alias :: string
  sd_IP :: string
  sd_MAC :: string
  sd_EncryptScheme :: "encryptScheme option"

definition dec_smartDiscoveryResult :: "smartDiscoveryResult decoder" where
  "dec_smartDiscoveryResult = dec_struct
     [(''device_id'', field_dec dec_string sd_DeviceID sd_DeviceID_update),
      (''device_type'', field_dec dec_string sd_DeviceType sd_DeviceType_update),
      (''device_model'', field_dec dec_string sd_DeviceModel sd_DeviceModel_update),
      (''alias'', field_dec dec_string sd_Alias sd_Alias_update),
      (''ip'', field_dec dec_string sd_IP sd_IP_update),
      (''mac'', field_dec dec_string sd_MAC sd_MAC_update),
      (''mgt_encrypt_schm'', field_dec (dec_ptr zero_encryptScheme dec_encryptScheme)
         sd_EncryptScheme sd_EncryptScheme_update)]"

record smartDiscoveryReply =
  sr_ErrorCode :: int
  sr_Result :: smartDiscoveryResult

definition zero_smartDiscoveryReply :: smartDiscoveryReply where
  "zero_smartDiscoveryReply =
     \<lparr>sr_ErrorCode = 0,
      sr_Result = \<lparr>sd_DeviceID = [], sd_DeviceType = [], sd_DeviceModel = [], sd_Alias = [], sd_IP = [],
        sd_MAC = [], sd_EncryptScheme = None\<rparr>\<rparr>"

definition dec_smartDiscoveryReply :: "smartDiscoveryReply decoder" where
  "dec_smartDiscoveryReply = dec_struct
     [(''error_code'', field_dec dec_int sr_ErrorCode sr_ErrorCode_update),
      (''result'', field_dec dec_smartDiscoveryResult sr_Result sr_Result_update)]"

definition parseIOTDiscovery :: "string \<Rightarrow> byte list \<Rightarrow> discoveryResult option" where
  "parseIOTDiscovery host data =
     (case unmarshal dec_iotResponse zero_iotResponse (string_of (xorDecrypt data)) of
        None \<Rightarrow> None
      | Some response \<Rightarrow>
      case ir_System response of
        Some (Some sysinfo) \<Rightarrow>
          Some (zero_discoveryResult
            \<lparr>dr_Host := host, dr_Alias := is_Alias sysinfo, dr_Model := is_Model sysinfo,
             dr_DeviceID := is_DeviceID sysinfo, dr_MAC := iot_mac sysinfo,
             dr_Family := iot_family sysinfo, dr_EncryptType := encryptXOR\<rparr>)
      | _ \<Rightarrow> None)"

definition parseSMARTDiscovery :: "string \<Rightarrow> byte list \<Rightarrow> discoveryResult option" where
  "parseSMARTDiscovery host data =
     (if length data \<le> discoveryHeaderSMART then None
      else case unmarshal dec_smartDiscoveryReply zero_smartDiscoveryReply
          (string_of (drop discoveryHeaderSMART data)) of
        None \<Rightarrow> None
      | Some answer \<Rightarrow>
          let r = sr_Result answer in
          if sr_ErrorCode answer \<noteq> 0 \<or> sd_DeviceModel r = [] then None
          else
          let result = zero_discoveryResult
                \<lparr>dr_Host := host, dr_Alias := sd_Alias r, dr_Model := sd_DeviceModel r,
                 dr_DeviceID := sd_DeviceID r, dr_MAC := sd_MAC r, dr_Family := sd_DeviceType r\<rparr>;
              result = (case sd_EncryptScheme r of
                  None \<Rightarrow> result
                | Some scheme \<Rightarrow> result
                    \<lparr>dr_EncryptType := to_upper (es_EncryptType scheme), dr_HTTPPort := es_HTTPPort scheme,
                     dr_LoginVersion := es_LoginVersion scheme, dr_HTTPS := es_IsSupportHTTPS scheme\<rparr>) in
          Some (if dr_EncryptType result = [] then result\<lparr>dr_EncryptType := encryptKLAP\<rparr> else result))"

definition parseDiscoveryReply :: "string \<Rightarrow> int \<Rightarrow> byte list \<Rightarrow> discoveryResult option" where
  "parseDiscoveryReply host port data =
     (if port = discoveryPortIOT then parseIOTDiscovery host data
      else if port = discoveryPortSMART then parseSMARTDiscovery host data
      else None)"

subsection \<open>Probing\<close>

text \<open>
  The UDP socket as a record of operations. \<open>udp_receive\<close> gives the source address and port and
  the bytes of a datagram cut to the 64 KiB buffer, or nothing when the read fails, which is also
  how the read deadline ends the collection. \<open>map_order\<close> is the order in which Go ranges over a
  map with the given keys.
\<close>

record 'w udp_env =
  udp_listen :: "'w \<Rightarrow> bool \<times> 'w"
  udp_resolve :: "string \<Rightarrow> 'w \<Rightarrow> string option \<times> 'w"
  udp_write :: "byte list \<Rightarrow> string \<Rightarrow> 'w \<Rightarrow> bool \<times> 'w"
  udp_set_deadline :: "int \<Rightarrow> 'w \<Rightarrow> bool \<times> 'w"
  udp_receive :: "'w \<Rightarrow> (string \<times> int \<times> byte list) option \<times> 'w"
  udp_close :: "'w \<Rightarrow> 'w"
  udp_now :: "'w \<Rightarrow> int"
  map_order :: "string list \<Rightarrow> 'w \<Rightarrow> string list \<times> 'w"

definition iotProbe :: "byte list" where
  \<open>iotProbe = xorEncrypt (bytes_of ''{"system":{"get_sysinfo":{}}}'')\<close>

text \<open>The sending loop, with the packets still to send and whether a write has failed.\<close>

fun probe_loop :: "'w udp_env \<Rightarrow> string \<Rightarrow> string \<Rightarrow> nat \<Rightarrow> bool \<Rightarrow> 'w \<Rightarrow> bool \<times> 'w" where
  "probe_loop E iotAddr smartAddr 0 sendErr w = (sendErr, w)"
| "probe_loop E iotAddr smartAddr (Suc n) sendErr w =
     (case udp_write E iotProbe iotAddr w of (ok1, w) \<Rightarrow>
      case udp_write E discoveryProbeSMART smartAddr w of (ok2, w) \<Rightarrow>
      probe_loop E iotAddr smartAddr n (sendErr \<or> \<not> ok1 \<or> \<not> ok2) w)"

definition probe :: "'w udp_env \<Rightarrow> int \<Rightarrow> string \<Rightarrow> 'w \<Rightarrow> (kasa_error + unit) \<times> 'w" where
  "probe E packets target w =
     (case udp_resolve E (join_host_port target discoveryPortIOT) w of
        (None, w) \<Rightarrow> (Inl (ConnectError ResolveFailed), w)
      | (Some iotAddr, w) \<Rightarrow>
      case udp_resolve E (join_host_port target discoveryPortSMART) w of
        (None, w) \<Rightarrow> (Inl (ConnectError ResolveFailed), w)
      | (Some smartAddr, w) \<Rightarrow>
      case probe_loop E iotAddr smartAddr (nat packets) False w of (sendErr, w) \<Rightarrow>
        (if sendErr then Inl (ConnectError ProbeFailed) else Inr (), w))"

subsection \<open>Collecting\<close>

type_synonym found = "(string \<times> discoveryResult) list"

definition record_reply :: "(string \<times> int \<times> byte list) \<Rightarrow> found \<Rightarrow> found" where
  "record_reply datagram found =
     (case datagram of (host, port, data) \<Rightarrow>
      case parseDiscoveryReply host port data of
        None \<Rightarrow> found
      | Some result \<Rightarrow>
      case map_of found host of
        Some existing \<Rightarrow>
          if dr_EncryptType existing \<noteq> encryptXOR \<and> dr_EncryptType result = encryptXOR then found
          else AList.update host result found
      | None \<Rightarrow> AList.update host result found)"

text \<open>The reading loop; \<^term>\<open>None\<close> stands for a loop that never sees its deadline.\<close>

partial_function (option) collect :: "'w udp_env \<Rightarrow> int \<Rightarrow> found \<Rightarrow> 'w \<Rightarrow> (found \<times> 'w) option" where
  "collect E deadline found w =
     (case udp_set_deadline E deadline w of (ok, w) \<Rightarrow>
      if \<not> ok then Some (found, w)
      else case udp_receive E w of
          (None, w) \<Rightarrow> Some (found, w)
        | (Some datagram, w) \<Rightarrow> collect E deadline (record_reply datagram found) w)"

definition discover ::
  "'w udp_env \<Rightarrow> ctx \<Rightarrow> string \<Rightarrow> int \<Rightarrow> int \<Rightarrow> 'w \<Rightarrow> ((kasa_error + discoveryResult list) \<times> 'w) option" where
  "discover E c target timeout packets w =
     (case udp_listen E w of (ok, w) \<Rightarrow>
      if \<not> ok then Some (Inl (ConnectError SocketFailed), w)
      else case probe E packets target w of
          (Inl e, w) \<Rightarrow> Some (Inl e, udp_close E w)
        | (Inr _, w) \<Rightarrow>
            let deadline = udp_now E w + timeout;
                deadline = (case ctx_deadline c of None \<Rightarrow> deadline
                  | Some d \<Rightarrow> if d < deadline then d else deadline) in
            case collect E deadline [] w of
              None \<Rightarrow> None
            | Some (found, w) \<Rightarrow>
                (case map_order E (map fst found) w of (hosts, w) \<Rightarrow>
                 Some (Inr (List.map_filter (map_of found) hosts), udp_close E w)))"

definition discoverHost ::
  "'w udp_env \<Rightarrow> ctx \<Rightarrow> string \<Rightarrow> int \<Rightarrow> 'w \<Rightarrow> ((kasa_error + discoveryResult) \<times> 'w) option" where
  "discoverHost E c host timeout w =
     (case discover E c host timeout 1 w of
        None \<Rightarrow> None
      | Some (Inl e, w) \<Rightarrow> Some (Inl e, w)
      | Some (Inr [], w) \<Rightarrow> Some (Inl (ConnectError (NoAnswer host)), w)
      | Some (Inr (result # _), w) \<Rightarrow> Some (Inr (result\<lparr>dr_Host := host\<rparr>), w))"

subsection \<open>What is collected\<close>

lemma iotProbe_request: "iotProbe = xorEncrypt (encoded (jmap [sysinfo_member]))"
proof -
  have "bytes_of ''{\"system\":{\"get_sysinfo\":{}}}'' = encoded (jmap [sysinfo_member])" by code_simp
  then show ?thesis by (simp only: iotProbe_def)
qed

text \<open>A socket that hands over the datagrams \<open>ds\<close> before the deadline ends the reading.\<close>

inductive delivers :: "'w udp_env \<Rightarrow> int \<Rightarrow> 'w \<Rightarrow> (string \<times> int \<times> byte list) list \<Rightarrow> 'w \<Rightarrow> bool"
  for E deadline where
  deadline_passed: "udp_set_deadline E deadline w = (True, w1) \<Longrightarrow> udp_receive E w1 = (None, w2) \<Longrightarrow>
    delivers E deadline w [] w2"
| datagram: "udp_set_deadline E deadline w = (True, w1) \<Longrightarrow> udp_receive E w1 = (Some d, w2) \<Longrightarrow>
    delivers E deadline w2 ds w3 \<Longrightarrow> delivers E deadline w (d # ds) w3"

inductive_cases delivers_NilE: "delivers E deadline w [] w'"

lemma collect_delivers:
  "delivers E deadline w ds w' \<Longrightarrow>
    collect E deadline found w = Some (foldl (\<lambda>f d. record_reply d f) found ds, w')"
  by (induction arbitrary: found rule: delivers.induct) (subst collect.simps, simp)+

text \<open>The replies of one host, in order of arrival, and the one to believe: the last that names a
  transport of its own or, when all came from the legacy port, the last.\<close>

definition replies_of :: "string \<Rightarrow> (string \<times> int \<times> byte list) list \<Rightarrow> discoveryResult list" where
  "replies_of host ds =
     List.map_filter (\<lambda>(h, port, data). if h = host then parseDiscoveryReply h port data else None) ds"

definition best_reply :: "discoveryResult list \<Rightarrow> discoveryResult option" where
  "best_reply rs =
     (let named = filter (\<lambda>r. dr_EncryptType r \<noteq> encryptXOR) rs in
      if named \<noteq> [] then Some (last named) else if rs \<noteq> [] then Some (last rs) else None)"

lemma replies_of_snoc:
  "replies_of host (ds @ [(h, port, data)]) = replies_of host ds @
     (if h = host then (case parseDiscoveryReply h port data of None \<Rightarrow> [] | Some r \<Rightarrow> [r]) else [])"
  by (auto simp: replies_of_def List.map_filter_def split: option.split)

lemma best_reply_snoc:
  "best_reply (rs @ [r]) =
     (case best_reply rs of
        Some b \<Rightarrow> if dr_EncryptType b \<noteq> encryptXOR \<and> dr_EncryptType r = encryptXOR then Some b else Some r
      | None \<Rightarrow> Some r)"
proof (cases "filter (\<lambda>r. dr_EncryptType r \<noteq> encryptXOR) rs = []")
  case True
  then have "rs \<noteq> [] \<Longrightarrow> dr_EncryptType (last rs) = encryptXOR" by (simp add: filter_empty_conv)
  with True show ?thesis by (simp add: best_reply_def)
next
  case False
  then have "dr_EncryptType (last (filter (\<lambda>r. dr_EncryptType r \<noteq> encryptXOR) rs)) \<noteq> encryptXOR"
    using last_in_set by fastforce
  with False show ?thesis by (simp add: best_reply_def)
qed

lemma map_of_record_reply:
  "map_of (record_reply (h, port, data) found) =
     (case parseDiscoveryReply h port data of
        None \<Rightarrow> map_of found
      | Some r \<Rightarrow> (map_of found)(h \<mapsto> (case map_of found h of
            Some b \<Rightarrow> if dr_EncryptType b \<noteq> encryptXOR \<and> dr_EncryptType r = encryptXOR then b else r
          | None \<Rightarrow> r)))"
  by (auto simp: record_reply_def update_conv' map_upd_triv split: option.split)

lemma distinct_record_reply: "distinct (map fst found) \<Longrightarrow> distinct (map fst (record_reply d found))"
  by (auto simp: record_reply_def distinct_update split: option.split prod.split)

lemma collected:
  "distinct (map fst (foldl (\<lambda>f d. record_reply d f) [] ds)) \<and>
   map_of (foldl (\<lambda>f d. record_reply d f) [] ds) host = best_reply (replies_of host ds)"
proof (induction ds rule: rev_induct)
  case Nil
  then show ?case by (simp add: replies_of_def best_reply_def List.map_filter_def)
next
  case (snoc d ds)
  obtain h port data where d: "d = (h, port, data)" by (cases d)
  show ?case
    using snoc
    by (auto simp: d distinct_record_reply map_of_record_reply replies_of_snoc best_reply_snoc
        split: option.split)
qed

subsection \<open>What is sent\<close>

text \<open>A socket that records every datagram written and whether the write succeeded.\<close>

definition traced_udp :: "'w udp_env \<Rightarrow> ('w \<times> (byte list \<times> string \<times> bool) list) udp_env" where
  "traced_udp E =
     \<lparr>udp_listen = (\<lambda>(w, tr). case udp_listen E w of (r, w) \<Rightarrow> (r, w, tr)),
      udp_resolve = (\<lambda>a (w, tr). case udp_resolve E a w of (r, w) \<Rightarrow> (r, w, tr)),
      udp_write = (\<lambda>bs a (w, tr). case udp_write E bs a w of (ok, w) \<Rightarrow> (ok, w, tr @ [(bs, a, ok)])),
      udp_set_deadline = (\<lambda>d (w, tr). case udp_set_deadline E d w of (r, w) \<Rightarrow> (r, w, tr)),
      udp_receive = (\<lambda>(w, tr). case udp_receive E w of (r, w) \<Rightarrow> (r, w, tr)),
      udp_close = (\<lambda>(w, tr). (udp_close E w, tr)),
      udp_now = (\<lambda>(w, tr). udp_now E w),
      map_order = (\<lambda>ks (w, tr). case map_order E ks w of (r, w) \<Rightarrow> (r, w, tr))\<rparr>"

lemma probe_loop_trace:
  "probe_loop (traced_udp E) a b n sendErr (w, tr) = (r, w', tr') \<Longrightarrow>
    \<exists>ws. tr' = tr @ ws \<and> map (\<lambda>(bs, addr, ok). (bs, addr)) ws = concat (replicate n [(iotProbe, a), (discoveryProbeSMART, b)])
      \<and> (r \<longleftrightarrow> sendErr \<or> (\<exists>x \<in> set ws. \<not> snd (snd x)))"
proof (induction n arbitrary: sendErr w tr)
  case (Suc n)
  obtain ok1 w1 where 1: "udp_write E iotProbe a w = (ok1, w1)" by fastforce
  obtain ok2 w2 where 2: "udp_write E discoveryProbeSMART b w1 = (ok2, w2)" by fastforce
  have "probe_loop (traced_udp E) a b n (sendErr \<or> \<not> ok1 \<or> \<not> ok2)
      (w2, tr @ [(iotProbe, a, ok1), (discoveryProbeSMART, b, ok2)]) = (r, w', tr')"
    using Suc.prems by (simp add: traced_udp_def 1 2)
  from Suc.IH [OF this] obtain ws where
      "tr' = (tr @ [(iotProbe, a, ok1), (discoveryProbeSMART, b, ok2)]) @ ws"
      "map (\<lambda>(bs, addr, ok). (bs, addr)) ws = concat (replicate n [(iotProbe, a), (discoveryProbeSMART, b)])"
      "r \<longleftrightarrow> (sendErr \<or> \<not> ok1 \<or> \<not> ok2) \<or> (\<exists>x \<in> set ws. \<not> snd (snd x))"
    by blast
  then show ?case
    by (intro exI [of _ "(iotProbe, a, ok1) # (discoveryProbeSMART, b, ok2) # ws"]) auto
qed simp

subsection \<open>Properties\<close>

text \<open>C16. One description per device, the best there is: whatever datagrams arrive, in whatever order,
  the collection ends with the deadline and holds for each host that sent a recognisable reply
  exactly one description, the last one that names a transport or, when only the legacy port
  answered, the last of those; nothing is held for any other host.\<close>

theorem collect_keeps_best_reply:
  assumes "delivers E deadline w ds w'"
  shows "\<exists>found. collect E deadline [] w = Some (found, w') \<and> distinct (map fst found)
    \<and> (\<forall>host. map_of found host = best_reply (replies_of host ds))"
  using collect_delivers [OF assms, of "[]"] collected [of ds] by auto

text \<open>A socket that hands over queued datagrams.\<close>

definition queue_env :: "(string \<times> int \<times> byte list) list udp_env" where
  "queue_env =
     \<lparr>udp_listen = (\<lambda>w. (True, w)), udp_resolve = (\<lambda>a w. (Some a, w)), udp_write = (\<lambda>_ _ w. (True, w)),
      udp_set_deadline = (\<lambda>_ w. (True, w)),
      udp_receive = (\<lambda>w. case w of [] \<Rightarrow> (None, []) | d # ds \<Rightarrow> (Some d, ds)),
      udp_close = (\<lambda>w. w), udp_now = (\<lambda>_. 0), map_order = (\<lambda>ks w. (ks, w))\<rparr>"

lemma queue_delivers: "delivers queue_env deadline ds ds []"
  by (induction ds) (auto intro!: delivers.intros simp: queue_env_def)

definition smart_json :: json where
  "smart_json = JObj [(''result'', JObj [(''device_model'', JStr ''HS300'')])]"

definition legacy_json :: json where
  "legacy_json = JObj [(''system'', JObj [(''get_sysinfo'', JObj [(''model'', JStr ''HS300'')])])]"

definition smart_datagram :: "byte list" where
  "smart_datagram = replicate 16 0 @ encoded smart_json"

definition legacy_datagram :: "byte list" where
  "legacy_datagram = xorEncrypt (encoded legacy_json)"

lemma example_texts:
  "map_option (\<lambda>a. (sr_ErrorCode a, sd_DeviceModel (sr_Result a), sd_EncryptScheme (sr_Result a)))
     (unmarshal dec_smartDiscoveryReply zero_smartDiscoveryReply (marshal smart_json)) = Some (0, ''HS300'', None)"
  "(case unmarshal dec_iotResponse zero_iotResponse (marshal legacy_json) of
      Some a \<Rightarrow> (case ir_System a of Some (Some s) \<Rightarrow> True | _ \<Rightarrow> False) | None \<Rightarrow> False)"
  "marshal smart_json \<noteq> []"
  by code_simp+

lemma example_replies:
  "map_option dr_EncryptType (parseSMARTDiscovery ''h'' smart_datagram) = Some ''KLAP''"
  "map_option dr_EncryptType (parseIOTDiscovery ''h'' legacy_datagram) = Some ''XOR''"
  using example_texts
  by (auto simp: parseSMARTDiscovery_def parseIOTDiscovery_def smart_datagram_def legacy_datagram_def encoded_def
      discoveryHeaderSMART_def zero_discoveryResult_def encrypt_names Let_def split: option.splits)

theorem collect_keeps_best_reply_witness:
  "\<exists>found w'. collect queue_env 5 [] [(''h'', 20002, smart_datagram), (''h'', 9999, legacy_datagram)] = Some (found, w')
    \<and> map_option dr_EncryptType (map_of found ''h'') = Some ''KLAP''"
proof -
  let ?ds = "[(''h'', 20002, smart_datagram), (''h'', 9999, legacy_datagram)]"
  obtain found where f: "collect queue_env 5 [] ?ds = Some (found, [])"
      "map_of found ''h'' = best_reply (replies_of ''h'' ?ds)"
    using collect_keeps_best_reply [OF queue_delivers [of 5 ?ds]] by blast
  obtain s l where p: "parseSMARTDiscovery ''h'' smart_datagram = Some s" "dr_EncryptType s = ''KLAP''"
      "parseIOTDiscovery ''h'' legacy_datagram = Some l" "dr_EncryptType l = ''XOR''"
    using example_replies by auto
  have "best_reply (replies_of ''h'' ?ds) = Some s"
    using p by (simp add: replies_of_def List.map_filter_def parseDiscoveryReply_def discoveryPortIOT_def
        discoveryPortSMART_def best_reply_def encryptXOR_def)
  then show ?thesis using f p by auto
qed

text \<open>C35. What probing sends: when both addresses resolve, each pass sends the legacy probe to port
  9999 and the SMART probe to port 20002, once each and in that order, as often as asked; and a
  single write that fails, whichever it is, makes the whole probe an error.\<close>

theorem probe_sends_both:
  assumes "udp_resolve E (join_host_port target 9999) w = (Some a, w1)"
    and "udp_resolve E (join_host_port target 20002) w1 = (Some b, w2)"
    and "probe (traced_udp E) packets target (w, []) = (r, w', tr)"
  shows "map (\<lambda>(bs, addr, ok). (bs, addr)) tr = concat (replicate (nat packets) [(iotProbe, a), (discoveryProbeSMART, b)])
    \<and> r = (if \<exists>x \<in> set tr. \<not> snd (snd x) then Inl (ConnectError ProbeFailed) else Inr ())"
proof -
  obtain e w3 tr3 where l: "probe_loop (traced_udp E) a b (nat packets) False (w2, []) = (e, w3, tr3)"
    by (metis prod.collapse)
  have "r = (if e then Inl (ConnectError ProbeFailed) else Inr ())" "tr = tr3"
    using assms l by (auto simp: probe_def traced_udp_def discoveryPortIOT_def discoveryPortSMART_def)
  then show ?thesis using probe_loop_trace [OF l] by auto
qed

definition filtered_env :: "unit udp_env" where
  "filtered_env =
     \<lparr>udp_listen = (\<lambda>w. (True, w)), udp_resolve = (\<lambda>a w. (Some a, w)),
      udp_write = (\<lambda>_ a w. (a \<noteq> ''255.255.255.255:9999'', w)),
      udp_set_deadline = (\<lambda>_ w. (True, w)), udp_receive = (\<lambda>w. (None, w)),
      udp_close = (\<lambda>w. w), udp_now = (\<lambda>_. 0), map_order = (\<lambda>ks w. (ks, w))\<rparr>"

lemma broadcast_addresses:
  "join_host_port ''255.255.255.255'' 9999 = ''255.255.255.255:9999''"
  "join_host_port ''255.255.255.255'' 20002 = ''255.255.255.255:20002''"
  by code_simp+

text \<open>A network that filters port 9999 alone: every SMART probe goes out and discovery still fails.\<close>

theorem probe_sends_both_witness:
  "\<exists>w' tr. probe (traced_udp filtered_env) 1 ''255.255.255.255'' ((), []) = (Inl (ConnectError ProbeFailed), w', tr)
    \<and> (discoveryProbeSMART, ''255.255.255.255:20002'', True) \<in> set tr"
proof -
  have e: "udp_resolve filtered_env a () = (Some a, ())" for a by (simp add: filtered_env_def)
  obtain r w' tr where p: "probe (traced_udp filtered_env) 1 ''255.255.255.255'' ((), []) = (r, w', tr)"
    by (metis prod.collapse)
  have tr: "tr = [(iotProbe, ''255.255.255.255:9999'', False), (discoveryProbeSMART, ''255.255.255.255:20002'', True)]"
    using p by (auto simp: probe_def traced_udp_def filtered_env_def discoveryPortIOT_def discoveryPortSMART_def
        broadcast_addresses)
  show ?thesis
    using probe_sends_both [OF e e p] p tr by auto
qed

lemma parseIOT_describes:
  "parseIOTDiscovery host data = Some r \<Longrightarrow>
    dr_Host r = host \<and> dr_EncryptType r = encryptXOR \<and> dr_HTTPPort r = 0"
  by (auto simp: parseIOTDiscovery_def zero_discoveryResult_def split: option.splits)

lemma parseSMART_describes:
  assumes "parseSMARTDiscovery host data = Some r"
  shows "dr_Host r = host \<and> dr_EncryptType r \<noteq> [] \<and> dr_Model r \<noteq> [] \<and> discoveryHeaderSMART < length data"
proof -
  obtain a where a: "unmarshal dec_smartDiscoveryReply zero_smartDiscoveryReply
      (string_of (drop discoveryHeaderSMART data)) = Some a"
    and l: "discoveryHeaderSMART < length data"
    using assms by (auto simp: parseSMARTDiscovery_def split: if_splits option.splits)
  have m: "sd_DeviceModel (sr_Result a) \<noteq> [] \<and> sr_ErrorCode a = 0"
    using assms a l by (auto simp: parseSMARTDiscovery_def Let_def split: if_splits)
  show ?thesis
    using assms a l m
    by (cases "sd_EncryptScheme (sr_Result a)")
      (auto simp: parseSMARTDiscovery_def Let_def zero_discoveryResult_def encryptKLAP_def split: if_splits)
qed

text \<open>What a reply can say: a description is only ever made from a reply on one of the two ports,
  names the address it came from and a transport, and that transport is the legacy one on port
  9999; a reply on port 20002 has a model and more than its 16-byte header.\<close>

theorem reply_describes:
  "case parseDiscoveryReply host port data of
     None \<Rightarrow> True
   | Some r \<Rightarrow> dr_Host r = host \<and> dr_EncryptType r \<noteq> []
       \<and> (port = 9999 \<and> dr_EncryptType r = ''XOR'' \<and> dr_port r = 80
          \<or> port = 20002 \<and> dr_Model r \<noteq> [] \<and> 16 < length data)"
  using parseIOT_describes parseSMART_describes
  by (auto simp: parseDiscoveryReply_def dr_port_def discoveryPortIOT_def discoveryPortSMART_def
      discoveryHeaderSMART_def encryptXOR_def split: option.split)


text \<open>The announcement the SMART range sends.\<close>

definition announcement :: "discoveryResult \<Rightarrow> json" where
  "announcement d =
     JObj [(''error_code'', jint 0),
       (''result'', JObj [(''device_id'', JStr (dr_DeviceID d)), (''device_type'', JStr (dr_Family d)),
          (''device_model'', JStr (dr_Model d)), (''alias'', JStr (dr_Alias d)), (''mac'', JStr (dr_MAC d)),
          (''mgt_encrypt_schm'', JObj [(''is_support_https'', JBool (dr_HTTPS d)),
             (''encrypt_type'', JStr (dr_EncryptType d)), (''http_port'', jint (dr_HTTPPort d)),
             (''lv'', jint (dr_LoginVersion d))])])]"

definition announced :: "discoveryResult \<Rightarrow> bool" where
  "announced d \<longleftrightarrow>
     list_all valid_utf8 [dr_DeviceID d, dr_Family d, dr_Model d, dr_Alias d, dr_MAC d, dr_EncryptType d]
     \<and> dr_Model d \<noteq> [] \<and> dr_EncryptType d \<in> {encryptXOR, encryptKLAP, encryptAES}
     \<and> - (2 ^ 63) \<le> dr_HTTPPort d \<and> dr_HTTPPort d < 2 ^ 63
     \<and> - (2 ^ 63) \<le> dr_LoginVersion d \<and> dr_LoginVersion d < 2 ^ 63"

lemma num_int_itoa:
  assumes "- (2 ^ 63) \<le> i" "i < 2 ^ 63" shows "num_int (itoa i) = Some i"
proof (cases "i < 0")
  case True
  then show ?thesis using assms digits_nat_to_string [of "- i"] by (simp add: num_int_def itoa_def Let_def)
next
  case False
  obtain c r where cr: "nat_to_string i = c # r" by (cases "nat_to_string i") auto
  have "c \<noteq> CHR ''-''" using hd_nat_to_string_neq_minus [of i] False by (simp add: cr)
  then show ?thesis
    using assms False digits_nat_to_string [of i] digits_value_nat [of i] by (simp add: num_int_def itoa_def Let_def cr)
qed

lemma announcement_fields:
  assumes "announced d"
  shows "wf_json (announcement d)" "depth (announcement d) \<le> 10000"
    "dec_smartDiscoveryReply (announcement d) zero_smartDiscoveryReply = Some
       \<lparr>sr_ErrorCode = 0, sr_Result = \<lparr>sd_DeviceID = dr_DeviceID d, sd_DeviceType = dr_Family d,
          sd_DeviceModel = dr_Model d, sd_Alias = dr_Alias d, sd_IP = [], sd_MAC = dr_MAC d,
          sd_EncryptScheme = Some \<lparr>es_IsSupportHTTPS = dr_HTTPS d, es_EncryptType = dr_EncryptType d,
             es_HTTPPort = dr_HTTPPort d, es_LoginVersion = dr_LoginVersion d\<rparr>\<rparr>\<rparr>"
proof -
  show "wf_json (announcement d)" "depth (announcement d) \<le> 10000"
    using assms by (simp_all add: announced_def announcement_def decode_rune_def)
  note decoders = dec_struct_obj find_field_def field_dec_def dec_string_def dec_bool_def dec_int_def jint_def
  have e: "dec_encryptScheme (JObj [(''is_support_https'', JBool (dr_HTTPS d)),
      (''encrypt_type'', JStr (dr_EncryptType d)), (''http_port'', jint (dr_HTTPPort d)),
      (''lv'', jint (dr_LoginVersion d))]) zero_encryptScheme =
      Some \<lparr>es_IsSupportHTTPS = dr_HTTPS d, es_EncryptType = dr_EncryptType d,
             es_HTTPPort = dr_HTTPPort d, es_LoginVersion = dr_LoginVersion d\<rparr>"
    using assms by (simp add: dec_encryptScheme_def zero_encryptScheme_def decoders announced_def num_int_itoa)
  show "dec_smartDiscoveryReply (announcement d) zero_smartDiscoveryReply = Some
       \<lparr>sr_ErrorCode = 0, sr_Result = \<lparr>sd_DeviceID = dr_DeviceID d, sd_DeviceType = dr_Family d,
          sd_DeviceModel = dr_Model d, sd_Alias = dr_Alias d, sd_IP = [], sd_MAC = dr_MAC d,
          sd_EncryptScheme = Some \<lparr>es_IsSupportHTTPS = dr_HTTPS d, es_EncryptType = dr_EncryptType d,
             es_HTTPPort = dr_HTTPPort d, es_LoginVersion = dr_LoginVersion d\<rparr>\<rparr>\<rparr>"
    using e num_int_itoa [of 0]
    by (simp add: dec_smartDiscoveryReply_def dec_smartDiscoveryResult_def announcement_def zero_smartDiscoveryReply_def
        decoders dec_ptr_obj)
qed

lemma announcement_parsed:
  assumes "announced d" and "length header = 16"
  shows "parseDiscoveryReply host 20002 (header @ encoded (announcement d)) = Some (d\<lparr>dr_Host := host\<rparr>)"
proof -
  have u: "unmarshal dec_smartDiscoveryReply zero_smartDiscoveryReply (marshal (announcement d)) =
      dec_smartDiscoveryReply (announcement d) zero_smartDiscoveryReply"
    by (rule unmarshal_marshal [OF announcement_fields(1,2) [OF assms(1)]])
  have l: "16 < length (header @ encoded (announcement d))"
    using assms(2) by (simp add: encoded_def announcement_def)
  have c: "to_upper encryptXOR = encryptXOR" "to_upper encryptKLAP = encryptKLAP" "to_upper encryptAES = encryptAES"
      "encryptXOR \<noteq> []" "encryptKLAP \<noteq> []" "encryptAES \<noteq> []"
    by code_simp+
  have t: "to_upper (dr_EncryptType d) = dr_EncryptType d" "dr_EncryptType d \<noteq> []" "dr_Model d \<noteq> []"
    using assms(1) c by (auto simp: announced_def)
  have "parseSMARTDiscovery host (header @ encoded (announcement d)) =
      Some (zero_discoveryResult\<lparr>dr_Host := host, dr_Alias := dr_Alias d, dr_Model := dr_Model d,
        dr_DeviceID := dr_DeviceID d, dr_MAC := dr_MAC d, dr_Family := dr_Family d,
        dr_EncryptType := dr_EncryptType d, dr_HTTPPort := dr_HTTPPort d, dr_LoginVersion := dr_LoginVersion d,
        dr_HTTPS := dr_HTTPS d\<rparr>)"
    using l t assms(2) u announcement_fields(3) [OF assms(1)]
    by (simp add: parseSMARTDiscovery_def discoveryHeaderSMART_def encoded_def Let_def)
  then show ?thesis
    by (simp add: parseDiscoveryReply_def discoveryPortIOT_def discoveryPortSMART_def zero_discoveryResult_def)
qed

text \<open>C36. What a device announces is what is recorded: the reply of a device that names one of the three
  transports is understood completely, with the address it came from as its host, whatever the 16
  bytes of its header say.\<close>

theorem announcement_understood:
  assumes "announced d" and "length header = 16"
  shows "parseDiscoveryReply host 20002 (header @ encoded (announcement d)) = Some (d\<lparr>dr_Host := host\<rparr>)"
  using assms by (rule announcement_parsed)

definition ep25 :: discoveryResult where
  "ep25 = zero_discoveryResult
     \<lparr>dr_Alias := ''Rack'', dr_Model := ''EP25(US)'', dr_Family := ''SMART.KASAPLUG'', dr_EncryptType := encryptKLAP,
      dr_HTTPPort := 80, dr_LoginVersion := 2\<rparr>"

theorem announcement_understood_witness:
  "parseDiscoveryReply ''10.0.0.7'' 20002 (replicate 16 0 @ encoded (announcement ep25)) = Some (ep25\<lparr>dr_Host := ''10.0.0.7''\<rparr>)"
proof -
  have "announced ep25"
    by (simp add: announced_def ep25_def zero_discoveryResult_def decode_rune_def encrypt_names)
  then show ?thesis by (rule announcement_understood) simp
qed

end
