(* ===== verification/Connect.thy ===== *)
theory Connect
  imports Xor Klap Aes Discover "HOL-Library.Signed_Division"
begin

text \<open>
  Connections, \<^verbatim>\<open>kasa/connect.go\<close> and the \<^verbatim>\<open>Device\<close> of \<^verbatim>\<open>kasa/device.go\<close>: how a transport and a
  dialect are chosen for a device, and the device that keeps its connection between scrapes.
\<close>

subsection \<open>Any transport\<close>

text \<open>\<^verbatim>\<open>http.Client\<close> as \<^verbatim>\<open>httpClient\<close> configures it.\<close>

record http_client =
  hc_Timeout :: int
  hc_FollowRedirects :: bool

definition httpClient :: "int \<Rightarrow> http_client" where
  "httpClient timeout = \<lparr>hc_Timeout = timeout, hc_FollowRedirects = False\<rparr>"

text \<open>The values behind the \<^verbatim>\<open>transport\<close> interface; the HTTP ones with their client.\<close>

datatype wire =
    XorWire xorTransport
  | KlapWire http_client klapTransport
  | AesWire http_client aesTransport

text \<open>Everything outside the package, over one world.\<close>

record ('k, 'w) kasa_env =
  ke_crypto :: crypto
  ke_tcp :: "'w tcp_env"
  ke_http :: "http_client \<Rightarrow> 'w http_env"
  ke_aes :: "http_client \<Rightarrow> ('k, 'w) aes_env"
  ke_smart :: "'w smart_env"
  ke_udp :: "'w udp_env"

fun wire_query :: "('k, 'w) kasa_env \<Rightarrow> ctx \<Rightarrow> (wire, 'w) query_fun" where
  "wire_query K c (XorWire t) request w =
     (case xor_query (ke_tcp K) t c request w of (r, w) \<Rightarrow> (r, XorWire t, w))"
| "wire_query K c (KlapWire h t) request w =
     (case klap_query (ke_crypto K) (ke_http K h) t request w of (r, t, w) \<Rightarrow> (r, KlapWire h t, w))"
| "wire_query K c (AesWire h t) request w =
     (case aes_query (ke_crypto K) (ke_aes K h) t request w of (r, t, w) \<Rightarrow> (r, AesWire h t, w))"

fun wire_close :: "wire \<Rightarrow> wire" where
  "wire_close (XorWire t) = XorWire (xor_close t)"
| "wire_close (KlapWire h t) = KlapWire h (klap_close t)"
| "wire_close (AesWire h t) = AesWire h (aes_close t)"

text \<open>A transport is well formed when its session, if it holds one, is complete.\<close>

fun wire_ok :: "wire \<Rightarrow> bool" where
  "wire_ok (XorWire t) = True"
| "wire_ok (KlapWire h t) = klap_session_ok t"
| "wire_ok (AesWire h t) = aes_session_ok t"

text \<open>What identifies the far end and the login of a transport.\<close>

datatype wire_id =
    XorId xorTransport
  | KlapId http_client "string \<times> Credentials \<times> int"
  | AesId http_client "string \<times> Credentials"

fun wire_config :: "wire \<Rightarrow> wire_id" where
  "wire_config (XorWire t) = XorId t"
| "wire_config (KlapWire h t) = KlapId h (klap_config t)"
| "wire_config (AesWire h t) = AesId h (aes_config t)"

lemma klap_query_ok:
  "crypto_ok C \<Longrightarrow> klap_session_ok t \<Longrightarrow> klap_query C E t request w = (r, t', w') \<Longrightarrow> klap_session_ok t'"
  unfolding klap_query_def by (rule klap_attempts_ok)

interpretation wire: transport "wire_query K c" wire_close "\<lambda>t. crypto_ok (ke_crypto K) \<longrightarrow> wire_ok t" wire_config
  for K :: "('k, 'w) kasa_env" and c
proof
  fix t t' request r and w w' :: 'w
  assume q: "wire_query K c t request w = (r, t', w')"
  show "wire_config t' = wire_config t"
    using q by (cases t) (auto split: prod.splits dest: klap.query_config aes.query_config)
  show "crypto_ok (ke_crypto K) \<longrightarrow> wire_ok t \<Longrightarrow> crypto_ok (ke_crypto K) \<longrightarrow> wire_ok t'"
    using q by (cases t) (auto split: prod.splits dest: klap_query_ok aes.query_valid)
next
  fix t
  show "wire_config (wire_close t) = wire_config t"
    by (cases t) (simp_all add: xor_close_def klap.close_config aes.close_config)
  show "crypto_ok (ke_crypto K) \<longrightarrow> wire_ok t \<Longrightarrow> crypto_ok (ke_crypto K) \<longrightarrow> wire_ok (wire_close t)"
    by (cases t) (auto simp: klap_close_def klap_session_ok_def aes.close_valid)
qed

subsection \<open>The interface of a dialect\<close>

text \<open>
  The Go interface \<^verbatim>\<open>querier\<close> with what \<^verbatim>\<open>Device\<close> relies on: reading and closing keep the
  connection well formed and its far end the same.
\<close>

locale reader =
  fixes read :: "'q \<Rightarrow> 'w \<Rightarrow> (kasa_error + Reading) \<times> 'q \<times> 'w"
    and close :: "'q \<Rightarrow> 'q"
    and valid :: "'q \<Rightarrow> bool"
    and far_end :: "'q \<Rightarrow> 'c"
  assumes read_valid: "valid q \<Longrightarrow> read q w = (r, q', w') \<Longrightarrow> valid q'"
    and read_far_end: "read q w = (r, q', w') \<Longrightarrow> far_end q' = far_end q"
    and close_valid: "valid q \<Longrightarrow> valid (close q)"
    and close_far_end: "far_end (close q) = far_end q"

text \<open>Both dialects are readers over every transport.\<close>

sublocale transport < iot_dialect: reader "iot_read query" "iot_close close"
    "\<lambda>q. valid (iq_transport q)" "\<lambda>q. config (iq_transport q)"
  by unfold_locales (simp_all add: iot_read_valid iot_read_config iot_close_def close_valid close_config)

sublocale transport < smart_dialect: reader "smart_read query S" "smart_close close"
    "\<lambda>q. valid (sq_transport q)" "\<lambda>q. config (sq_transport q)" for S
  by unfold_locales (simp_all add: smart_read_valid smart_read_config smart_close_def close_valid close_config)

datatype querier = IotQuerier "wire iotQuerier" | SmartQuerier "wire smartQuerier"

fun querier_wire :: "querier \<Rightarrow> wire" where
  "querier_wire (IotQuerier q) = iq_transport q"
| "querier_wire (SmartQuerier q) = sq_transport q"

fun querier_read ::
  "('k, 'w) kasa_env \<Rightarrow> ctx \<Rightarrow> querier \<Rightarrow> 'w \<Rightarrow> (kasa_error + Reading) \<times> querier \<times> 'w" where
  "querier_read K c (IotQuerier q) w =
     (case iot_read (wire_query K c) q w of (r, q, w) \<Rightarrow> (r, IotQuerier q, w))"
| "querier_read K c (SmartQuerier q) w =
     (case smart_read (wire_query K c) (ke_smart K) q w of (r, q, w) \<Rightarrow> (r, SmartQuerier q, w))"

fun querier_close :: "querier \<Rightarrow> querier" where
  "querier_close (IotQuerier q) = IotQuerier (iot_close wire_close q)"
| "querier_close (SmartQuerier q) = SmartQuerier (smart_close wire_close q)"

interpretation querier: reader "querier_read K c" querier_close
    "\<lambda>q. crypto_ok (ke_crypto K) \<longrightarrow> wire_ok (querier_wire q)" "\<lambda>q. wire_config (querier_wire q)"
  for K :: "('k, 'w) kasa_env" and c
proof
  fix q q' r and w w' :: 'w
  assume r: "querier_read K c q w = (r, q', w')"
  show "wire_config (querier_wire q') = wire_config (querier_wire q)"
    using r by (cases q)
      (auto split: prod.splits dest: wire.iot_dialect.read_far_end wire.smart_dialect.read_far_end)
  show "crypto_ok (ke_crypto K) \<longrightarrow> wire_ok (querier_wire q) \<Longrightarrow> crypto_ok (ke_crypto K) \<longrightarrow> wire_ok (querier_wire q')"
  proof (cases q)
    case (IotQuerier i)
    then show "crypto_ok (ke_crypto K) \<longrightarrow> wire_ok (querier_wire q) \<Longrightarrow> ?thesis"
      using r wire.iot_dialect.read_valid [of K i] by (auto split: prod.splits)
  next
    case (SmartQuerier s)
    then show "crypto_ok (ke_crypto K) \<longrightarrow> wire_ok (querier_wire q) \<Longrightarrow> ?thesis"
      using r wire.smart_dialect.read_valid [of K s] by (auto split: prod.splits)
  qed
next
  fix q
  show "wire_config (querier_wire (querier_close q)) = wire_config (querier_wire q)"
    by (cases q) (simp_all add: iot_close_def smart_close_def wire.close_config)
  show "crypto_ok (ke_crypto K) \<longrightarrow> wire_ok (querier_wire q) \<Longrightarrow>
      crypto_ok (ke_crypto K) \<longrightarrow> wire_ok (querier_wire (querier_close q))"
    using wire.close_valid [of K] by (cases q) (simp_all add: iot_close_def smart_close_def)
qed

subsection \<open>Building a connection\<close>

definition deviceURL :: "string \<Rightarrow> discoveryResult \<Rightarrow> string" where
  "deviceURL host found =
     (let scheme = (if dr_HTTPS found then ''https'' else ''http'');
          port = (if dr_HTTPS found \<and> dr_HTTPPort found = 0 then 443 else dr_port found) in
      scheme @ ''://'' @ join_host_port host port)"

definition connectAs ::
  "string \<Rightarrow> Credentials \<Rightarrow> int \<Rightarrow> discoveryResult \<Rightarrow> kasa_error + querier" where
  "connectAs host creds timeout found =
     (if dr_EncryptType found = encryptXOR \<or> dr_EncryptType found = [] then
        Inr (IotQuerier (newIOTQuerier (XorWire \<lparr>xt_host = host, xt_port = 0, xt_timeout = timeout\<rparr>)))
      else if dr_EncryptType found = encryptKLAP then
        let t = KlapWire (httpClient timeout)
              \<lparr>kt_baseURL = deviceURL host found @ ''/app'', kt_credentials = creds,
               kt_loginVersion = dr_loginVersion found, kt_sessionID = [], kt_encKey = [], kt_sigKey = [],
               kt_iv = [], kt_seq = 0, kt_established = False\<rparr> in
        if dr_dialect found = ProtocolSMART then Inr (SmartQuerier (newSMARTQuerier t))
        else Inr (IotQuerier (newIOTQuerier t))
      else if dr_EncryptType found = encryptAES then
        Inr (SmartQuerier (newSMARTQuerier (AesWire (httpClient timeout)
              \<lparr>at_baseURL = deviceURL host found @ ''/app'', at_credentials = creds, at_key = [], at_iv = [],
               at_token = [], at_sessionID = [], at_established = False\<rparr>)))
      else Inl (ConnectError (UnsupportedScheme (dr_EncryptType found))))"

subsection \<open>Negotiation\<close>

definition milliseconds :: int where "milliseconds = 1000000"

definition unicastDiscoveryBudget :: "int \<Rightarrow> int" where
  "unicastDiscoveryBudget timeout =
     (let budget = timeout sdiv 4;
          budget = (if budget < 500 * milliseconds then 500 * milliseconds else budget) in
      if timeout < budget then timeout else budget)"

definition probeOrder :: "discoveryResult list" where
  "probeOrder =
     [zero_discoveryResult\<lparr>dr_EncryptType := encryptKLAP, dr_Family := ''SMART'', dr_LoginVersion := klapLoginV2\<rparr>,
      zero_discoveryResult\<lparr>dr_EncryptType := encryptKLAP, dr_Family := ''IOT'', dr_LoginVersion := klapLoginV2\<rparr>,
      zero_discoveryResult\<lparr>dr_EncryptType := encryptKLAP, dr_Family := ''IOT'', dr_LoginVersion := klapLoginV1\<rparr>,
      zero_discoveryResult\<lparr>dr_EncryptType := encryptAES, dr_Family := ''SMART''\<rparr>,
      zero_discoveryResult\<lparr>dr_EncryptType := encryptXOR, dr_Family := ''IOT''\<rparr>]"

text \<open>The dialect names are lower case already.\<close>

definition describe :: "discoveryResult \<Rightarrow> string" where
  "describe d =
     (if dr_EncryptType d = encryptXOR then ''legacy protocol on port 9999''
      else if dr_EncryptType d = encryptAES then ''AES on HTTP''
      else if dr_EncryptType d = encryptKLAP
      then protocol_name (dr_dialect d) @ '' over KLAP login version '' @ itoa (dr_loginVersion d)
      else dr_EncryptType d)"

text \<open>The candidates left, with the attempts that failed so far.\<close>

fun try_candidates ::
  "('k, 'w) kasa_env \<Rightarrow> ctx \<Rightarrow> string \<Rightarrow> Credentials \<Rightarrow> int \<Rightarrow> discoveryResult list
     \<Rightarrow> (string \<times> kasa_error) list \<Rightarrow> 'w \<Rightarrow> (kasa_error + querier) \<times> 'w" where
  "try_candidates K c host creds timeout [] attempts w = (Inl (CouldNotReach host attempts), w)"
| "try_candidates K c host creds timeout (candidate # rest) attempts w =
     (case connectAs host creds timeout candidate of
        Inl e \<Rightarrow> try_candidates K c host creds timeout rest (attempts @ [(describe candidate, e)]) w
      | Inr q \<Rightarrow>
      case querier_read K c q w of
        (Inr _, q, w) \<Rightarrow> (Inr q, w)
      | (Inl e, q, w) \<Rightarrow>
          let attempts = attempts @ [(describe candidate, e)] in
          if is_unauthorized e then (Inl (CouldNotReach host attempts), w)
          else try_candidates K c host creds timeout rest attempts w)"

text \<open>What the device's own answer leads to; a connection that cannot be read is closed and dropped.\<close>

definition try_described ::
  "('k, 'w) kasa_env \<Rightarrow> ctx \<Rightarrow> string \<Rightarrow> Credentials \<Rightarrow> int \<Rightarrow> kasa_error + discoveryResult
     \<Rightarrow> 'w \<Rightarrow> querier option \<times> 'w" where
  "try_described K c host creds timeout answer w =
     (case answer of
        Inl _ \<Rightarrow> (None, w)
      | Inr found \<Rightarrow>
      case connectAs host creds timeout found of
        Inl _ \<Rightarrow> (None, w)
      | Inr q \<Rightarrow>
      case querier_read K c q w of
        (Inr _, q, w) \<Rightarrow> (Some q, w)
      | (Inl _, q, w) \<Rightarrow> (None, w))"

definition negotiate ::
  "('k, 'w) kasa_env \<Rightarrow> ctx \<Rightarrow> string \<Rightarrow> Credentials \<Rightarrow> int \<Rightarrow> discoveryResult option \<Rightarrow> 'w
     \<Rightarrow> ((kasa_error + querier) \<times> 'w) option" where
  "negotiate K c host creds timeout known w =
     (case known of
        Some found \<Rightarrow> Some (connectAs host creds timeout found, w)
      | None \<Rightarrow>
      case discoverHost (ke_udp K) c host (unicastDiscoveryBudget timeout) w of
        None \<Rightarrow> None
      | Some (answer, w) \<Rightarrow>
      Some (case try_described K c host creds timeout answer w of
          (Some q, w) \<Rightarrow> (Inr q, w)
        | (None, w) \<Rightarrow> try_candidates K c host creds timeout probeOrder [] w))"

subsection \<open>Devices\<close>

record device =
  dv_host :: string
  dv_querier :: "querier option"
  dv_alias :: string
  dv_deviceType :: "DeviceType option"
  dv_discovered :: "discoveryResult option"
  dv_creds :: Credentials
  dv_timeout :: int

definition device_Alias :: "device \<Rightarrow> string" where
  "device_Alias d = (if dv_alias d \<noteq> [] then dv_alias d else dv_host d)"

definition device_Type :: "device \<Rightarrow> DeviceType" where
  "device_Type d = (case dv_deviceType d of None \<Rightarrow> TypeUnknown | Some t \<Rightarrow> t)"

text \<open>The connection to read from: the one held or a new one.\<close>

definition device_connection ::
  "('k, 'w) kasa_env \<Rightarrow> ctx \<Rightarrow> device \<Rightarrow> 'w \<Rightarrow> ((kasa_error + querier) \<times> 'w) option" where
  "device_connection K c d w =
     (case dv_querier d of
        Some q \<Rightarrow> Some (Inr q, w)
      | None \<Rightarrow> negotiate K c (dv_host d) (dv_creds d) (dv_timeout d) (dv_discovered d) w)"

definition device_read ::
  "('k, 'w) kasa_env \<Rightarrow> ctx \<Rightarrow> device \<Rightarrow> 'w \<Rightarrow> ((kasa_error + Reading) \<times> device \<times> 'w) option" where
  "device_read K c d w =
     (case device_connection K c d w of
        None \<Rightarrow> None
      | Some (Inl e, w) \<Rightarrow> Some (Inl e, d, w)
      | Some (Inr q, w) \<Rightarrow>
      Some (case querier_read K c q w of
          (Inl e, q, w) \<Rightarrow> (Inl e, d\<lparr>dv_querier := None\<rparr>, w)
        | (Inr reading, q, w) \<Rightarrow>
            let d = d\<lparr>dv_querier := Some q\<rparr>;
                d = (if rd_Alias reading \<noteq> [] then d\<lparr>dv_alias := rd_Alias reading\<rparr> else d);
                d = d\<lparr>dv_deviceType := Some (rd_Type reading)\<rparr> in
            (Inr (reading\<lparr>rd_Host := dv_host d\<rparr>), d, w)))"

definition device_close :: "device \<Rightarrow> device" where
  "device_close d = d\<lparr>dv_querier := None\<rparr>"

definition connect_device :: "string \<Rightarrow> Credentials \<Rightarrow> int \<Rightarrow> device" where
  "connect_device host creds timeout =
     \<lparr>dv_host = host, dv_querier = None, dv_alias = [], dv_deviceType = None, dv_discovered = None,
      dv_creds = creds, dv_timeout = timeout\<rparr>"

definition discovered_device :: "Credentials \<Rightarrow> int \<Rightarrow> discoveryResult \<Rightarrow> device" where
  "discovered_device creds deviceTimeout result =
     \<lparr>dv_host = dr_Host result, dv_querier = None, dv_alias = dr_Alias result, dv_deviceType = None,
      dv_discovered = Some result, dv_creds = creds, dv_timeout = deviceTimeout\<rparr>"

definition discover_devices ::
  "('k, 'w) kasa_env \<Rightarrow> ctx \<Rightarrow> string \<Rightarrow> int \<Rightarrow> int \<Rightarrow> Credentials \<Rightarrow> int \<Rightarrow> 'w
     \<Rightarrow> ((kasa_error + device list) \<times> 'w) option" where
  "discover_devices K c target timeout packets creds deviceTimeout w =
     (case discover (ke_udp K) c target timeout packets w of
        None \<Rightarrow> None
      | Some (Inl e, w) \<Rightarrow> Some (Inl e, w)
      | Some (Inr results, w) \<Rightarrow> Some (Inr (map (discovered_device creds deviceTimeout) results), w))"

subsection \<open>What a connection is for\<close>

text \<open>The far end belongs to the device: its host and, over HTTP, its login, with redirects refused.\<close>

fun speaks_for :: "device \<Rightarrow> wire_id \<Rightarrow> bool" where
  "speaks_for d (XorId t) \<longleftrightarrow> t = \<lparr>xt_host = dv_host d, xt_port = 0, xt_timeout = dv_timeout d\<rparr>"
| "speaks_for d (KlapId h (url, creds, lv)) \<longleftrightarrow>
     h = httpClient (dv_timeout d) \<and> creds = dv_creds d \<and> (\<exists>found. url = deviceURL (dv_host d) found @ ''/app'')"
| "speaks_for d (AesId h (url, creds)) \<longleftrightarrow>
     h = httpClient (dv_timeout d) \<and> creds = dv_creds d \<and> (\<exists>found. url = deviceURL (dv_host d) found @ ''/app'')"

definition connection_ok :: "('k, 'w) kasa_env \<Rightarrow> device \<Rightarrow> querier \<Rightarrow> bool" where
  "connection_ok K d q \<longleftrightarrow>
     (crypto_ok (ke_crypto K) \<longrightarrow> wire_ok (querier_wire q)) \<and> speaks_for d (wire_config (querier_wire q))"

definition device_ok :: "('k, 'w) kasa_env \<Rightarrow> device \<Rightarrow> bool" where
  "device_ok K d \<longleftrightarrow> (case dv_querier d of None \<Rightarrow> True | Some q \<Rightarrow> connection_ok K d q)"

lemma connectAs_ok:
  "connectAs (dv_host d) (dv_creds d) (dv_timeout d) found = Inr q \<Longrightarrow> connection_ok K d q"
  by (auto simp: connectAs_def connection_ok_def newIOTQuerier_def newSMARTQuerier_def klap_session_ok_def
      aes_session_ok_def klap_config_def aes_config_def Let_def split: if_splits)

lemma querier_read_ok:
  assumes "connection_ok K d q" and "querier_read K c q w = (r, q', w')"
  shows "connection_ok K d q'"
  using assms querier.read_valid [of K q c w r q' w'] querier.read_far_end [OF assms(2)]
  by (simp add: connection_ok_def)

lemma try_candidates_ok:
  "try_candidates K c (dv_host d) (dv_creds d) (dv_timeout d) cs attempts w = (Inr q, w') \<Longrightarrow>
    connection_ok K d q \<and> (\<exists>q0 w0 reading. querier_read K c q0 w0 = (Inr reading, q, w'))"
proof (induction cs arbitrary: attempts w)
  case (Cons candidate rest)
  show ?case
  proof (cases "connectAs (dv_host d) (dv_creds d) (dv_timeout d) candidate")
    case (Inl e)
    then show ?thesis using Cons by simp
  next
    case (Inr q0)
    obtain y q1 w1 where r: "querier_read K c q0 w = (y, q1, w1)" by (metis prod.collapse)
    have ok: "connection_ok K d q1" by (rule querier_read_ok [OF connectAs_ok [OF Inr] r])
    show ?thesis
    proof (cases y)
      case (Inl e)
      then show ?thesis using Cons.prems Cons.IH by (auto simp: Inr r Let_def split: if_splits)
    next
      case y: (Inr reading)
      then have "q1 = q" "w1 = w'" using Cons.prems by (simp_all add: Inr r)
      then show ?thesis using ok r y by blast
    qed
  qed
qed simp

lemma try_described_ok:
  assumes "try_described K c (dv_host d) (dv_creds d) (dv_timeout d) answer w = (Some q, w')"
  shows "connection_ok K d q \<and> (\<exists>q0 w0 reading. querier_read K c q0 w0 = (Inr reading, q, w'))"
proof -
  obtain found q0 reading where f: "connectAs (dv_host d) (dv_creds d) (dv_timeout d) found = Inr q0"
    and r: "querier_read K c q0 w = (Inr reading, q, w')"
    using assms by (auto simp: try_described_def split: sum.splits prod.splits)
  then show ?thesis using querier_read_ok [OF connectAs_ok [OF f] r] by blast
qed

lemma device_connection_ok:
  assumes "device_ok K d" and "device_connection K c d w = Some (Inr q, w')"
  shows "connection_ok K d q"
  using assms
  by (auto simp: device_ok_def device_connection_def negotiate_def
      dest: connectAs_ok try_described_ok try_candidates_ok split: option.splits prod.splits sum.splits)

subsection \<open>What is tried\<close>

definition attempts_of :: "discoveryResult list \<Rightarrow> (string \<times> kasa_error) list \<Rightarrow> bool" where
  "attempts_of cs as \<longleftrightarrow>
     map fst as = map describe (take (length as) cs) \<and> length as \<le> length cs
     \<and> (\<forall>a \<in> set (butlast as). \<not> is_unauthorized (snd a))
     \<and> (length as = length cs \<or> as \<noteq> [] \<and> is_unauthorized (snd (last as)))"

lemma attempts_of_Cons:
  "attempts_of cs as \<Longrightarrow> \<not> is_unauthorized e \<Longrightarrow> attempts_of (candidate # cs) ((describe candidate, e) # as)"
  by (auto simp: attempts_of_def)

lemma try_candidates_attempts:
  "try_candidates K c host creds timeout cs attempts w = (Inl e, w') \<Longrightarrow>
    \<exists>as. e = CouldNotReach host (attempts @ as) \<and> attempts_of cs as"
proof (induction cs arbitrary: attempts w)
  case Nil
  then show ?case by (auto simp: attempts_of_def)
next
  case (Cons candidate rest)
  have step: "?case" if "try_candidates K c host creds timeout rest (attempts @ [(describe candidate, x)]) w1 = (Inl e, w')"
      "\<not> is_unauthorized x" for x w1
    using Cons.IH [OF that(1)] attempts_of_Cons [OF _ that(2)] by fastforce
  show ?case
  proof (cases "connectAs host creds timeout candidate")
    case (Inl x)
    then have "\<not> is_unauthorized x" by (auto simp: connectAs_def Let_def split: if_splits)
    then show ?thesis using Cons.prems step by (simp add: Inl)
  next
    case (Inr q0)
    obtain y q1 w1 where r: "querier_read K c q0 w = (y, q1, w1)" by (metis prod.collapse)
    then obtain x where x: "y = Inl x" using Cons.prems by (cases y) (simp_all add: Inr)
    show ?thesis
    proof (cases "is_unauthorized x")
      case True
      then have "e = CouldNotReach host (attempts @ [(describe candidate, x)])"
        using Cons.prems by (simp add: Inr r x)
      then show ?thesis using True by (auto simp: attempts_of_def)
    next
      case False
      then show ?thesis using Cons.prems step by (simp add: Inr r x)
    qed
  qed
qed

subsection \<open>Properties\<close>

lemma device_read_keeps:
  assumes "device_ok K d" and "device_read K c d w = Some (r, d', w')"
  shows "device_ok K d' \<and> dv_host d' = dv_host d \<and> dv_creds d' = dv_creds d \<and> dv_timeout d' = dv_timeout d
    \<and> dv_discovered d' = dv_discovered d
    \<and> (case r of
         Inl e \<Rightarrow> dv_querier d' = None \<and> device_Alias d' = device_Alias d \<and> device_Type d' = device_Type d
       | Inr reading \<Rightarrow> dv_querier d' \<noteq> None \<and> rd_Host reading = dv_host d \<and> device_Type d' = rd_Type reading
           \<and> device_Alias d' = (if rd_Alias reading \<noteq> [] then rd_Alias reading else device_Alias d))"
proof -
  obtain x w1 where x: "device_connection K c d w = Some (x, w1)"
    using assms(2) by (auto simp: device_read_def split: option.splits)
  show ?thesis
  proof (cases x)
    case (Inl e)
    then have "dv_querier d = None" using x by (auto simp: device_connection_def split: option.splits)
    then show ?thesis using assms x Inl by (auto simp: device_read_def)
  next
    case (Inr q)
    obtain y q1 w2 where r: "querier_read K c q w1 = (y, q1, w2)" by (metis prod.collapse)
    have q: "connection_ok K d q" using device_connection_ok [OF assms(1)] x Inr by blast
    have same: "connection_ok K e q1" if "dv_host e = dv_host d" "dv_creds e = dv_creds d" "dv_timeout e = dv_timeout d" for e
      using querier_read_ok [OF q r] that
      by (cases "wire_config (querier_wire q1)") (auto simp: connection_ok_def)
    show ?thesis
      using assms(2) x Inr r same
      by (auto simp: device_read_def Let_def device_ok_def device_Alias_def device_Type_def split: sum.splits)
  qed
qed

text \<open>C5. What a device keeps: a read never changes which device it is, and leaves the connection, if
  one is kept, well formed and to that device with its own login. A failed read keeps no
  connection, so that the next one negotiates afresh, and keeps the name and the category; a
  successful one keeps the connection and takes both from the reading, which carries the
  device's address.\<close>

theorem device_read_contract:
  assumes "device_ok K d" and "device_read K c d w = Some (r, d', w')"
  shows "device_ok K d' \<and> dv_host d' = dv_host d \<and> dv_creds d' = dv_creds d \<and> dv_timeout d' = dv_timeout d
    \<and> dv_discovered d' = dv_discovered d
    \<and> (case r of
         Inl e \<Rightarrow> dv_querier d' = None \<and> device_Alias d' = device_Alias d \<and> device_Type d' = device_Type d
       | Inr reading \<Rightarrow> dv_querier d' \<noteq> None \<and> rd_Host reading = dv_host d \<and> device_Type d' = rd_Type reading
           \<and> device_Alias d' = (if rd_Alias reading \<noteq> [] then rd_Alias reading else device_Alias d))"
  using assms by (rule device_read_keeps)

text \<open>C15. Negotiating with a device nobody described: the connection returned is to the device with its
  own login and the last thing done with it was a successful read. When there is none, the error
  names the candidates tried, in the order of \<open>probeOrder\<close> and all of them, unless the last one
  tried refused the login; none before it did.\<close>

theorem negotiate_outcome:
  assumes "negotiate K c (dv_host d) (dv_creds d) (dv_timeout d) None w = Some (r, w')"
  shows "case r of
      Inr q \<Rightarrow> connection_ok K d q \<and> (\<exists>q0 w0 reading. querier_read K c q0 w0 = (Inr reading, q, w'))
    | Inl e \<Rightarrow> \<exists>as. e = CouldNotReach (dv_host d) as \<and> attempts_of probeOrder as"
proof -
  obtain answer w1 where a: "discoverHost (ke_udp K) c (dv_host d) (unicastDiscoveryBudget (dv_timeout d)) w = Some (answer, w1)"
    using assms by (auto simp: negotiate_def split: option.splits)
  obtain first w2 where f: "try_described K c (dv_host d) (dv_creds d) (dv_timeout d) answer w1 = (first, w2)" by fastforce
  show ?thesis
  proof (cases first)
    case (Some q)
    then have "r = Inr q" "w' = w2" using assms a f by (simp_all add: negotiate_def)
    then show ?thesis using try_described_ok [OF f [unfolded Some]] by simp
  next
    case None
    then have t: "try_candidates K c (dv_host d) (dv_creds d) (dv_timeout d) probeOrder [] w2 = (r, w')"
      using assms a f by (simp add: negotiate_def)
    then show ?thesis
      using try_candidates_ok [of K c d probeOrder "[]" w2] try_candidates_attempts [of K c _ _ _ probeOrder "[]" w2]
      by (auto split: sum.split)
  qed
qed

text \<open>Asking the device takes its share and no more: the budget never exceeds the timeout, is at most
  a quarter of it from two seconds on, and at least half a second whenever the timeout is.\<close>

theorem unicast_budget_bounds:
  "let budget = unicastDiscoveryBudget timeout in
     budget \<le> timeout
   \<and> (2000 * milliseconds \<le> timeout \<longrightarrow> 4 * budget \<le> timeout)
   \<and> (500 * milliseconds \<le> timeout \<longrightarrow> 500 * milliseconds \<le> budget)"
proof -
  have "0 \<le> timeout \<Longrightarrow> timeout sdiv 4 = timeout div 4"
    by (cases "timeout = 0") (simp_all add: signed_divide_int_def)
  then show ?thesis by (auto simp: unicastDiscoveryBudget_def milliseconds_def Let_def)
qed

theorem unicast_budget_bounds_witness:
  "4 * unicastDiscoveryBudget (5000 * milliseconds) \<le> 5000 * milliseconds
   \<and> 500 * milliseconds \<le> unicastDiscoveryBudget (5000 * milliseconds)"
  using unicast_budget_bounds [of "5000 * milliseconds"] by (simp add: Let_def milliseconds_def)

text \<open>C34. A device is reached the way it announced: the description taken from its announcement builds
  the transport it named, at its address, over HTTPS if it said so, and at the port it announced (without
  one 443 for HTTPS and 80 otherwise), with the operator's login under the version it asked for (without
  one version 2 for the SMART family and 1 for the others), and the dialect of its family; AES devices
  speak SMART.\<close>

theorem announced_connection:
  fixes host :: string
  assumes "announced d" and "length header = 16"
  defines "port \<equiv> (if dr_HTTPPort d \<noteq> 0 then dr_HTTPPort d else if dr_HTTPS d then 443 else 80)"
    and "smart \<equiv> take 5 (to_upper (dr_Family d)) = ''SMART''"
  defines "version \<equiv> (if dr_LoginVersion d \<noteq> 0 then dr_LoginVersion d else if smart then 2 else 1)"
    and "url \<equiv> (if dr_HTTPS d then ''https://'' else ''http://'') @ join_host_port host port @ ''/app''"
  shows "\<exists>q. Option.bind (parseDiscoveryReply host 20002 (header @ encoded (announcement d)))
        (\<lambda>f. case connectAs host creds timeout f of Inl _ \<Rightarrow> None | Inr q \<Rightarrow> Some q) = Some q
    \<and> wire_config (querier_wire q) =
        (if dr_EncryptType d = ''XOR'' then XorId \<lparr>xt_host = host, xt_port = 0, xt_timeout = timeout\<rparr>
         else if dr_EncryptType d = ''KLAP'' then KlapId (httpClient timeout) (url, creds, version)
         else AesId (httpClient timeout) (url, creds))
    \<and> ((\<exists>s. q = SmartQuerier s) \<longleftrightarrow> dr_EncryptType d = ''AES'' \<or> dr_EncryptType d = ''KLAP'' \<and> smart)"
proof -
  have k: "dr_EncryptType d = ''XOR'' \<or> dr_EncryptType d = ''KLAP'' \<or> dr_EncryptType d = ''AES''"
    using assms(1) by (auto simp: announced_def encrypt_names)
  have dl: "dr_dialect (d\<lparr>dr_Host := host\<rparr>) = (if smart then ProtocolSMART else ProtocolIOT)"
    by (simp add: dr_dialect_def has_prefix_def smart_def numeral_eq_Suc)
  have u: "deviceURL host (d\<lparr>dr_Host := host\<rparr>) @ ''/app'' = url"
    by (simp add: deviceURL_def dr_port_def url_def port_def Let_def)
  have v: "dr_loginVersion (d\<lparr>dr_Host := host\<rparr>) = version"
    unfolding dr_loginVersion_def dl by (simp add: version_def klapLoginV1_def klapLoginV2_def)
  show ?thesis
    unfolding announcement_parsed [OF assms(1,2)]
    using k
    by (auto simp: connectAs_def Let_def u v dl encrypt_names newIOTQuerier_def newSMARTQuerier_def klap_config_def aes_config_def)
qed

definition ep25_https :: discoveryResult where
  "ep25_https = ep25\<lparr>dr_HTTPPort := 4433, dr_HTTPS := True, dr_LoginVersion := 0\<rparr>"

theorem announced_connection_witness:
  "\<exists>q. Option.bind (parseDiscoveryReply ''10.0.0.7'' 20002 (replicate 16 0 @ encoded (announcement ep25_https)))
        (\<lambda>f. case connectAs ''10.0.0.7'' \<lparr>Username = ''u'', Password = ''p''\<rparr> 5 f of Inl _ \<Rightarrow> None | Inr q \<Rightarrow> Some q) = Some q
    \<and> wire_config (querier_wire q) = KlapId (httpClient 5) (''https://10.0.0.7:4433/app'', \<lparr>Username = ''u'', Password = ''p''\<rparr>, 2)
    \<and> (\<exists>s. q = SmartQuerier s)"
proof -
  have a: "announced ep25_https"
    by (simp add: announced_def ep25_https_def ep25_def zero_discoveryResult_def decode_rune_def encrypt_names)
  have e: "dr_EncryptType ep25_https = ''KLAP''" "dr_LoginVersion ep25_https = 0" "dr_HTTPPort ep25_https = 4433" "dr_HTTPS ep25_https"
    by (simp_all add: ep25_https_def ep25_def encrypt_names)
  have s: "take 5 (to_upper (dr_Family ep25_https)) = ''SMART''" by code_simp
  have j: "join_host_port ''10.0.0.7'' 4433 = ''10.0.0.7:4433''" by code_simp
  show ?thesis
    using announced_connection [OF a, of "replicate 16 0" "''10.0.0.7''" "\<lparr>Username = ''u'', Password = ''p''\<rparr>" 5] e s j by simp
qed

text \<open>C11. From address to reading: a device that discovery described as an IOT plug on KLAP, with no
  connection yet, is read in full. Discovery's description builds the transport, the handshake
  proves the operator's login, the request travels encrypted, and what is returned is the sysinfo
  and the meter the device holds, under the device's address; the connection is kept.\<close>

theorem klap_plug_read:
  assumes "dv_querier d = None" and "dv_discovered d = Some f"
    and "dr_EncryptType f = encryptKLAP" and "dr_dialect f = ProtocolIOT"
    and "crypto_ok (ke_crypto K)"
    and "ke_http K (httpClient (dv_timeout d)) =
      device_env (ke_crypto K) (deviceURL (dv_host d) f @ ''/app'') dev seed"
    and "kd_auth kd = klapAuthHash (ke_crypto K) (dv_creds d) (dr_loginVersion f)" and "length (kd_seed kd) = 16"
    and "dev (encoded (jmap [sysinfo_member, emeter_member iotEmeterModule])) = encoded (state_answer sysinfo meter)"
    and "length (encoded (state_answer sysinfo meter)) + 48 \<le> maxResponseBytes"
    and "wf_json sysinfo" "wf_json meter" "depth sysinfo \<le> 9998" "depth meter \<le> 9998" "sysinfo \<noteq> JNull" "meter \<noteq> JNull"
    and "dec_iotSysinfo sysinfo zero_iotSysinfo = Some s" "dec_iotEmeter meter zero_iotEmeter = Some m"
    and "\<not> failed (is_ErrCode s)" "deviceTypeFor (is_Model s) (iot_family s) \<noteq> TypeStrip" "\<not> failed (em_ErrCode m)"
  shows "\<exists>d' kd'. device_read K c d kd =
      Some (Inr ((iotReading s)\<lparr>rd_Energy := iot_energy (Some m), rd_Host := dv_host d\<rparr>), d', kd')
    \<and> dv_querier d' \<noteq> None"
proof -
  let ?h = "httpClient (dv_timeout d)"
  define t where "t = \<lparr>kt_baseURL = deviceURL (dv_host d) f @ ''/app'', kt_credentials = dv_creds d,
      kt_loginVersion = dr_loginVersion f, kt_sessionID = [], kt_encKey = [], kt_sigKey = [],
      kt_iv = [], kt_seq = 0, kt_established = False\<rparr>"
  define q where "q = newIOTQuerier (KlapWire ?h t)"
  have "device_connection K c d kd = Some (Inr (IotQuerier q), kd)"
    using assms(1-4) by (simp add: device_connection_def negotiate_def connectAs_def encrypt_names q_def t_def Let_def)
  have req: "state_request q = jmap [sysinfo_member, emeter_member iotEmeterModule]"
    by (simp add: state_request_def q_def newIOTQuerier_def)
  have compat: "compatible (ke_crypto K) (deviceURL (dv_host d) f @ ''/app'') dev (encoded (state_request q)) t kd"
    using assms by (simp add: compatible_def t_def req)
  have "klap_session_ok t" "\<not> kt_established t" by (simp_all add: t_def klap_session_ok_def)
  then obtain t' kd' where "klap_query (ke_crypto K) (ke_http K ?h) t (encoded (state_request q)) kd =
      (Inr (dev (encoded (state_request q))), t', kd')"
    unfolding assms(6) using klap_query_device [OF compat, of seed] by blast
  then have "klap_query (ke_crypto K) (ke_http K ?h) t (encoded (state_request q)) kd =
      (Inr (encoded (state_answer sysinfo meter)), t', kd')"
    unfolding req assms(9) .
  then have "wire_query K c (iq_transport q) (encoded (state_request q)) kd =
      (Inr (encoded (state_answer sysinfo meter)), KlapWire ?h t', kd')"
    by (simp add: q_def newIOTQuerier_def)
  from iot_read_answered [where Q = "wire_query K c" and q = q and w = kd, OF this assms(11-21)]
  have "querier_read K c (IotQuerier q) kd = (Inr ((iotReading s)\<lparr>rd_Energy := iot_energy (Some m)\<rparr>),
      IotQuerier (q\<lparr>iq_transport := KlapWire ?h t'\<rparr>), kd')"
    by simp
  with \<open>device_connection K c d kd = _\<close> show ?thesis
    by (simp add: device_read_def Let_def)
qed

text \<open>A world that holds one KLAP device and answers nothing else.\<close>

definition klap_world :: "(byte list \<Rightarrow> byte list) \<Rightarrow> (unit, klap_device) kasa_env" where
  "klap_world dev =
     \<lparr>ke_crypto = toy_crypto,
      ke_tcp = \<lparr>tcp_dial = (\<lambda>_ _ w. (False, w)), tcp_now = (\<lambda>_. 0), tcp_set_deadline = (\<lambda>_ w. (True, w)),
        tcp_write = (\<lambda>_ w. (False, w)), tcp_read = (\<lambda>_ w. ([], w)), tcp_close = (\<lambda>w. w)\<rparr>,
      ke_http = (\<lambda>_. device_env toy_crypto ''http://10.0.0.7:80/app'' dev (replicate 16 4)),
      ke_aes = (\<lambda>_. \<lparr>aes_http = device_env toy_crypto ''http://10.0.0.7:80/app'' dev (replicate 16 4),
        generate_key = (\<lambda>w. (None, w)), public_pem = (\<lambda>_. None), decrypt_pkcs1 = (\<lambda>_ _ w. (None, w)),
        now_milli = (\<lambda>w. (0, w))\<rparr>),
      ke_smart = \<lparr>request_id = (\<lambda>_. 0), set_request_id = (\<lambda>_ w. w), unix_milli = (\<lambda>_. 0)\<rparr>,
      ke_udp = \<lparr>udp_listen = (\<lambda>w. (True, w)), udp_resolve = (\<lambda>a w. (Some a, w)), udp_write = (\<lambda>_ _ w. (True, w)),
        udp_set_deadline = (\<lambda>_ w. (True, w)), udp_receive = (\<lambda>w. (None, w)), udp_close = (\<lambda>w. w),
        udp_now = (\<lambda>_. 0), map_order = (\<lambda>ks w. (ks, w))\<rparr>\<rparr>"

definition example_creds :: Credentials where
  "example_creds = \<lparr>Username = ''u'', Password = ''p''\<rparr>"

definition klap_plug :: klap_device where
  "klap_plug = \<lparr>kd_auth = klapAuthHash toy_crypto example_creds klapLoginV1, kd_seed = replicate 16 9,
     kd_sid = ''S'', kd_pending = None, kd_session = None\<rparr>"

definition plug_found :: discoveryResult where
  "plug_found = zero_discoveryResult
     \<lparr>dr_Host := ''10.0.0.7'', dr_Family := ''IOT.SMARTPLUGSWITCH'', dr_EncryptType := encryptKLAP\<rparr>"

definition fridge_world :: "(unit, klap_device) kasa_env" where
  "fridge_world = klap_world (\<lambda>_. encoded (state_answer fridge fridge_meter))"

lemma fridge_answer_short: "length (encoded (state_answer fridge fridge_meter)) < 200"
  by code_simp

lemma plug_found_facts:
  "dr_EncryptType plug_found = encryptKLAP" "dr_dialect plug_found = ProtocolIOT"
  "dr_loginVersion plug_found = klapLoginV1" "deviceURL ''10.0.0.7'' plug_found @ ''/app'' = ''http://10.0.0.7:80/app''"
  by code_simp+

theorem klap_plug_read_witness:
  "\<exists>r d' kd'. device_read fridge_world \<lparr>ctx_deadline = None\<rparr> (discovered_device example_creds 5 plug_found) klap_plug
     = Some (Inr r, d', kd') \<and> rd_Host r = ''10.0.0.7'' \<and> dv_querier d' \<noteq> None"
proof -
  let ?d = "discovered_device example_creds 5 plug_found"
  let ?s = "the (dec_iotSysinfo fridge zero_iotSysinfo)" and ?m = "the (dec_iotEmeter fridge_meter zero_iotEmeter)"
  have sm: "dec_iotSysinfo fridge zero_iotSysinfo = Some ?s" "dec_iotEmeter fridge_meter zero_iotEmeter = Some ?m"
    and types: "\<not> failed (is_ErrCode ?s)" "deviceTypeFor (is_Model ?s) (iot_family ?s) \<noteq> TypeStrip" "\<not> failed (em_ErrCode ?m)"
    by code_simp+
  have h: "dv_host ?d = ''10.0.0.7''" by (simp add: discovered_device_def plug_found_def zero_discoveryResult_def)
  have l: "length (encoded (state_answer fridge fridge_meter)) + 48 \<le> maxResponseBytes"
    using fridge_answer_short by (simp add: maxResponseBytes_def)
  have K: "crypto_ok (ke_crypto fridge_world)"
    "ke_http fridge_world (httpClient (dv_timeout ?d)) = device_env (ke_crypto fridge_world)
      (deviceURL (dv_host ?d) plug_found @ ''/app'') (\<lambda>_. encoded (state_answer fridge fridge_meter)) (replicate 16 4)"
    "kd_auth klap_plug = klapAuthHash (ke_crypto fridge_world) (dv_creds ?d) (dr_loginVersion plug_found)"
    "length (kd_seed klap_plug) = 16"
    unfolding h plug_found_facts
    by (simp_all add: fridge_world_def klap_world_def toy_crypto_ok klap_plug_def discovered_device_def)
  obtain d' kd' where "device_read fridge_world \<lparr>ctx_deadline = None\<rparr> ?d klap_plug =
      Some (Inr ((iotReading ?s)\<lparr>rd_Energy := iot_energy (Some ?m), rd_Host := dv_host ?d\<rparr>), d', kd')"
      "dv_querier d' \<noteq> None"
    using klap_plug_read [OF _ _ plug_found_facts(1,2) K refl l fridge_wf sm types, of "\<lparr>ctx_deadline = None\<rparr>"]
    by (auto simp: discovered_device_def)
  then show ?thesis using h by auto
qed

theorem device_read_contract_witness:
  "\<exists>r d'. device_read fridge_world \<lparr>ctx_deadline = None\<rparr> ((connect_device ''h'' example_creds 5)\<lparr>dv_alias := ''Lamp'',
       dv_discovered := Some (zero_discoveryResult\<lparr>dr_EncryptType := ''TLS''\<rparr>)\<rparr>) klap_plug = Some (r, d', klap_plug)
     \<and> device_Alias d' = ''Lamp''"
proof -
  let ?d = "(connect_device ''h'' example_creds 5)\<lparr>dv_alias := ''Lamp'',
       dv_discovered := Some (zero_discoveryResult\<lparr>dr_EncryptType := ''TLS''\<rparr>)\<rparr>"
  have r: "device_read fridge_world \<lparr>ctx_deadline = None\<rparr> ?d klap_plug =
      Some (Inl (ConnectError (UnsupportedScheme ''TLS'')), ?d, klap_plug)"
    by (simp add: device_read_def device_connection_def connect_device_def negotiate_def connectAs_def encrypt_names)
  have "device_ok fridge_world ?d" by (simp add: device_ok_def connect_device_def)
  from device_read_contract [OF this r] r show ?thesis by (auto simp: device_Alias_def)
qed

lemma quiet_discovery: "\<exists>e w'. discoverHost (ke_udp fridge_world) c host timeout w = Some (Inl e, w')"
proof -
  have "collect (ke_udp fridge_world) deadline [] w = Some ([], w)" for deadline w
    by (subst collect.simps) (simp add: fridge_world_def klap_world_def)
  then have "discover (ke_udp fridge_world) c host timeout 1 w = Some (Inr [], w)"
    by (simp add: discover_def probe_def fridge_world_def klap_world_def Let_def map_filter_simps)
  then show ?thesis by (simp add: discoverHost_def)
qed

theorem negotiate_outcome_witness:
  "\<exists>r w'. negotiate fridge_world \<lparr>ctx_deadline = None\<rparr> ''h'' example_creds 5 None klap_plug = Some (r, w')
    \<and> (case r of Inr q \<Rightarrow> connection_ok fridge_world (connect_device ''h'' example_creds 5) q
       | Inl e \<Rightarrow> \<exists>as. e = CouldNotReach ''h'' as \<and> attempts_of probeOrder as)"
proof -
  let ?d = "connect_device ''h'' example_creds 5"
  have d: "dv_host ?d = ''h''" "dv_creds ?d = example_creds" "dv_timeout ?d = 5" by (simp_all add: connect_device_def)
  obtain e w1 where q: "discoverHost (ke_udp fridge_world) \<lparr>ctx_deadline = None\<rparr> ''h'' (unicastDiscoveryBudget 5) klap_plug = Some (Inl e, w1)"
    using quiet_discovery by blast
  then obtain r w' where n: "negotiate fridge_world \<lparr>ctx_deadline = None\<rparr> ''h'' example_creds 5 None klap_plug = Some (r, w')"
    by (cases "try_candidates fridge_world \<lparr>ctx_deadline = None\<rparr> ''h'' example_creds 5 probeOrder [] w1")
      (simp add: negotiate_def try_described_def)
  show ?thesis
    using negotiate_outcome [of fridge_world "\<lparr>ctx_deadline = None\<rparr>" ?d klap_plug r w'] n
    by (auto simp: d split: sum.splits)
qed

end
