(* ===== verification/Registry.thy ===== *)
theory Registry
  imports Connect "HOL-Library.Multiset" "HOL-Library.List_Lexorder"
begin

text \<open>
  The registry, \<^verbatim>\<open>kasa/registry.go\<close>: the fleet, its discovery schedule and the snapshot all
  collectors of a scrape share. Devices are objects shared between the registry and the
  goroutines that read them, so they live in a heap and the registry holds their places in it.
\<close>

record options =
  op_Hosts :: "string list"
  op_Credentials :: Credentials
  op_Discovery :: bool
  op_DiscoveryTarget :: string
  op_DiscoveryInterval :: int
  op_DiscoveryTimeout :: int
  op_DiscoveryPackets :: int
  op_Timeout :: int
  op_CacheTTL :: int
  op_Concurrency :: int
  op_KeepMissing :: bool

record scrape_result =
  re_Host :: string
  re_Alias :: string
  re_Type :: DeviceType
  re_Reading :: "Reading option"
  re_Err :: "kasa_error option"

type_synonym heap = "device list"

text \<open>Times that were never set are \<^term>\<open>None\<close>.\<close>

record registry =
  rg_opts :: options
  rg_devices :: "(string \<times> nat) list"
  rg_manual :: "string list"
  rg_lastDiscovery :: "int option"
  rg_discovering :: bool
  rg_snapshot :: "scrape_result list option"
  rg_snapshotTime :: "int option"

subsection \<open>The device set\<close>

definition add_device :: "device \<Rightarrow> (string \<times> nat) list \<times> heap \<Rightarrow> (string \<times> nat) list \<times> heap" where
  "add_device d dh = (case dh of (devices, heap) \<Rightarrow> (AList.update (dv_host d) (length heap) devices, heap @ [d]))"

definition NewRegistry :: "options \<Rightarrow> registry \<times> heap" where
  "NewRegistry opts =
     (let opts = (if op_Concurrency opts < 1 then opts\<lparr>op_Concurrency := 1\<rparr> else opts);
          (devices, heap) = foldl (\<lambda>dh host. add_device (connect_device host (op_Credentials opts) (op_Timeout opts)) dh)
             ([], []) (op_Hosts opts) in
      (\<lparr>rg_opts = opts, rg_devices = devices, rg_manual = op_Hosts opts, rg_lastDiscovery = None,
        rg_discovering = False, rg_snapshot = None, rg_snapshotTime = None\<rparr>, heap))"

definition close_all :: "nat list \<Rightarrow> heap \<Rightarrow> heap" where
  "close_all places heap = foldl (\<lambda>h i. h[i := device_close (h ! i)]) heap places"

definition registry_close :: "registry \<Rightarrow> heap \<Rightarrow> heap" where
  "registry_close r heap = close_all (map snd (rg_devices r)) heap"

fun add_found :: "device list \<Rightarrow> (string \<times> nat) list \<times> heap \<Rightarrow> (string \<times> nat) list \<times> heap" where
  "add_found [] dh = dh"
| "add_found (d # ds) dh =
     (if map_of (fst dh) (dv_host d) \<noteq> None then add_found ds dh else add_found ds (add_device d dh))"

definition reconcile :: "device list \<Rightarrow> registry \<times> heap \<Rightarrow> registry \<times> heap" where
  "reconcile found rh =
     (case rh of (r, heap) \<Rightarrow>
      let seen = map dv_host found; (devices, heap) = add_found found (rg_devices r, heap) in
      if op_KeepMissing (rg_opts r) then (r\<lparr>rg_devices := devices\<rparr>, heap)
      else
      let stays = (\<lambda>(host, _). host \<in> set seen \<or> host \<in> set (rg_manual r)) in
      (r\<lparr>rg_devices := filter stays devices\<rparr>, close_all (map snd (filter (\<lambda>x. \<not> stays x) devices)) heap))"

subsection \<open>Discovery\<close>

datatype sweep = NoSweep | InlineSweep | BackgroundSweep

definition refreshDevices :: "int \<Rightarrow> registry \<Rightarrow> sweep \<times> registry" where
  "refreshDevices now r =
     (if \<not> op_Discovery (rg_opts r) then (NoSweep, r)
      else
      let first = (rg_lastDiscovery r = None);
          due = (case rg_lastDiscovery r of None \<Rightarrow> True
            | Some t \<Rightarrow> op_DiscoveryInterval (rg_opts r) \<le> now - t);
          busy = rg_discovering r in
      if \<not> due \<or> busy then (NoSweep, r)
      else (if first then InlineSweep else BackgroundSweep, r\<lparr>rg_discovering := True\<rparr>))"

text \<open>What a sweep does with its outcome, and its deferred end, which records the time either way.\<close>

definition settle :: "kasa_error + device list \<Rightarrow> registry \<times> heap \<Rightarrow> registry \<times> heap" where
  "settle outcome rh = (case outcome of Inl _ \<Rightarrow> rh | Inr found \<Rightarrow> reconcile found rh)"

definition end_sweep :: "int \<Rightarrow> registry \<Rightarrow> registry" where
  "end_sweep now r = r\<lparr>rg_discovering := False, rg_lastDiscovery := Some now\<rparr>"

definition finish_sweep :: "int \<Rightarrow> kasa_error + device list \<Rightarrow> registry \<times> heap \<Rightarrow> registry \<times> heap" where
  "finish_sweep now outcome rh = (case settle outcome rh of (r, heap) \<Rightarrow> (end_sweep now r, heap))"

definition run_discovery ::
  "('k, 'w) kasa_env \<Rightarrow> ctx \<Rightarrow> registry \<times> heap \<Rightarrow> 'w \<Rightarrow> ((registry \<times> heap) \<times> 'w) option" where
  "run_discovery K c rh w =
     (let opts = rg_opts (fst rh) in
      case discover_devices K c (op_DiscoveryTarget opts) (op_DiscoveryTimeout opts) (op_DiscoveryPackets opts)
          (op_Credentials opts) (op_Timeout opts) w of
        None \<Rightarrow> None
      | Some (outcome, w) \<Rightarrow> Some (finish_sweep (tcp_now (ke_tcp K) w) outcome rh, w))"

subsection \<open>Reading the fleet\<close>

text \<open>\<^verbatim>\<open>context.WithTimeout\<close>: the earlier of the two deadlines.\<close>

definition with_timeout :: "ctx \<Rightarrow> int \<Rightarrow> int \<Rightarrow> ctx" where
  "with_timeout c now timeout =
     \<lparr>ctx_deadline = Some (case ctx_deadline c of None \<Rightarrow> now + timeout
        | Some d \<Rightarrow> if d < now + timeout then d else now + timeout)\<rparr>"

definition result_of :: "device \<Rightarrow> kasa_error + Reading \<Rightarrow> scrape_result" where
  "result_of d r =
     \<lparr>re_Host = dv_host d, re_Alias = device_Alias d, re_Type = device_Type d,
      re_Reading = (case r of Inl _ \<Rightarrow> None | Inr reading \<Rightarrow> Some reading),
      re_Err = (case r of Inl e \<Rightarrow> Some e | Inr _ \<Rightarrow> None)\<rparr>"

text \<open>The goroutine of one device: waiting for a place, holding one, or done.\<close>

datatype task = Waiting (place: nat) | Running (place: nat) | Finished (place: nat) (scraped: scrape_result)

definition running :: "task list \<Rightarrow> nat" where
  "running tasks = length (filter (\<lambda>t. case t of Running _ \<Rightarrow> True | _ \<Rightarrow> False) tasks)"

definition list_tasks :: "registry \<Rightarrow> string list \<Rightarrow> task list" where
  "list_tasks r hosts = map Waiting (List.map_filter (map_of (rg_devices r)) hosts)"

definition finished_results :: "task list \<Rightarrow> scrape_result list option" where
  "finished_results tasks =
     those (map (\<lambda>t. case t of Finished _ x \<Rightarrow> Some x | _ \<Rightarrow> None) tasks)"

definition cached :: "int \<Rightarrow> registry \<Rightarrow> scrape_result list option" where
  "cached now r =
     (case rg_snapshotTime r of
        None \<Rightarrow> None
      | Some t \<Rightarrow> if now - t < op_CacheTTL (rg_opts r) then rg_snapshot r else None)"

definition publish :: "int \<Rightarrow> scrape_result list \<Rightarrow> registry \<Rightarrow> registry" where
  "publish now results r = r\<lparr>rg_snapshot := Some (sort_key re_Host results), rg_snapshotTime := Some now\<rparr>"

subsection \<open>The running registry\<close>

text \<open>
  Where \<^verbatim>\<open>Snapshot\<close> is (there is at most one, under \<open>snapshotMtx\<close>), and where the sweep is, if one is
  under way: started, by a scrape that waits for it or in the background, holding what it found, or with
  only its deferred end to come. Every step is one of the critical sections of the code, the network
  discovery of a sweep, or one device read, which holds the device's own lock from beginning to end.
\<close>

datatype scrape = Idle | Sweeping ctx | Refreshed ctx | ReadAll ctx "task list"

datatype phase = NotSweeping | Started "ctx option" | Found "kasa_error + device list" | Settled

record 'w fleet =
  fl_reg :: registry
  fl_heap :: heap
  fl_world :: 'w
  fl_scrape :: scrape
  fl_phase :: phase

definition fl_sweeping :: "'w fleet \<Rightarrow> bool" where
  "fl_sweeping s \<longleftrightarrow> fl_phase s \<noteq> NotSweeping"

text \<open>The context of a sweep: the scrape's, or a new one for the background.\<close>

definition sweep_ctx :: "int \<Rightarrow> options \<Rightarrow> ctx option \<Rightarrow> ctx" where
  "sweep_ctx now opts co =
     (case co of
        Some c \<Rightarrow> c
      | None \<Rightarrow> with_timeout \<lparr>ctx_deadline = None\<rparr> now (op_DiscoveryTimeout opts + op_Timeout opts))"

definition after_sweep :: "scrape \<Rightarrow> scrape" where
  "after_sweep x = (case x of Sweeping c \<Rightarrow> Refreshed c | _ \<Rightarrow> x)"

inductive step :: "('k, 'w) kasa_env \<Rightarrow> 'w fleet \<Rightarrow> 'w fleet \<Rightarrow> bool" for K where
  snapshot_hit:
    "fl_scrape s = Idle \<Longrightarrow> cached (tcp_now (ke_tcp K) (fl_world s)) (fl_reg s) = Some results \<Longrightarrow> step K s s"
| snapshot_no_sweep:
    "fl_scrape s = Idle \<Longrightarrow> cached (tcp_now (ke_tcp K) (fl_world s)) (fl_reg s) = None \<Longrightarrow>
     refreshDevices (tcp_now (ke_tcp K) (fl_world s)) (fl_reg s) = (NoSweep, r) \<Longrightarrow>
     step K s (s\<lparr>fl_scrape := Refreshed c, fl_reg := r\<rparr>)"
| snapshot_inline_sweep:
    "fl_scrape s = Idle \<Longrightarrow> cached (tcp_now (ke_tcp K) (fl_world s)) (fl_reg s) = None \<Longrightarrow>
     refreshDevices (tcp_now (ke_tcp K) (fl_world s)) (fl_reg s) = (InlineSweep, r) \<Longrightarrow>
     step K s (s\<lparr>fl_scrape := Sweeping c, fl_reg := r, fl_phase := Started (Some c)\<rparr>)"
| snapshot_background_sweep:
    "fl_scrape s = Idle \<Longrightarrow> cached (tcp_now (ke_tcp K) (fl_world s)) (fl_reg s) = None \<Longrightarrow>
     refreshDevices (tcp_now (ke_tcp K) (fl_world s)) (fl_reg s) = (BackgroundSweep, r) \<Longrightarrow>
     step K s (s\<lparr>fl_scrape := Refreshed c, fl_reg := r, fl_phase := Started None\<rparr>)"
| sweep_discovers:
    "fl_phase s = Started co \<Longrightarrow> opts = rg_opts (fl_reg s) \<Longrightarrow>
     discover_devices K (sweep_ctx (tcp_now (ke_tcp K) (fl_world s)) opts co) (op_DiscoveryTarget opts)
       (op_DiscoveryTimeout opts) (op_DiscoveryPackets opts) (op_Credentials opts) (op_Timeout opts) (fl_world s)
       = Some (outcome, w') \<Longrightarrow>
     step K s (s\<lparr>fl_phase := Found outcome, fl_world := w'\<rparr>)"
| sweep_settles:
    "fl_phase s = Found outcome \<Longrightarrow> settle outcome (fl_reg s, fl_heap s) = (r', heap') \<Longrightarrow>
     step K s (s\<lparr>fl_reg := r', fl_heap := heap', fl_phase := Settled\<rparr>)"
| sweep_ends:
    "fl_phase s = Settled \<Longrightarrow>
     step K s (s\<lparr>fl_reg := end_sweep (tcp_now (ke_tcp K) (fl_world s)) (fl_reg s), fl_phase := NotSweeping,
                fl_scrape := after_sweep (fl_scrape s)\<rparr>)"
| list_devices:
    "fl_scrape s = Refreshed c \<Longrightarrow>
     map_order (ke_udp K) (map fst (rg_devices (fl_reg s))) (fl_world s) = (hosts, w') \<Longrightarrow>
     step K s (s\<lparr>fl_scrape := ReadAll c (list_tasks (fl_reg s) hosts), fl_world := w'\<rparr>)"
| acquire:
    "fl_scrape s = ReadAll c tasks \<Longrightarrow> i < length tasks \<Longrightarrow> tasks ! i = Waiting p \<Longrightarrow>
     int (running tasks) < op_Concurrency (rg_opts (fl_reg s)) \<Longrightarrow>
     step K s (s\<lparr>fl_scrape := ReadAll c (tasks[i := Running p])\<rparr>)"
| read_device:
    "fl_scrape s = ReadAll c tasks \<Longrightarrow> i < length tasks \<Longrightarrow> tasks ! i = Running p \<Longrightarrow>
     device_read K (with_timeout c (tcp_now (ke_tcp K) (fl_world s)) (op_Timeout (rg_opts (fl_reg s))))
       (fl_heap s ! p) (fl_world s) = Some (x, d', w') \<Longrightarrow>
     step K s (s\<lparr>fl_scrape := ReadAll c (tasks[i := Finished p (result_of d' x)]),
                fl_heap := (fl_heap s)[p := d'], fl_world := w'\<rparr>)"
| snapshot_done:
    "fl_scrape s = ReadAll c tasks \<Longrightarrow> finished_results tasks = Some results \<Longrightarrow>
     step K s (s\<lparr>fl_scrape := Idle, fl_reg := publish (tcp_now (ke_tcp K) (fl_world s)) results (fl_reg s)\<rparr>)"
| close:
    "step K s (s\<lparr>fl_heap := registry_close (fl_reg s) (fl_heap s)\<rparr>)"

definition initial :: "options \<Rightarrow> 'w \<Rightarrow> 'w fleet" where
  "initial opts w =
     \<lparr>fl_reg = fst (NewRegistry opts), fl_heap = snd (NewRegistry opts), fl_world = w, fl_scrape = Idle,
      fl_phase = NotSweeping\<rparr>"

inductive reachable :: "('k, 'w) kasa_env \<Rightarrow> options \<Rightarrow> 'w fleet \<Rightarrow> bool" for K opts where
  start: "reachable K opts (initial opts w)"
| onward: "reachable K opts s \<Longrightarrow> step K s s' \<Longrightarrow> reachable K opts s'"

subsection \<open>Operations on the device set\<close>

text \<open>The registry's entries: one per host, each the place of a device with that host.\<close>

definition devices_ok :: "(string \<times> nat) list \<Rightarrow> heap \<Rightarrow> bool" where
  "devices_ok devices heap \<longleftrightarrow>
     distinct (map fst devices) \<and>
     (\<forall>h p. map_of devices h = Some p \<longrightarrow> p < length heap \<and> dv_host (heap ! p) = h)"

text \<open>Devices are added and updated, never moved, and keep their host.\<close>

definition heap_le :: "heap \<Rightarrow> heap \<Rightarrow> bool" where
  "heap_le heap heap' \<longleftrightarrow>
     length heap \<le> length heap' \<and> (\<forall>p < length heap. dv_host (heap' ! p) = dv_host (heap ! p))"

lemma heap_le_refl [simp]: "heap_le heap heap"
  by (simp add: heap_le_def)

lemma heap_le_trans: "heap_le a b \<Longrightarrow> heap_le b c \<Longrightarrow> heap_le a c"
  by (auto simp: heap_le_def)

lemma heap_le_append [simp]: "heap_le heap (heap @ ys)"
  by (simp add: heap_le_def nth_append)

lemma heap_le_update: "p < length heap \<Longrightarrow> dv_host d = dv_host (heap ! p) \<Longrightarrow> heap_le heap (heap[p := d])"
  by (simp add: heap_le_def nth_list_update)

lemma devices_ok_heap: "devices_ok devices heap \<Longrightarrow> heap_le heap heap' \<Longrightarrow> devices_ok devices heap'"
  by (fastforce simp: devices_ok_def heap_le_def)

lemma add_device_ok:
  assumes "devices_ok devices heap"
  shows "\<exists>devices'. add_device d (devices, heap) = (devices', heap @ [d]) \<and> devices_ok devices' (heap @ [d])
    \<and> map_of devices' = (map_of devices)(dv_host d \<mapsto> length heap)"
  using assms
  by (auto simp: add_device_def devices_ok_def update_conv' distinct_update nth_append less_Suc_eq split: if_splits)

lemma add_found_ok:
  "devices_ok devices heap \<Longrightarrow>
    \<exists>devices' new. add_found found (devices, heap) = (devices', heap @ new) \<and> devices_ok devices' (heap @ new)
      \<and> set new \<subseteq> set found \<and> dom (map_of devices') = dom (map_of devices) \<union> dv_host ` set found
      \<and> map_of devices \<subseteq>\<^sub>m map_of devices'"
proof (induction found arbitrary: devices heap)
  case (Cons d ds)
  show ?case
  proof (cases "map_of devices (dv_host d)")
    case (Some p)
    then show ?thesis using Cons.IH [OF Cons.prems] by fastforce
  next
    case None
    obtain devices1 where a: "add_device d (devices, heap) = (devices1, heap @ [d])" "devices_ok devices1 (heap @ [d])"
        "map_of devices1 = (map_of devices)(dv_host d \<mapsto> length heap)"
      using add_device_ok [OF Cons.prems] by blast
    obtain devices' new where IH: "add_found ds (devices1, heap @ [d]) = (devices', (heap @ [d]) @ new)"
        "devices_ok devices' ((heap @ [d]) @ new)" "set new \<subseteq> set ds"
        "dom (map_of devices') = dom (map_of devices1) \<union> dv_host ` set ds" "map_of devices1 \<subseteq>\<^sub>m map_of devices'"
      using Cons.IH [OF a(2)] by blast
    have "map_of devices \<subseteq>\<^sub>m map_of devices1" using None a(3) by (auto simp: map_le_def)
    then have "map_of devices \<subseteq>\<^sub>m map_of devices'" using IH(5) by (rule map_le_trans)
    then show ?thesis
      using IH None a by (intro exI [of _ devices'] exI [of _ "d # new"]) auto
  qed
qed auto

lemma close_all_nth:
  "length (close_all ps heap) = length heap \<and>
   (p < length heap \<longrightarrow> close_all ps heap ! p = (if p \<in> set ps then device_close (heap ! p) else heap ! p))"
proof (induction ps arbitrary: heap)
  case (Cons i ps)
  have c: "close_all (i # ps) heap = close_all ps (heap[i := device_close (heap ! i)])" by (simp add: close_all_def)
  show ?case
    using Cons.IH [of "heap[i := device_close (heap ! i)]"]
    by (cases "p = i") (auto simp: c device_close_def)
qed (simp add: close_all_def)

lemma heap_le_close_all [simp]: "heap_le heap (close_all ps heap)"
  using close_all_nth [of ps heap] by (auto simp: heap_le_def device_close_def)

lemma device_ok_close [simp]: "device_ok K (device_close d)"
  by (simp add: device_ok_def device_close_def)

lemma close_all_ok:
  assumes "list_all (device_ok K) heap" shows "list_all (device_ok K) (close_all ps heap)"
  using assms close_all_nth [of ps heap] by (auto simp: list_all_length)

lemma filter_devices_ok:
  "devices_ok devices heap \<Longrightarrow> devices_ok (filter P devices) heap"
proof -
  assume ok: "devices_ok devices heap"
  have "map_of (filter P devices) h = Some p \<Longrightarrow> map_of devices h = Some p" for h p
    using ok by (auto simp: devices_ok_def dest!: map_of_SomeD)
  with ok show ?thesis by (auto simp: devices_ok_def distinct_map_filter)
qed

text \<open>What a reconciliation does, for both settings of \<open>KeepMissing\<close>.\<close>

lemma reconcile_ok:
  assumes "devices_ok (rg_devices r) heap" and "reconcile found (r, heap) = (r', heap')"
  shows "devices_ok (rg_devices r') heap'" and "heap_le heap heap'"
    and "r' = r\<lparr>rg_devices := rg_devices r'\<rparr>"
    and "list_all (device_ok K) heap \<Longrightarrow> list_all (device_ok K) found \<Longrightarrow> list_all (device_ok K) heap'"
    and "dom (map_of (rg_devices r')) = {h \<in> dom (map_of (rg_devices r)) \<union> dv_host ` set found.
          op_KeepMissing (rg_opts r) \<or> h \<in> dv_host ` set found \<or> h \<in> set (rg_manual r)}"
    and "map_of (rg_devices r) h = Some p \<Longrightarrow> h \<in> dom (map_of (rg_devices r')) \<Longrightarrow>
          map_of (rg_devices r') h = Some p \<and> heap' ! p = heap ! p"
proof -
  obtain devices new where a: "add_found found (rg_devices r, heap) = (devices, heap @ new)"
      "devices_ok devices (heap @ new)" "set new \<subseteq> set found"
      "dom (map_of devices) = dom (map_of (rg_devices r)) \<union> dv_host ` set found"
      "map_of (rg_devices r) \<subseteq>\<^sub>m map_of devices"
    using add_found_ok [OF assms(1)] by blast
  define stays where "stays = (\<lambda>x :: string \<times> nat. fst x \<in> dv_host ` set found \<or> fst x \<in> set (rg_manual r))"
  have st: "(\<lambda>(host, _). host \<in> dv_host ` set found \<or> host \<in> set (rg_manual r)) = stays"
    by (auto simp: stays_def)
  let ?drop = "map snd (filter (\<lambda>x. \<not> stays x) devices)"
  have r': "r' = (if op_KeepMissing (rg_opts r) then r\<lparr>rg_devices := devices\<rparr> else r\<lparr>rg_devices := filter stays devices\<rparr>)"
    and h': "heap' = (if op_KeepMissing (rg_opts r) then heap @ new else close_all ?drop (heap @ new))"
    using assms(2) by (auto simp: reconcile_def a(1) Let_def st split: if_splits)
  have le: "heap_le (heap @ new) heap'" by (simp add: h')
  then show "heap_le heap heap'" using heap_le_trans [OF heap_le_append] by blast
  show "devices_ok (rg_devices r') heap'"
    using devices_ok_heap [OF a(2) le] filter_devices_ok by (auto simp: r')
  show "r' = r\<lparr>rg_devices := rg_devices r'\<rparr>" by (simp add: r')
  show "list_all (device_ok K) heap'" if "list_all (device_ok K) heap" "list_all (device_ok K) found"
  proof -
    have "list_all (device_ok K) (heap @ new)" using that a(3) unfolding list_all_iff set_append by blast
    then show ?thesis by (simp add: h' close_all_ok)
  qed
  have f: "map_of (filter stays devices) h =
      (if h \<in> dv_host ` set found \<or> h \<in> set (rg_manual r) then map_of devices h else None)" for h
    by (induction devices) (auto simp: stays_def)
  show "dom (map_of (rg_devices r')) = {h \<in> dom (map_of (rg_devices r)) \<union> dv_host ` set found.
          op_KeepMissing (rg_opts r) \<or> h \<in> dv_host ` set found \<or> h \<in> set (rg_manual r)}"
    using a(4) by (auto simp: r' f dom_def split: if_splits)
  show "map_of (rg_devices r') h = Some p \<and> heap' ! p = heap ! p"
    if p: "map_of (rg_devices r) h = Some p" and h: "h \<in> dom (map_of (rg_devices r'))"
  proof -
    have d: "map_of devices h = Some p" using p a(5) by (auto simp: map_le_def dom_def)
    have pl: "p < length heap" using p assms(1) by (simp add: devices_ok_def)
    have m: "map_of (rg_devices r') h = Some p" using h d by (auto simp: r' f split: if_splits)
    have "p \<notin> set ?drop" if "\<not> op_KeepMissing (rg_opts r)"
    proof
      assume "p \<in> set ?drop"
      then obtain k where k: "(k, p) \<in> set devices" "k \<notin> dv_host ` set found" "k \<notin> set (rg_manual r)"
        by (auto simp: stays_def)
      then have "map_of devices k = Some p" using a(2) by (simp add: devices_ok_def)
      then have "dv_host ((heap @ new) ! p) = k" "dv_host ((heap @ new) ! p) = h"
        using a(2) d unfolding devices_ok_def by blast+
      then have "k = h" by simp
      then show False using k(2,3) h that by (auto simp: r' f split: if_splits)
    qed
    then have "heap' ! p = heap ! p"
      using close_all_nth [of ?drop "heap @ new" p] pl by (auto simp: h' nth_append)
    with m show ?thesis by simp
  qed
qed

subsection \<open>The invariant\<close>

definition registry_ok :: "options \<Rightarrow> registry \<Rightarrow> heap \<Rightarrow> bool" where
  "registry_ok opts r heap \<longleftrightarrow>
     devices_ok (rg_devices r) heap \<and> set (rg_manual r) \<subseteq> dom (map_of (rg_devices r))
     \<and> rg_opts r = rg_opts (fst (NewRegistry opts)) \<and> rg_manual r = op_Hosts opts
     \<and> (case rg_snapshot r of None \<Rightarrow> True | Some results \<Rightarrow> sorted_wrt (<) (map re_Host results))"

definition tasks_ok :: "int \<Rightarrow> heap \<Rightarrow> task list \<Rightarrow> bool" where
  "tasks_ok concurrency heap tasks \<longleftrightarrow>
     int (running tasks) \<le> concurrency
     \<and> (\<forall>t \<in> set tasks. place t < length heap)
     \<and> distinct (map (\<lambda>t. dv_host (heap ! place t)) tasks)
     \<and> (\<forall>p x. Finished p x \<in> set tasks \<longrightarrow> re_Host x = dv_host (heap ! p))"

definition fleet_ok :: "('k, 'w) kasa_env \<Rightarrow> options \<Rightarrow> 'w fleet \<Rightarrow> bool" where
  "fleet_ok K opts s \<longleftrightarrow>
     registry_ok opts (fl_reg s) (fl_heap s)
     \<and> list_all (device_ok K) (fl_heap s)
     \<and> rg_discovering (fl_reg s) = fl_sweeping s
     \<and> (case fl_phase s of Found (Inr ds) \<Rightarrow> list_all (device_ok K) ds | _ \<Rightarrow> True)
     \<and> (case fl_scrape s of ReadAll c tasks \<Rightarrow> tasks_ok (op_Concurrency (rg_opts (fl_reg s))) (fl_heap s) tasks
         | _ \<Rightarrow> True)"

lemma NewRegistry_opts: "1 \<le> op_Concurrency (rg_opts (fst (NewRegistry opts)))"
  by (auto simp: NewRegistry_def Let_def split: prod.split)

lemma device_ok_fresh [simp]: "dv_querier d = None \<Longrightarrow> device_ok K d"
  by (simp add: device_ok_def)

lemma connect_device_simps [simp]:
  "dv_host (connect_device host creds timeout) = host" "dv_querier (connect_device host creds timeout) = None"
  by (simp_all add: connect_device_def)

lemma foldl_add_device:
  "devices_ok devices heap \<Longrightarrow> list_all (device_ok K) heap \<Longrightarrow>
   \<exists>devices' heap'. foldl (\<lambda>dh host. add_device (connect_device host creds timeout) dh) (devices, heap) hosts = (devices', heap')
     \<and> devices_ok devices' heap' \<and> list_all (device_ok K) heap'
     \<and> dom (map_of devices') = dom (map_of devices) \<union> set hosts"
proof (induction hosts arbitrary: devices heap)
  case (Cons host hosts)
  obtain devices1 where a: "add_device (connect_device host creds timeout) (devices, heap) = (devices1, heap @ [connect_device host creds timeout])"
      "devices_ok devices1 (heap @ [connect_device host creds timeout])"
      "map_of devices1 = (map_of devices)(host \<mapsto> length heap)"
    using add_device_ok [OF Cons.prems(1), of "connect_device host creds timeout"] by auto
  have "list_all (device_ok K) (heap @ [connect_device host creds timeout])"
    using Cons.prems(2) by simp
  from Cons.IH [OF a(2) this] show ?case using a by auto
qed auto

lemma fleet_ok_initial: "fleet_ok K opts (initial opts w)"
proof -
  let ?o = "if op_Concurrency opts < 1 then opts\<lparr>op_Concurrency := 1\<rparr> else opts"
  have "devices_ok [] []" by (simp add: devices_ok_def)
  from foldl_add_device [OF this, of K "op_Credentials ?o" "op_Timeout ?o" "op_Hosts ?o"]
  obtain devices heap where f: "foldl (\<lambda>dh host. add_device (connect_device host (op_Credentials ?o) (op_Timeout ?o)) dh) ([], []) (op_Hosts ?o) = (devices, heap)"
    "devices_ok devices heap" "list_all (device_ok K) heap" "dom (map_of devices) = set (op_Hosts ?o)"
    by auto
  have n: "NewRegistry opts = (\<lparr>rg_opts = ?o, rg_devices = devices, rg_manual = op_Hosts ?o, rg_lastDiscovery = None,
        rg_discovering = False, rg_snapshot = None, rg_snapshotTime = None\<rparr>, heap)"
    unfolding NewRegistry_def Let_def f(1) by simp
  show ?thesis
    using f by (simp add: fleet_ok_def initial_def n registry_ok_def fl_sweeping_def)
qed

lemma refreshDevices_frame:
  "refreshDevices now r = (x, r') \<Longrightarrow>
    r' = r\<lparr>rg_discovering := rg_discovering r \<or> x \<noteq> NoSweep\<rparr> \<and> (x \<noteq> NoSweep \<longrightarrow> \<not> rg_discovering r)"
  by (auto simp: refreshDevices_def Let_def split: if_splits)

lemma registry_ok_update [simp]:
  "registry_ok opts (r\<lparr>rg_discovering := b\<rparr>) heap = registry_ok opts r heap"
  "registry_ok opts (r\<lparr>rg_discovering := b, rg_lastDiscovery := t\<rparr>) heap = registry_ok opts r heap"
  by (simp_all add: registry_ok_def)

lemma registry_ok_heap: "registry_ok opts r heap \<Longrightarrow> heap_le heap heap' \<Longrightarrow> registry_ok opts r heap'"
  by (auto simp: registry_ok_def intro: devices_ok_heap)

lemma tasks_ok_heap: 
  assumes "tasks_ok n heap tasks" and "heap_le heap heap'" shows "tasks_ok n heap' tasks"
proof -
  have h: "dv_host (heap' ! place t) = dv_host (heap ! place t)" "place t < length heap'" if "t \<in> set tasks" for t
    using assms that by (auto simp: tasks_ok_def heap_le_def intro: less_le_trans)
  have e: "map (\<lambda>t. dv_host (heap' ! place t)) tasks = map (\<lambda>t. dv_host (heap ! place t)) tasks" using h by simp
  have "re_Host x = dv_host (heap' ! p)" if "Finished p x \<in> set tasks" for p x
    using h(1) [OF that] assms(1) that by (simp add: tasks_ok_def)
  then show ?thesis using assms(1) h(2) unfolding tasks_ok_def e by blast
qed

lemma discover_devices_fresh:
  "discover_devices K c target t n creds dt w = Some (Inr ds, w') \<Longrightarrow> d \<in> set ds \<Longrightarrow> dv_querier d = None"
  by (auto simp: discover_devices_def discovered_device_def split: option.splits prod.splits sum.splits)

lemma settle_ok:
  assumes "registry_ok opts r heap" and "list_all (device_ok K) heap"
    and "\<And>ds. outcome = Inr ds \<Longrightarrow> list_all (device_ok K) ds"
    and "settle outcome (r, heap) = (r', heap')"
  shows "registry_ok opts r' heap' \<and> list_all (device_ok K) heap' \<and> rg_discovering r' = rg_discovering r
    \<and> heap_le heap heap' \<and> rg_opts r' = rg_opts r"
proof (cases outcome)
  case (Inl e)
  then show ?thesis using assms by (auto simp: settle_def)
next
  case (Inr found)
  have f: "reconcile found (r, heap) = (r', heap')" using assms(4) Inr by (simp add: settle_def)
  have ok: "devices_ok (rg_devices r) heap" using assms(1) by (simp add: registry_ok_def)
  note rec = reconcile_ok [OF ok f]
  have "registry_ok opts r' heap'"
    using assms(1) rec(1,5) by (subst (asm) (1) registry_ok_def, subst rec(3)) (auto simp: registry_ok_def)
  moreover have "rg_opts r' = rg_opts r" "rg_discovering r' = rg_discovering r" by (subst rec(3), simp)+
  ultimately show ?thesis using rec(2,4) assms(2,3) Inr by simp
qed

lemma end_sweep_simps [simp]:
  "rg_devices (end_sweep now r) = rg_devices r" "rg_opts (end_sweep now r) = rg_opts r"
  "\<not> rg_discovering (end_sweep now r)" "rg_snapshot (end_sweep now r) = rg_snapshot r"
  "registry_ok opts (end_sweep now r) heap = registry_ok opts r heap"
  by (simp_all add: end_sweep_def)

lemma after_sweep_ReadAll [simp]: "after_sweep x = ReadAll c tasks \<longleftrightarrow> x = ReadAll c tasks"
  by (cases x) (simp_all add: after_sweep_def)

text \<open>Undisturbed, the steps of a sweep are the code's \<^verbatim>\<open>runDiscovery\<close>.\<close>

lemma sweep_runs:
  assumes "fl_phase s = Started co"
    and "run_discovery K (sweep_ctx (tcp_now (ke_tcp K) (fl_world s)) (rg_opts (fl_reg s)) co) (fl_reg s, fl_heap s) (fl_world s)
      = Some ((r', heap'), w')"
  shows "(step K)\<^sup>*\<^sup>* s (s\<lparr>fl_reg := r', fl_heap := heap', fl_world := w', fl_phase := NotSweeping,
      fl_scrape := after_sweep (fl_scrape s)\<rparr>)"
proof -
  let ?o = "rg_opts (fl_reg s)"
  obtain outcome where d: "discover_devices K (sweep_ctx (tcp_now (ke_tcp K) (fl_world s)) ?o co) (op_DiscoveryTarget ?o)
      (op_DiscoveryTimeout ?o) (op_DiscoveryPackets ?o) (op_Credentials ?o) (op_Timeout ?o) (fl_world s) = Some (outcome, w')"
    and f: "finish_sweep (tcp_now (ke_tcp K) w') outcome (fl_reg s, fl_heap s) = (r', heap')"
    using assms(2) by (auto simp: run_discovery_def Let_def split: option.splits)
  obtain r1 where r1: "settle outcome (fl_reg s, fl_heap s) = (r1, heap')" "r' = end_sweep (tcp_now (ke_tcp K) w') r1"
    using f by (auto simp: finish_sweep_def split: prod.splits)
  let ?s1 = "s\<lparr>fl_phase := Found outcome, fl_world := w'\<rparr>"
  let ?s2 = "?s1\<lparr>fl_reg := r1, fl_heap := heap', fl_phase := Settled\<rparr>"
  have 1: "step K s ?s1" by (rule sweep_discovers [OF assms(1) refl d])
  have 2: "step K ?s1 ?s2" by (rule sweep_settles [where outcome = outcome]) (use r1(1) in simp_all)
  have "step K ?s2 (?s2\<lparr>fl_reg := end_sweep (tcp_now (ke_tcp K) (fl_world ?s2)) (fl_reg ?s2), fl_phase := NotSweeping,
                fl_scrape := after_sweep (fl_scrape ?s2)\<rparr>)"
    by (rule sweep_ends) simp
  then have 3: "step K ?s2 (s\<lparr>fl_reg := r', fl_heap := heap', fl_world := w', fl_phase := NotSweeping,
      fl_scrape := after_sweep (fl_scrape s)\<rparr>)" by (cases s) (simp add: r1(2))
  from 1 2 3 show ?thesis by (meson converse_rtranclp_into_rtranclp r_into_rtranclp)
qed

text \<open>What is assumed of Go's maps: ranging over one visits each key once.\<close>

definition ranges_once :: "('k, 'w) kasa_env \<Rightarrow> bool" where
  "ranges_once K \<longleftrightarrow> (\<forall>ks w. mset (fst (map_order (ke_udp K) ks w)) = mset ks)"

lemma places_of:
  assumes "devices_ok (rg_devices r) heap" and "set hosts \<subseteq> dom (map_of (rg_devices r))"
  shows "map (\<lambda>t. dv_host (heap ! place t)) (list_tasks r hosts) = hosts"
    and "\<forall>t \<in> set (list_tasks r hosts). place t < length heap"
  using assms
  by (induction hosts) (auto simp: list_tasks_def map_filter_simps devices_ok_def dom_def)

lemma running_Waiting [simp]: "running (map Waiting ps) = 0"
  by (simp add: running_def filter_empty_conv)

lemma running_update:
  assumes "i < length tasks" 
  shows "running (tasks[i := t]) + running [tasks ! i] = running tasks + running [t]"
proof -
  have "running (take i tasks @ x # drop (Suc i) tasks) = running (take i tasks) + running [x] + running (drop (Suc i) tasks)" for x
    by (simp add: running_def)
  from this [of t] this [of "tasks ! i"] show ?thesis
    using assms by (simp add: upd_conv_take_nth_drop id_take_nth_drop [symmetric])
qed

lemma tasks_ok_update:
  assumes "tasks_ok n heap tasks" and "i < length tasks" and "place t = place (tasks ! i)"
    and "int (running (tasks[i := t])) \<le> n"
    and "\<And>p x. t = Finished p x \<Longrightarrow> re_Host x = dv_host (heap ! p)"
  shows "tasks_ok n heap (tasks[i := t])"
proof -
  have e: "map (\<lambda>t. dv_host (heap ! place t)) (tasks[i := t]) = map (\<lambda>t. dv_host (heap ! place t)) tasks"
    using assms(2,3) by (simp add: map_update list_update_same_conv)
  have "place u < length heap" if "u \<in> set (tasks[i := t])" for u
    using that assms(1-3) nth_mem [OF assms(2)] set_update_subset_insert [of tasks i t]
    by (auto simp: tasks_ok_def)
  moreover have "re_Host x = dv_host (heap ! p)" if "Finished p x \<in> set (tasks[i := t])" for p x
    using that assms(1,5) set_update_subset_insert [of tasks i t] by (auto simp: tasks_ok_def)
  ultimately show ?thesis using assms(1,4) unfolding tasks_ok_def e by blast
qed

lemma device_read_host:
  assumes "device_read K c d w = Some (x, d', w')"
  shows "dv_host d' = dv_host d"
  using assms by (auto simp: device_read_def Let_def split: option.splits sum.splits prod.splits)

lemma finished_hosts:
  "finished_results tasks = Some results \<Longrightarrow> tasks_ok n heap tasks \<Longrightarrow>
    map re_Host results = map (\<lambda>t. dv_host (heap ! place t)) tasks"
proof (induction tasks arbitrary: results)
  case (Cons t tasks)
  obtain p x rest where t: "t = Finished p x" "finished_results tasks = Some rest" "results = x # rest"
    using Cons.prems(1) by (auto simp: finished_results_def split: task.splits option.splits)
  have "tasks_ok n heap tasks"
    using Cons.prems(2) t(1) by (auto simp: tasks_ok_def running_def)
  then show ?case using Cons.IH [OF t(2)] Cons.prems(2) t by (auto simp: tasks_ok_def)
qed (simp add: finished_results_def)

lemma sorted_results:
  assumes "distinct (map re_Host results)"
  shows "sorted_wrt (<) (map re_Host (sort_key re_Host results))"
proof -
  have "mset (map re_Host (sort_key re_Host results)) = mset (map re_Host results)" by simp
  then have "distinct (map re_Host (sort_key re_Host results))" using assms by (metis mset_eq_imp_distinct_iff)
  then show ?thesis by (simp add: strict_sorted_iff)
qed

lemma fleet_ok_step:
  assumes "step K s s'" and "ranges_once K" and "fleet_ok K opts s"
  shows "fleet_ok K opts s'"
  using assms(1,3)
proof cases
  case (snapshot_no_sweep r c)
  then show ?thesis
    using assms(3) refreshDevices_frame [OF snapshot_no_sweep(4)] by (auto simp: fleet_ok_def fl_sweeping_def)
next
  case (snapshot_inline_sweep r c)
  then show ?thesis
    using assms(3) refreshDevices_frame [OF snapshot_inline_sweep(4)] by (auto simp: fleet_ok_def fl_sweeping_def)
next
  case (snapshot_background_sweep r c)
  then show ?thesis
    using assms(3) refreshDevices_frame [OF snapshot_background_sweep(4)] by (auto simp: fleet_ok_def fl_sweeping_def)
next
  case (sweep_discovers co opts outcome w')
  have "list_all (device_ok K) ds" if "outcome = Inr ds" for ds
    using discover_devices_fresh [OF sweep_discovers(4) [unfolded that]] by (auto simp: list_all_iff)
  then show ?thesis
    using assms(3) sweep_discovers(1,2) by (auto simp: fleet_ok_def fl_sweeping_def split: sum.split scrape.split)
next
  case (sweep_settles outcome r' heap')
  have o: "list_all (device_ok K) ds" if "outcome = Inr ds" for ds
    using assms(3) sweep_settles(2) that by (simp add: fleet_ok_def fl_sweeping_def)
  have "registry_ok opts (fl_reg s) (fl_heap s)" "list_all (device_ok K) (fl_heap s)" using assms(3) by (simp_all add: fleet_ok_def fl_sweeping_def)
  note ok = settle_ok [OF this o sweep_settles(3)]
  show ?thesis
    using assms(3) ok sweep_settles(1,2)
    by (auto simp: fleet_ok_def fl_sweeping_def split: scrape.split intro: tasks_ok_heap)
next
  case sweep_ends
  then show ?thesis
    using assms(3) by (auto simp: fleet_ok_def fl_sweeping_def after_sweep_def split: scrape.split)
next
  case (list_devices c hosts w')
  have ok: "devices_ok (rg_devices (fl_reg s)) (fl_heap s)" "rg_opts (fl_reg s) = rg_opts (fst (NewRegistry opts))"
    using assms(3) by (auto simp: fleet_ok_def registry_ok_def)
  have m: "mset hosts = mset (map fst (rg_devices (fl_reg s)))"
    using assms(2) list_devices(3) unfolding ranges_once_def by (metis fst_conv)
  have "distinct hosts" using mset_eq_imp_distinct_iff [OF m] ok(1) by (simp add: devices_ok_def)
  then have h: "set hosts = dom (map_of (rg_devices (fl_reg s)))" "distinct hosts"
    using mset_eq_setD [OF m] by (simp_all add: dom_map_of_conv_image_fst)
  have "tasks_ok (op_Concurrency (rg_opts (fl_reg s))) (fl_heap s) (list_tasks (fl_reg s) hosts)"
    using places_of [OF ok(1), of hosts] h NewRegistry_opts [of opts] ok(2)
    by (auto simp: tasks_ok_def list_tasks_def)
  then show ?thesis using assms(3) list_devices(1) by (simp add: fleet_ok_def fl_sweeping_def)
next
  case (acquire c tasks i p)
  have ok: "tasks_ok (op_Concurrency (rg_opts (fl_reg s))) (fl_heap s) tasks"
    using assms(3) acquire(2) by (simp add: fleet_ok_def fl_sweeping_def)
  have "running (tasks[i := Running p]) = running tasks + 1"
    using running_update [OF acquire(3), of "Running p"] acquire(4) by (simp add: running_def)
  then have "tasks_ok (op_Concurrency (rg_opts (fl_reg s))) (fl_heap s) (tasks[i := Running p])"
    using acquire by (intro tasks_ok_update [OF ok]) auto
  then show ?thesis using assms(3) acquire(1) by (simp add: fleet_ok_def fl_sweeping_def)
next
  case (read_device c tasks i p x d' w')
  have ok: "tasks_ok (op_Concurrency (rg_opts (fl_reg s))) (fl_heap s) tasks"
    and r: "registry_ok opts (fl_reg s) (fl_heap s)" and d: "list_all (device_ok K) (fl_heap s)"
    using assms(3) read_device(2) by (simp_all add: fleet_ok_def fl_sweeping_def)
  have p: "p < length (fl_heap s)"
    using ok nth_mem [OF read_device(3)] unfolding read_device(4) by (auto simp: tasks_ok_def)
  note kept = device_read_keeps [OF _ read_device(5)]
  have ok': "device_ok K d'" and host: "dv_host d' = dv_host (fl_heap s ! p)"
    using kept d p by (auto simp: list_all_length)
  have le: "heap_le (fl_heap s) ((fl_heap s)[p := d'])" by (rule heap_le_update [OF p host])
  have "running (tasks[i := Finished p (result_of d' x)]) \<le> running tasks"
    using running_update [OF read_device(3), of "Finished p (result_of d' x)"] by (simp add: running_def)
  then have "int (running (tasks[i := Finished p (result_of d' x)])) \<le> op_Concurrency (rg_opts (fl_reg s))"
    using ok by (simp add: tasks_ok_def)
  then have "tasks_ok (op_Concurrency (rg_opts (fl_reg s))) ((fl_heap s)[p := d']) (tasks[i := Finished p (result_of d' x)])"
    using read_device(4) host p by (intro tasks_ok_update [OF tasks_ok_heap [OF ok le]] read_device(3)) (auto simp: result_of_def)
  moreover have "list_all (device_ok K) ((fl_heap s)[p := d'])"
    using d ok' by (auto simp: list_all_iff dest!: subsetD [OF set_update_subset_insert])
  ultimately show ?thesis
    using assms(3) read_device(1) registry_ok_heap [OF r le] by (simp add: fleet_ok_def fl_sweeping_def)
next
  case (snapshot_done c tasks results)
  have ok: "tasks_ok (op_Concurrency (rg_opts (fl_reg s))) (fl_heap s) tasks"
    using assms(3) snapshot_done(2) by (simp add: fleet_ok_def fl_sweeping_def)
  have "distinct (map re_Host results)"
    unfolding finished_hosts [OF snapshot_done(3) ok] using ok by (simp add: tasks_ok_def)
  then show ?thesis
    using assms(3) snapshot_done(1) sorted_results [of results]
    by (auto simp: fleet_ok_def fl_sweeping_def publish_def registry_ok_def)
next
  case close
  then show ?thesis
    using assms(3) by (auto simp: fleet_ok_def fl_sweeping_def registry_close_def close_all_ok split: scrape.split
        intro: tasks_ok_heap registry_ok_heap)
qed simp

lemma reachable_fleet_ok: "reachable K opts s \<Longrightarrow> ranges_once K \<Longrightarrow> fleet_ok K opts s"
  by (induction rule: reachable.induct) (auto intro: fleet_ok_initial fleet_ok_step)

subsection \<open>Every scrape ends\<close>

fun weight :: "task \<Rightarrow> nat" where
  "weight (Waiting _) = 2"
| "weight (Running _) = 1"
| "weight (Finished _ _) = 0"

definition remaining :: "task list \<Rightarrow> nat" where
  "remaining tasks = sum_list (map weight tasks)"

lemma remaining_update:
  assumes "i < length tasks" 
  shows "remaining (tasks[i := t]) + weight (tasks ! i) = remaining tasks + weight t"
proof -
  have "remaining (take i tasks @ x # drop (Suc i) tasks) = remaining (take i tasks) + weight x + remaining (drop (Suc i) tasks)" for x
    by (simp add: remaining_def)
  from this [of t] this [of "tasks ! i"] show ?thesis
    using assms by (simp add: upd_conv_take_nth_drop id_take_nth_drop [symmetric])
qed

lemma unfinished:
  assumes "finished_results tasks = None"
  shows "(\<exists>i p. i < length tasks \<and> tasks ! i = Running p) \<or>
    running tasks = 0 \<and> (\<exists>i p. i < length tasks \<and> tasks ! i = Waiting p)"
proof (rule ccontr)
  assume n: "\<not> ?thesis"
  then have nr: "\<not> (\<exists>p. Running p \<in> set tasks)" by (auto simp: in_set_conv_nth)
  then have "running tasks = 0" by (auto simp: running_def filter_empty_conv split: task.split)
  with n have nw: "\<not> (\<exists>p. Waiting p \<in> set tasks)" by (auto simp: in_set_conv_nth)
  have "\<exists>rs. finished_results tasks = Some rs"
    using nr nw
  proof (induction tasks)
    case (Cons t tasks)
    then obtain rs where "finished_results tasks = Some rs" by auto
    with Cons.prems show ?case by (cases t) (auto simp: finished_results_def)
  qed (simp add: finished_results_def)
  with assms show False by simp
qed

lemma scrape_runs:
  fixes s :: "'w fleet"
  assumes "\<And>c d (w :: 'w). device_read K c d w \<noteq> None" and "1 \<le> op_Concurrency (rg_opts (fl_reg s))"
    and "fl_scrape s = ReadAll c tasks"
  shows "\<exists>s' tasks' results. (step K)\<^sup>*\<^sup>* s s' \<and> fl_scrape s' = ReadAll c tasks'
    \<and> finished_results tasks' = Some results \<and> map place tasks' = map place tasks"
  using assms(2,3)
proof (induction "remaining tasks" arbitrary: s tasks rule: less_induct)
  case less
  show ?case
  proof (cases "finished_results tasks")
    case (Some results)
    then show ?thesis using less.prems by blast
  next
    case None
    have go: ?thesis if "step K s s1" "fl_scrape s1 = ReadAll c (tasks[i := t])" "rg_opts (fl_reg s1) = rg_opts (fl_reg s)"
        "i < length tasks" "place t = place (tasks ! i)" "weight t < weight (tasks ! i)" for s1 i t
    proof -
      have "remaining (tasks[i := t]) < remaining tasks" using remaining_update [OF that(4), of t] that(6) by simp
      moreover have "map place (tasks[i := t]) = map place tasks"
        using that(4,5) by (simp add: map_update list_update_same_conv)
      ultimately show ?thesis
        using less.hyps [OF _ _ that(2)] less.prems(1) that(1,3) converse_rtranclp_into_rtranclp [of "step K" s s1] by metis
    qed
    from unfinished [OF None] show ?thesis
    proof (elim disjE conjE exE)
      fix i p assume i: "i < length tasks" "tasks ! i = Running p"
      obtain x d' w' where r: "device_read K (with_timeout c (tcp_now (ke_tcp K) (fl_world s)) (op_Timeout (rg_opts (fl_reg s))))
          (fl_heap s ! p) (fl_world s) = Some (x, d', w')"
        using assms(1) by (metis not_None_eq prod.collapse)
      show ?thesis
        by (rule go [OF read_device [OF less.prems(2) i r], where i = i and t = "Finished p (result_of d' x)"]) (simp_all add: i)
    next
      fix i p assume r: "running tasks = 0" and i: "i < length tasks" "tasks ! i = Waiting p"
      have "int (running tasks) < op_Concurrency (rg_opts (fl_reg s))" using r less.prems(1) by simp
      from acquire [OF less.prems(2) i this] show ?thesis
        by (rule go [where i = i and t = "Running p"]) (simp_all add: i)
    qed
  qed
qed

subsection \<open>Properties\<close>

text \<open>C2. The fleet at every moment: whatever the devices answer and however scrapes, background sweeps
  and closing interleave, each entry of the device set is one device with that host, no
  configured host is ever missing, at most one sweep is under way and exactly while the registry
  says so, no more devices are read at once than configured (one, if that is less), every
  connection belongs to its device, and a published snapshot is strictly ordered by host.\<close>

theorem fleet_invariant:
  assumes "ranges_once K" and "reachable K opts s"
  shows "devices_ok (rg_devices (fl_reg s)) (fl_heap s) \<and> set (op_Hosts opts) \<subseteq> dom (map_of (rg_devices (fl_reg s)))
    \<and> rg_discovering (fl_reg s) = fl_sweeping s
    \<and> (case fl_scrape s of ReadAll c tasks \<Rightarrow> int (running tasks) \<le> max 1 (op_Concurrency opts) | _ \<Rightarrow> True)
    \<and> list_all (device_ok K) (fl_heap s)
    \<and> (case rg_snapshot (fl_reg s) of None \<Rightarrow> True | Some results \<Rightarrow> sorted_wrt (<) (map re_Host results))"
proof -
  have ok: "fleet_ok K opts s" by (rule reachable_fleet_ok [OF assms(2,1)])
  have "op_Concurrency (rg_opts (fst (NewRegistry opts))) = max 1 (op_Concurrency opts)"
    by (auto simp: NewRegistry_def Let_def split: prod.split)
  then show ?thesis using ok by (auto simp: fleet_ok_def registry_ok_def tasks_ok_def split: scrape.split)
qed

definition two_hosts :: options where
  "two_hosts = \<lparr>op_Hosts = [''b'', ''a''], op_Credentials = example_creds, op_Discovery = False, op_DiscoveryTarget = [],
     op_DiscoveryInterval = 300, op_DiscoveryTimeout = 5, op_DiscoveryPackets = 3, op_Timeout = 10, op_CacheTTL = 2,
     op_Concurrency = 0, op_KeepMissing = False\<rparr>"

lemma fridge_ranges_once: "ranges_once fridge_world"
  by (simp add: ranges_once_def fridge_world_def klap_world_def)

lemma two_hosts_reading:
  "\<exists>s. reachable fridge_world two_hosts s \<and> (\<exists>c tasks. fl_scrape s = ReadAll c tasks \<and> running tasks = 1)"
proof -
  let ?i = "initial two_hosts klap_plug" and ?c = "\<lparr>ctx_deadline = None\<rparr>"
  have r: "reachable fridge_world two_hosts ?i" by (rule start)
  have i: "fl_scrape ?i = Idle" "fl_world ?i = klap_plug" "fl_reg ?i = fst (NewRegistry two_hosts)"
    by (simp_all add: initial_def)
  have n: "rg_devices (fst (NewRegistry two_hosts)) = [(''b'', 0), (''a'', 1)]"
      "rg_snapshotTime (fst (NewRegistry two_hosts)) = None" "op_Concurrency (rg_opts (fst (NewRegistry two_hosts))) = 1"
      "op_Discovery (rg_opts (fst (NewRegistry two_hosts))) = False"
    by (simp_all add: NewRegistry_def two_hosts_def add_device_def Let_def)
  let ?s1 = "?i\<lparr>fl_scrape := Refreshed ?c\<rparr>"
  have "step fridge_world ?i (?i\<lparr>fl_scrape := Refreshed ?c, fl_reg := fl_reg ?i\<rparr>)"
    by (rule snapshot_no_sweep) (simp_all add: i n cached_def refreshDevices_def)
  from onward [OF r this] have r1: "reachable fridge_world two_hosts ?s1" by (simp add: initial_def)
  let ?t = "list_tasks (fst (NewRegistry two_hosts)) [''b'', ''a'']"
  let ?s2 = "?s1\<lparr>fl_scrape := ReadAll ?c ?t\<rparr>"
  have "step fridge_world ?s1 (?s1\<lparr>fl_scrape := ReadAll ?c (list_tasks (fl_reg ?s1) [''b'', ''a'']), fl_world := klap_plug\<rparr>)"
    by (rule list_devices) (simp_all add: i n fridge_world_def klap_world_def)
  from onward [OF r1 this] have r2: "reachable fridge_world two_hosts ?s2" by (simp add: initial_def)
  have t: "?t = [Waiting 0, Waiting 1]" by (simp add: list_tasks_def i n map_filter_simps)
  have "step fridge_world ?s2 (?s2\<lparr>fl_scrape := ReadAll ?c (?t[0 := Running 0])\<rparr>)"
    by (rule acquire) (simp_all add: t i n running_def)
  from onward [OF r2 this] show ?thesis by (intro exI conjI) (auto simp: t running_def)
qed

theorem fleet_invariant_witness:
  "\<exists>s c tasks. reachable fridge_world two_hosts s \<and> fl_scrape s = ReadAll c tasks \<and> running tasks = 1
    \<and> {''a'', ''b''} \<subseteq> dom (map_of (rg_devices (fl_reg s)))"
proof -
  obtain s c tasks where s: "reachable fridge_world two_hosts s" "fl_scrape s = ReadAll c tasks" "running tasks = 1"
    using two_hosts_reading by blast
  with fleet_invariant [OF fridge_ranges_once s(1)] show ?thesis
    by (intro exI [of _ s] exI [of _ c] exI [of _ tasks]) (auto simp: two_hosts_def)
qed

text \<open>C13. Reconciling a sweep: afterwards the device set has every host found or configured, and every
  other one only when missing devices are kept. A device already known is left exactly as it is,
  connection and old description included, even when the sweep found another description for it.\<close>

theorem reconcile_device_set:
  assumes "devices_ok (rg_devices r) heap" and "reconcile found (r, heap) = (r', heap')"
  shows "dom (map_of (rg_devices r')) = {h \<in> dom (map_of (rg_devices r)) \<union> dv_host ` set found.
          op_KeepMissing (rg_opts r) \<or> h \<in> dv_host ` set found \<or> h \<in> set (rg_manual r)}
    \<and> (\<forall>h p. map_of (rg_devices r) h = Some p \<longrightarrow> h \<in> dom (map_of (rg_devices r')) \<longrightarrow>
          map_of (rg_devices r') h = Some p \<and> heap' ! p = heap ! p)"
  using reconcile_ok(5,6) [OF assms] by blast

text \<open>A device that moved from the legacy protocol to KLAP is still described as legacy.\<close>

theorem reconcile_device_set_witness:
  "let old = discovered_device example_creds 5 (zero_discoveryResult\<lparr>dr_Host := ''h'', dr_EncryptType := ''XOR''\<rparr>);
       new = discovered_device example_creds 5 (zero_discoveryResult\<lparr>dr_Host := ''h'', dr_EncryptType := ''KLAP''\<rparr>);
       r = fst (NewRegistry two_hosts)\<lparr>rg_devices := [(''h'', 0), (''gone'', 1)], rg_manual := []\<rparr>;
       (r', heap') = reconcile [new] (r, [old, connect_device ''gone'' example_creds 5]) in
   map_of (rg_devices r') ''h'' = Some 0 \<and> map_of (rg_devices r') ''gone'' = None
   \<and> map_option dr_EncryptType (dv_discovered (heap' ! 0)) = Some ''XOR''"
proof -
  define old new where "old = discovered_device example_creds 5 (zero_discoveryResult\<lparr>dr_Host := ''h'', dr_EncryptType := ''XOR''\<rparr>)"
    and "new = discovered_device example_creds 5 (zero_discoveryResult\<lparr>dr_Host := ''h'', dr_EncryptType := ''KLAP''\<rparr>)"
  define r where "r = fst (NewRegistry two_hosts)\<lparr>rg_devices := [(''h'', 0), (''gone'', 1)], rg_manual := []\<rparr>"
  have h: "dv_host old = ''h''" "dv_host new = ''h''" "map_option dr_EncryptType (dv_discovered old) = Some ''XOR''"
    by (simp_all add: old_def new_def discovered_device_def)
  obtain r' heap' where rec: "reconcile [new] (r, [old, connect_device ''gone'' example_creds 5]) = (r', heap')" by fastforce
  have k: "rg_devices r = [(''h'', 0), (''gone'', 1)]" "rg_manual r = []" "\<not> op_KeepMissing (rg_opts r)"
    by (simp_all add: r_def NewRegistry_def two_hosts_def Let_def split: prod.split)
  have ok: "devices_ok (rg_devices r) [old, connect_device ''gone'' example_creds 5]"
    by (simp add: devices_ok_def k h)
  note c = reconcile_device_set [OF ok rec]
  have d: "dom (map_of (rg_devices r')) = {''h''}" using conjunct1 [OF c] k h by auto
  then have "''h'' \<in> dom (map_of (rg_devices r'))" by blast
  moreover have "map_of (rg_devices r) ''h'' = Some 0" by (simp add: k)
  ultimately have "map_of (rg_devices r') ''h'' = Some 0 \<and> heap' ! 0 = [old, connect_device ''gone'' example_creds 5] ! 0"
    using c by blast
  moreover have "''gone'' \<notin> dom (map_of (rg_devices r'))" unfolding d by simp
  ultimately show ?thesis
    unfolding old_def [symmetric] new_def [symmetric] r_def [symmetric] Let_def rec using h(3) by (simp add: domIff)
qed

text \<open>C9. Every scrape comes to an end: as long as a read of a device returns, from every moment of the
  reading phase the goroutines can run on, within the concurrency limit and without anyone else's
  help, until every device of the scrape has its result; the same devices it started with.\<close>

theorem scrape_completes:
  fixes s :: "'w fleet"
  assumes "ranges_once K" and "reachable K opts s" and "fl_scrape s = ReadAll c tasks"
    and "\<And>c d (w :: 'w). device_read K c d w \<noteq> None"
  shows "\<exists>s' tasks' results. (step K)\<^sup>*\<^sup>* s s' \<and> fl_scrape s' = ReadAll c tasks'
    \<and> finished_results tasks' = Some results \<and> map place tasks' = map place tasks"
proof -
  have "fleet_ok K opts s" by (rule reachable_fleet_ok [OF assms(2,1)])
  then have "1 \<le> op_Concurrency (rg_opts (fl_reg s))"
    using NewRegistry_opts [of opts] by (simp add: fleet_ok_def registry_ok_def)
  from scrape_runs [OF assms(4) this assms(3)] show ?thesis .
qed

lemma fridge_reads: "device_read fridge_world c d w \<noteq> None"
proof -
  obtain e w1 where "discoverHost (ke_udp fridge_world) c (dv_host d) (unicastDiscoveryBudget (dv_timeout d)) w = Some (Inl e, w1)"
    using quiet_discovery by blast
  then have "\<exists>x. device_connection fridge_world c d w = Some x"
    by (auto simp: device_connection_def negotiate_def split: option.split)
  then obtain a b where "device_connection fridge_world c d w = Some (a, b)" by auto
  then show ?thesis by (cases a) (simp_all add: device_read_def)
qed

theorem scrape_completes_witness:
  "\<exists>(s :: klap_device fleet) s' c tasks' results. reachable fridge_world two_hosts s \<and> (step fridge_world)\<^sup>*\<^sup>* s s'
    \<and> fl_scrape s' = ReadAll c tasks' \<and> finished_results tasks' = Some results"
proof -
  obtain s c tasks where s: "reachable fridge_world two_hosts s" "fl_scrape s = ReadAll c tasks"
    using two_hosts_reading by blast
  with scrape_completes [OF fridge_ranges_once s fridge_reads] show ?thesis by blast
qed

text \<open>Sweeps keep their distance: after a sweep, failed or not, no other is started before the
  discovery interval has passed, and only the first ever is waited for.\<close>

theorem sweeps_keep_distance:
  assumes "finish_sweep now outcome (r, heap) = (r', heap')"
    and "devices_ok (rg_devices r) heap"
  shows "(now' - now < op_DiscoveryInterval (rg_opts r) \<longrightarrow> refreshDevices now' r' = (NoSweep, r'))
    \<and> fst (refreshDevices now' r') \<noteq> InlineSweep"
proof -
  have "rg_opts r' = rg_opts r \<and> rg_lastDiscovery r' = Some now"
  proof (cases outcome)
    case (Inr found)
    obtain r1 where f: "reconcile found (r, heap) = (r1, heap')" "r' = end_sweep now r1"
      using assms(1) Inr by (auto simp: finish_sweep_def settle_def split: prod.splits)
    have "rg_opts r1 = rg_opts r" by (subst reconcile_ok(3) [OF assms(2) f(1)]) simp
    then show ?thesis by (simp add: f(2) end_sweep_def)
  qed (use assms(1) in \<open>auto simp: finish_sweep_def settle_def end_sweep_def\<close>)
  then show ?thesis by (auto simp: refreshDevices_def Let_def)
qed

theorem sweeps_keep_distance_witness:
  "let r = (fst (NewRegistry two_hosts))\<lparr>rg_opts := two_hosts\<lparr>op_Discovery := True\<rparr>\<rparr>;
       r' = fst (finish_sweep 1000 (Inl (ConnectError ProbeFailed)) (r, snd (NewRegistry two_hosts))) in
   refreshDevices 1299 r' = (NoSweep, r') \<and> fst (refreshDevices 1300 r') = BackgroundSweep"
proof -
  define r where "r = (fst (NewRegistry two_hosts))\<lparr>rg_opts := two_hosts\<lparr>op_Discovery := True\<rparr>\<rparr>"
  define r' where "r' = fst (finish_sweep 1000 (Inl (ConnectError ProbeFailed)) (r, snd (NewRegistry two_hosts)))"
  obtain heap' where f: "finish_sweep 1000 (Inl (ConnectError ProbeFailed)) (r, snd (NewRegistry two_hosts)) = (r', heap')"
    by (metis prod.collapse r'_def)
  have "devices_ok (rg_devices r) (snd (NewRegistry two_hosts))"
    using fleet_ok_initial [of fridge_world two_hosts klap_plug]
    by (simp add: fleet_ok_def registry_ok_def initial_def r_def)
  from sweeps_keep_distance [OF f this, of 1299]
  have "refreshDevices 1299 r' = (NoSweep, r')" by (simp add: r_def two_hosts_def)
  moreover have "fst (refreshDevices 1300 r') = BackgroundSweep"
    by (simp add: r'_def finish_sweep_def settle_def end_sweep_def refreshDevices_def r_def two_hosts_def Let_def)
  ultimately show ?thesis unfolding r_def [symmetric] Let_def r'_def [symmetric] by simp
qed

end
