(* ===== verification/Config.thy ===== *)
theory Config
  imports Registry
begin

text \<open>
  The device settings, \<^verbatim>\<open>config/kasa.go\<close>: the flags, the addresses they list, the checks a
  configuration has to pass, and the registry built from it once.
\<close>

text \<open>A \<^verbatim>\<open>Duration\<close> flag is its number of nanoseconds.\<close>

record DeviceFlags =
  fg_Hosts :: "string list"
  fg_Username :: string
  fg_Password :: string
  fg_Discovery :: bool
  fg_DiscoveryTarget :: string
  fg_DiscoveryInterval :: int
  fg_DiscoveryTimeout :: int
  fg_DiscoveryPackets :: int
  fg_Timeout :: int
  fg_CacheTTL :: int
  fg_Concurrency :: int
  fg_KeepMissing :: bool

datatype config_error = NoDevices | BadConcurrency | BadPackets | BadTimeout

text \<open>
  \<^verbatim>\<open>Duration.UnmarshalText\<close>, over the parser of the package \<^verbatim>\<open>str2duration\<close>: the new value, or
  nothing and the old value kept.
\<close>

definition unmarshal_duration :: "(string \<Rightarrow> int option) \<Rightarrow> byte list \<Rightarrow> int \<Rightarrow> bool \<times> int" where
  "unmarshal_duration parse_duration text d =
     (case parse_duration (string_of text) of None \<Rightarrow> (False, d) | Some v \<Rightarrow> (True, v))"

subsection \<open>Addresses\<close>

definition isHostSeparator :: "char \<Rightarrow> bool" where
  "isHostSeparator c \<longleftrightarrow> c = CHR '','' \<or> c = CHR 0x0A \<or> c = CHR 0x0D"

text \<open>
  \<^verbatim>\<open>strings.FieldsFunc\<close> for a predicate of ASCII characters, which never occur inside the
  encoding of another rune: the maximal runs of other characters.
\<close>

lemma dropWhile_shorter: "length (dropWhile P s) = Suc (length t) \<Longrightarrow> length (dropWhile Q t) < length s"
  using length_dropWhile_le [of P s] length_dropWhile_le [of Q t] by simp

function fields_func :: "(char \<Rightarrow> bool) \<Rightarrow> string \<Rightarrow> string list" where
  "fields_func P s =
     (case dropWhile P s of
        [] \<Rightarrow> []
      | c # t \<Rightarrow> (c # takeWhile (\<lambda>x. \<not> P x) t) # fields_func P (dropWhile (\<lambda>x. \<not> P x) t))"
  by pat_completeness auto
termination
  by (relation "measure (length \<circ> snd)")
    (auto dest!: arg_cong [where f = length] intro: dropWhile_shorter)

declare fields_func.simps [simp del]

text \<open>\<^verbatim>\<open>unicode.IsSpace\<close> and \<^verbatim>\<open>strings.TrimSpace\<close>\<close>

definition is_space :: "nat \<Rightarrow> bool" where
  "is_space r \<longleftrightarrow> (9 \<le> r \<and> r \<le> 13) \<or> (0x2000 \<le> r \<and> r \<le> 0x200A)
     \<or> r \<in> {0x20, 0x85, 0xA0, 0x1680, 0x2028, 0x2029, 0x202F, 0x205F, 0x3000}"

definition trim_space :: "string \<Rightarrow> string" where
  "trim_space s =
     (let spaces = (\<lambda>(r, _). is_space r) in
      concat (map snd (rev (dropWhile spaces (rev (dropWhile spaces (rune_parts s)))))))"

text \<open>One address of the inner loop; the addresses kept so far are also those seen.\<close>

definition add_host :: "string list \<Rightarrow> string \<Rightarrow> string list" where
  "add_host hosts host =
     (let host = trim_space host in if host = [] \<or> host \<in> set hosts then hosts else hosts @ [host])"

definition parseHosts :: "string list \<Rightarrow> string list" where
  "parseHosts values =
     foldl (\<lambda>hosts value. foldl add_host hosts (fields_func isHostSeparator value)) [] values"

subsection \<open>Building the registry\<close>

definition buildOptions :: "DeviceFlags \<Rightarrow> config_error + options" where
  "buildOptions f =
     (let hosts = parseHosts (fg_Hosts f) in
      if \<not> fg_Discovery f \<and> hosts = [] then Inl NoDevices
      else if fg_Concurrency f < 1 then Inl BadConcurrency
      else if fg_DiscoveryPackets f < 1 then Inl BadPackets
      else if fg_Timeout f \<le> 0 then Inl BadTimeout
      else Inr \<lparr>op_Hosts = hosts,
        op_Credentials = \<lparr>Username = fg_Username f, Password = fg_Password f\<rparr>,
        op_Discovery = fg_Discovery f, op_DiscoveryTarget = fg_DiscoveryTarget f,
        op_DiscoveryInterval = fg_DiscoveryInterval f, op_DiscoveryTimeout = fg_DiscoveryTimeout f,
        op_DiscoveryPackets = fg_DiscoveryPackets f, op_Timeout = fg_Timeout f, op_CacheTTL = fg_CacheTTL f,
        op_Concurrency = fg_Concurrency f, op_KeepMissing = fg_KeepMissing f\<rparr>)"

definition buildRegistry :: "DeviceFlags \<Rightarrow> config_error + registry \<times> heap" where
  "buildRegistry f = (case buildOptions f of Inl e \<Rightarrow> Inl e | Inr opts \<Rightarrow> Inr (NewRegistry opts))"

text \<open>
  The shared registry behind \<^verbatim>\<open>registryOnce\<close>: nothing before its first use, then the outcome of
  that use for good.
\<close>

type_synonym shared = "(config_error + registry \<times> heap) option"

definition shared_registry :: "DeviceFlags \<Rightarrow> shared \<Rightarrow> (config_error + registry \<times> heap) \<times> shared" where
  "shared_registry f once =
     (case once of
        None \<Rightarrow> let built = buildRegistry f in (built, Some built)
      | Some built \<Rightarrow> (built, once))"

subsection \<open>The addresses listed\<close>

text \<open>Keeping the first of each: the usual definition over the whole list.\<close>

definition first_of_each :: "'a list \<Rightarrow> 'a list" where
  "first_of_each xs = rev (remdups (rev xs))"

lemma first_of_each_snoc: "first_of_each (xs @ [x]) = (if x \<in> set xs then first_of_each xs else first_of_each xs @ [x])"
  by (simp add: first_of_each_def)

lemma first_of_each_props [simp]:
  "set (first_of_each xs) = set xs" "distinct (first_of_each xs)" "distinct xs \<Longrightarrow> first_of_each xs = xs"
  by (simp_all add: first_of_each_def distinct_remdups_id)

definition named_hosts :: "string list \<Rightarrow> string list" where
  "named_hosts values = filter (\<lambda>h. h \<noteq> []) (map trim_space (concat (map (fields_func isHostSeparator) values)))"

lemma foldl_add_host:
  "foldl add_host (first_of_each hs) fs = first_of_each (hs @ filter (\<lambda>h. h \<noteq> []) (map trim_space fs))"
proof (induction fs rule: rev_induct)
  case (snoc f fs)
  then show ?case
    using first_of_each_snoc [of "hs @ filter (\<lambda>h. h \<noteq> []) (map trim_space fs)" "trim_space f"]
    by (auto simp: add_host_def Let_def)
qed simp

lemma parseHosts_named: "parseHosts vs = first_of_each (named_hosts vs)"
proof -
  have "foldl (\<lambda>hosts value. foldl add_host hosts (fields_func isHostSeparator value)) (first_of_each hs) vs
      = first_of_each (hs @ named_hosts vs)" for hs vs
    by (induction vs arbitrary: hs) (simp_all add: named_hosts_def foldl_add_host)
  from this [of "[]" vs] show ?thesis by (simp add: parseHosts_def first_of_each_def)
qed

lemma fields_func_Nil [simp]: "fields_func P [] = []"
  by (simp add: fields_func.simps)

lemma fields_func_sep [simp]: "P c \<Longrightarrow> fields_func P (c # s) = fields_func P s"
  by (simp add: fields_func.simps [of P "c # s"] fields_func.simps [of P s])

lemma fields_func_field:
  assumes "h \<noteq> []" and "\<And>c. c \<in> set h \<Longrightarrow> \<not> P c" and "s = [] \<or> P (hd s)"
  shows "fields_func P (h @ s) = h # fields_func P s"
proof -
  obtain c h' where h: "h = c # h'" using assms(1) by (cases h) auto
  have t: "takeWhile (\<lambda>x. \<not> P x) (h' @ s) = h'" "dropWhile (\<lambda>x. \<not> P x) (h' @ s) = s"
    using assms(2,3) by (cases s; simp add: takeWhile_append2 dropWhile_append2 h)+
  show ?thesis
    using assms(2) by (subst fields_func.simps) (simp add: h t)
qed

lemma fields_func_no_sep:
  "h \<in> set (fields_func P s) \<Longrightarrow> c \<in> set h \<Longrightarrow> \<not> P c"
proof (induction P s rule: fields_func.induct)
  case (1 P s)
  show ?case
  proof (cases "dropWhile P s")
    case Nil
    then have "fields_func P s = []" by (subst fields_func.simps) (simp only: list.case)
    then show ?thesis using 1(2) by simp
  next
    case (Cons d t)
    have "\<not> P d" using hd_dropWhile [of P s] Cons by simp
    then show ?thesis
      using 1(2,3) 1(1) [OF Cons] by (auto simp: fields_func.simps [of P s] Cons dest: set_takeWhileD)
  qed
qed

subsection \<open>The registry built\<close>

lemma NewRegistry_devices:
  assumes "NewRegistry opts = (r, heap)"
  shows "dom (map_of (rg_devices r)) = set (op_Hosts opts)"
    and "\<forall>d \<in> set heap. dv_creds d = op_Credentials opts \<and> dv_timeout d = op_Timeout opts"
    and "rg_opts r = (if op_Concurrency opts < 1 then opts\<lparr>op_Concurrency := 1\<rparr> else opts)"
    and "rg_lastDiscovery r = None" and "\<not> rg_discovering r"
proof -
  define o1 where "o1 = (if op_Concurrency opts < 1 then opts\<lparr>op_Concurrency := 1\<rparr> else opts)"
  let ?f = "\<lambda>dh host. add_device (connect_device host (op_Credentials o1) (op_Timeout o1)) dh"
  have o1: "op_Hosts o1 = op_Hosts opts" "op_Credentials o1 = op_Credentials opts" "op_Timeout o1 = op_Timeout opts"
    by (simp_all add: o1_def)
  have f: "foldl ?f ([], []) (op_Hosts o1) = (rg_devices r, heap)"
    and r: "rg_opts r = o1" "rg_lastDiscovery r = None" "\<not> rg_discovering r"
    using assms by (auto simp: NewRegistry_def Let_def o1_def [symmetric] split: prod.splits)
  have d: "snd (foldl ?f dh hosts) = snd dh @ map (\<lambda>h. connect_device h (op_Credentials o1) (op_Timeout o1)) hosts"
    "dom (map_of (fst (foldl ?f dh hosts))) = dom (map_of (fst dh)) \<union> set hosts" for dh hosts
    by (induction hosts arbitrary: dh) (auto simp: add_device_def update_conv' split: prod.splits)
  show "dom (map_of (rg_devices r)) = set (op_Hosts opts)"
    using d(2) [of "([], [])" "op_Hosts o1", unfolded f] by (simp add: o1)
  show "\<forall>d \<in> set heap. dv_creds d = op_Credentials opts \<and> dv_timeout d = op_Timeout opts"
    using d(1) [of "([], [])" "op_Hosts o1", unfolded f] by (auto simp: o1 connect_device_def)
  show "rg_opts r = (if op_Concurrency opts < 1 then opts\<lparr>op_Concurrency := 1\<rparr> else opts)" "rg_lastDiscovery r = None" "\<not> rg_discovering r"
    using r by (simp_all add: o1_def)
qed

lemma dom_map_of_empty: "dom (map_of xs) = {} \<longleftrightarrow> xs = []"
  by (cases xs) auto

lemma set_parseHosts: "set (parseHosts vs) = set (named_hosts vs)" "distinct (parseHosts vs)"
  by (simp_all add: parseHosts_named)

subsection \<open>Properties\<close>

fun join :: "string \<Rightarrow> string list \<Rightarrow> string" where
  "join sep [] = []"
| "join sep [h] = h"
| "join sep (h # hs) = h @ sep @ join sep hs"

definition address :: "string \<Rightarrow> bool" where
  "address h \<longleftrightarrow> h \<noteq> [] \<and> list_all (\<lambda>c. \<not> isHostSeparator c) h \<and> trim_space h = h"

definition separator :: "string \<Rightarrow> bool" where
  "separator sep \<longleftrightarrow> sep \<noteq> [] \<and> list_all isHostSeparator sep"

lemma fields_func_seps: "list_all P sep \<Longrightarrow> fields_func P (sep @ s) = fields_func P s"
  by (induction sep) simp_all

lemma fields_func_join:
  "list_all address hs \<Longrightarrow> separator sep \<Longrightarrow> fields_func isHostSeparator (join sep hs) = hs"
proof (induction sep hs rule: join.induct)
  case (2 sep h)
  then show ?case
    using fields_func_field [of h isHostSeparator "[]"] by (auto simp: address_def list_all_iff)
next
  case (3 sep h h' hs)
  have "fields_func isHostSeparator (h @ sep @ join sep (h' # hs)) = h # fields_func isHostSeparator (sep @ join sep (h' # hs))"
    by (rule fields_func_field)
      (use "3.prems" in \<open>auto simp: address_def separator_def list_all_iff hd_append\<close>)
  with 3 show ?case by (simp add: fields_func_seps separator_def)
qed simp

lemma named_hosts_joined:
  assumes "list_all (\<lambda>(sep, hs). separator sep \<and> list_all address hs) groups"
  shows "named_hosts (map (\<lambda>(sep, hs). join sep hs) groups) = concat (map snd groups)"
proof -
  have "map trim_space hs = hs" "filter (\<lambda>h. h \<noteq> []) hs = hs" if "list_all address hs" for hs
    using that by (auto simp: list_all_iff address_def intro: map_idI)
  then show ?thesis
    using assms by (induction groups) (auto simp: named_hosts_def fields_func_join)
qed

text \<open>Printable ASCII, which has no space to trim.\<close>

lemma trim_ascii:
  assumes "\<forall>c \<in> set s. 0x20 < (of_char c :: nat) \<and> (of_char c :: nat) < 0x80"
  shows "trim_space s = s"
proof -
  have p: "rune_parts s = map (\<lambda>c. (of_char c, [c])) s"
    using assms by (induction s) (simp_all add: decode_rune_def)
  have n: "\<forall>x \<in> set (rune_parts s). \<not> (case x of (r, _) \<Rightarrow> is_space r)"
    using assms by (auto simp: p is_space_def)
  have d: "dropWhile P xs = xs" if "\<forall>x \<in> set xs. \<not> P x" for P and xs :: "(nat \<times> string) list"
    using that by (cases xs) auto
  have "concat (map snd (map (\<lambda>c. (of_char c :: nat, [c])) s)) = s" by (induction s) simp_all
  then show ?thesis
    unfolding trim_space_def Let_def
    by (subst d, use n in simp, subst d, use n in simp, simp add: p comp_def)
qed

text \<open>C39. However the addresses are spelt: addresses joined by commas, by line breaks or by several of
  either, in one value of the flag or spread over many, are read back in their order, each once.\<close>

theorem addresses_understood:
  assumes "list_all (\<lambda>(sep, hs). separator sep \<and> list_all address hs) groups"
  shows "parseHosts (map (\<lambda>(sep, hs). join sep hs) groups) = first_of_each (concat (map snd groups))"
  by (simp add: parseHosts_named named_hosts_joined [OF assms])

theorem addresses_understood_witness:
  "parseHosts [''10.0.0.2,10.0.0.3'', ''plug'' @ [CHR 0x0D, CHR 0x0A] @ ''10.0.0.2''] = [''10.0.0.2'', ''10.0.0.3'', ''plug'']"
proof -
  let ?g = "[('','', [''10.0.0.2'', ''10.0.0.3'']), ([CHR 0x0D, CHR 0x0A], [''plug'', ''10.0.0.2''])]"
  have "list_all (\<lambda>(sep, hs). separator sep \<and> list_all address hs) ?g"
    by (simp add: address_def separator_def trim_ascii isHostSeparator_def)
  from addresses_understood [OF this] show ?thesis by (simp add: first_of_each_def)
qed

text \<open>C40. Which configurations are refused, and what the others give: a configuration is rejected
  exactly when it names nothing to poll or a number that cannot work; otherwise the registry has
  one device for each address with the login and the timeout configured, keeps the configured
  concurrency, has a positive budget to ask a device what it speaks, and, with discovery on,
  waits for a first sweep.\<close>

theorem configuration_checked:
  "case buildRegistry f of
     Inl e \<Rightarrow> (case e of NoDevices \<Rightarrow> fg_Discovery f = False \<and> named_hosts (fg_Hosts f) = []
       | BadConcurrency \<Rightarrow> fg_Concurrency f < 1 | BadPackets \<Rightarrow> fg_DiscoveryPackets f < 1
       | BadTimeout \<Rightarrow> fg_Timeout f \<le> 0)
   | Inr (r, heap) \<Rightarrow> (if rg_devices r = [] then fg_Discovery f else True) \<and> 1 \<le> fg_DiscoveryPackets f
       \<and> dom (map_of (rg_devices r)) = set (named_hosts (fg_Hosts f))
       \<and> list_all (\<lambda>d. dv_creds d = \<lparr>Username = fg_Username f, Password = fg_Password f\<rparr>
            \<and> dv_timeout d = fg_Timeout f) heap
       \<and> op_Concurrency (rg_opts r) = fg_Concurrency f \<and> 1 \<le> fg_Concurrency f
       \<and> 0 < unicastDiscoveryBudget (fg_Timeout f)
       \<and> fst (refreshDevices now r) = (if fg_Discovery f then InlineSweep else NoSweep)"
proof (cases "buildOptions f")
  case (Inl e)
  then show ?thesis
    using set_parseHosts(1) [of "fg_Hosts f"]
    by (auto simp: buildRegistry_def buildOptions_def Let_def split: if_splits)
next
  case (Inr opts)
  obtain r heap where n: "NewRegistry opts = (r, heap)" by fastforce
  note d = NewRegistry_devices [OF n]
  have o: "op_Hosts opts = parseHosts (fg_Hosts f)" "op_Credentials opts = \<lparr>Username = fg_Username f, Password = fg_Password f\<rparr>"
      "op_Timeout opts = fg_Timeout f" "op_Concurrency opts = fg_Concurrency f" "op_Discovery opts = fg_Discovery f"
      "1 \<le> fg_Concurrency f" "0 < fg_Timeout f" "1 \<le> fg_DiscoveryPackets f" "fg_Discovery f \<or> parseHosts (fg_Hosts f) \<noteq> []"
    using Inr by (auto simp: buildOptions_def Let_def split: if_splits)
  have "rg_opts r = opts" using d(3) o by simp
  moreover have "fg_Discovery f \<or> rg_devices r \<noteq> []"
    using o(9) d(1) dom_map_of_empty [of "rg_devices r"] by (auto simp: o(1))
  moreover have "0 < unicastDiscoveryBudget (fg_Timeout f)"
    using o(7) by (simp add: unicastDiscoveryBudget_def Let_def milliseconds_def)
  ultimately show ?thesis
    using d(1,2,4,5) o by (auto simp: buildRegistry_def Inr n set_parseHosts refreshDevices_def Let_def list_all_iff)
qed

end
