(* ===== verification/Metrics.thy ===== *)
theory Metrics
  imports Config
begin

text \<open>
  What the collectors share, \<^verbatim>\<open>collector/metrics.go\<close>: descriptors, the snapshot they all read, the
  energy and light metrics, and the emission of optional values. A descriptor holds the arguments
  \<^verbatim>\<open>prometheus.NewDesc\<close> and \<^verbatim>\<open>prometheus.BuildFQName\<close> are called with, and a metric those of
  \<^verbatim>\<open>prometheus.MustNewConstMetric\<close>; help texts are not modelled. What is sent on the channel is the
  list of metrics in the order of the sends.
\<close>

record desc =
  ds_subsystem :: string
  ds_name :: string
  ds_labels :: "string list"

datatype value_type = GaugeValue | CounterValue

record metric =
  mt_desc :: desc
  mt_type :: value_type
  mt_value :: float64
  mt_labels :: "string list"

definition new_desc :: "string \<Rightarrow> string \<Rightarrow> string list \<Rightarrow> desc" where
  "new_desc subsystem name labels = \<lparr>ds_subsystem = subsystem, ds_name = name, ds_labels = labels\<rparr>"

definition deviceLabels :: "string list" where
  "deviceLabels = [''host'', ''alias'']"

definition socketLabels :: "string list" where
  "socketLabels = deviceLabels @ [''socket'', ''socket_alias'']"

subsection \<open>The snapshot\<close>

datatype collect_error = RegistryFailed config_error | NoData

text \<open>The registry, if it can be built, and then the results of the scrape.\<close>

definition snapshot ::
  "config_error + registry \<times> heap \<Rightarrow> scrape_result list \<Rightarrow> collect_error + scrape_result list" where
  "snapshot built results = (case built of Inl e \<Rightarrow> Inl (RegistryFailed e) | Inr _ \<Rightarrow> Inr results)"

fun readingsOfType :: "scrape_result list \<Rightarrow> DeviceType \<Rightarrow> Reading list \<times> bool" where
  "readingsOfType [] deviceType = ([], False)"
| "readingsOfType (result # results) deviceType =
     (case readingsOfType results deviceType of (readings, _) \<Rightarrow>
      case re_Reading result of
        None \<Rightarrow> (readings, True)
      | Some r \<Rightarrow> (if rd_Type r = deviceType then r # readings else readings, True))"

definition aliasOf :: "Reading \<Rightarrow> string" where
  "aliasOf r = (if rd_Alias r \<noteq> [] then rd_Alias r else rd_Host r)"

definition labelsFor :: "Reading \<Rightarrow> string list" where
  "labelsFor r = [rd_Host r, aliasOf r]"

subsection \<open>Emission\<close>

text \<open>A nil descriptor or a nil value sends nothing.\<close>

definition emit_value :: "value_type \<Rightarrow> desc option \<Rightarrow> float64 option \<Rightarrow> string list \<Rightarrow> metric list" where
  "emit_value t d v labels =
     (case (d, v) of
        (Some d, Some v) \<Rightarrow> [\<lparr>mt_desc = d, mt_type = t, mt_value = v, mt_labels = labels\<rparr>]
      | _ \<Rightarrow> [])"

definition emitGauge :: "desc option \<Rightarrow> float64 option \<Rightarrow> string list \<Rightarrow> metric list" where
  "emitGauge = emit_value GaugeValue"

definition emitCounter :: "desc option \<Rightarrow> float64 option \<Rightarrow> string list \<Rightarrow> metric list" where
  "emitCounter = emit_value CounterValue"

definition boolValue :: "bool option \<Rightarrow> float64 option" where
  "boolValue v = (case v of None \<Rightarrow> None | Some b \<Rightarrow> Some (if b then fint 1 else fint 0))"

text \<open>\<^verbatim>\<open>MustNewConstMetric\<close> with a gauge value that is always there.\<close>

definition gauge :: "desc \<Rightarrow> float64 \<Rightarrow> string list \<Rightarrow> metric" where
  "gauge d v labels = \<lparr>mt_desc = d, mt_type = GaugeValue, mt_value = v, mt_labels = labels\<rparr>"

subsection \<open>Energy and light\<close>

record energyMetrics =
  em_power :: "desc option"
  em_voltage :: "desc option"
  em_current :: "desc option"
  em_energy :: "desc option"

definition newEnergyMetrics :: energyMetrics where
  "newEnergyMetrics =
     \<lparr>em_power = Some (new_desc [] ''power_watts'' deviceLabels),
      em_voltage = Some (new_desc [] ''voltage_volts'' deviceLabels),
      em_current = Some (new_desc [] ''current_amperes'' deviceLabels),
      em_energy = Some (new_desc [] ''energy_kilowatt_hours_total'' deviceLabels)\<rparr>"

definition emit_energy :: "energyMetrics \<Rightarrow> Energy option \<Rightarrow> string list \<Rightarrow> metric list" where
  "emit_energy m energy labels =
     (case energy of None \<Rightarrow> []
      | Some e \<Rightarrow> emitGauge (em_power m) (PowerWatts e) labels @ emitGauge (em_voltage m) (VoltageVolts e) labels
          @ emitGauge (em_current m) (CurrentAmperes e) labels @ emitCounter (em_energy m) (TotalKWh e) labels)"

record lightMetrics =
  lm_on :: "desc option"
  lm_brightness :: "desc option"
  lm_colorTemp :: "desc option"
  lm_hue :: "desc option"
  lm_saturation :: "desc option"

definition newLightMetrics :: "string \<Rightarrow> bool \<Rightarrow> lightMetrics" where
  "newLightMetrics subsystem withColor =
     (let m = \<lparr>lm_on = Some (new_desc subsystem ''on'' deviceLabels),
               lm_brightness = Some (new_desc subsystem ''brightness_percent'' deviceLabels),
               lm_colorTemp = None, lm_hue = None, lm_saturation = None\<rparr> in
      if \<not> withColor then m
      else m\<lparr>lm_colorTemp := Some (new_desc subsystem ''color_temperature_kelvin'' deviceLabels),
             lm_hue := Some (new_desc subsystem ''hue_degrees'' deviceLabels),
             lm_saturation := Some (new_desc subsystem ''saturation_percent'' deviceLabels)\<rparr>)"

definition emit_light :: "lightMetrics \<Rightarrow> Reading \<Rightarrow> metric list" where
  "emit_light m r =
     (let labels = labelsFor r in
      emitGauge (lm_on m) (boolValue (rd_On r)) labels @ emitGauge (lm_brightness m) (rd_Brightness r) labels
      @ emitGauge (lm_colorTemp m) (rd_ColorTempKelvin r) labels @ emitGauge (lm_hue m) (rd_Hue r) labels
      @ emitGauge (lm_saturation m) (rd_Saturation r) labels)"

subsection \<open>One kind of device\<close>

text \<open>
  The \<^verbatim>\<open>Update\<close> the collectors of the device kinds have in common, over what they send for one
  reading.
\<close>

definition kind_update ::
  "DeviceType \<Rightarrow> (Reading \<Rightarrow> metric list) \<Rightarrow> collect_error + scrape_result list \<Rightarrow> collect_error + metric list" where
  "kind_update kind emit snap =
     (case snap of
        Inl e \<Rightarrow> Inl e
      | Inr results \<Rightarrow>
          (case readingsOfType results kind of (readings, anyDevices) \<Rightarrow>
           if \<not> anyDevices then Inl NoData else Inr (concat (map emit readings))))"

text \<open>
  A time series of Prometheus is told apart by its metric name and its label values; the name is
  that of the descriptor's subsystem and name.
\<close>

definition metric_name :: "metric \<Rightarrow> string \<times> string" where
  "metric_name m = (ds_subsystem (mt_desc m), ds_name (mt_desc m))"

definition series :: "metric \<Rightarrow> (string \<times> string) \<times> string list" where
  "series m = (metric_name m, mt_labels m)"

text \<open>
  What \<^verbatim>\<open>MustNewConstMetric\<close> requires, lest it panic: one value for each label, and every value
  valid UTF-8.
\<close>

definition metric_ok :: "metric \<Rightarrow> bool" where
  "metric_ok m \<longleftrightarrow> length (mt_labels m) = length (ds_labels (mt_desc m)) \<and> list_all valid_utf8 (mt_labels m)"

text \<open>The texts of a reading that become labels.\<close>

definition socket_text :: "Socket \<Rightarrow> bool" where
  "socket_text s \<longleftrightarrow> valid_utf8 (so_ID s) \<and> valid_utf8 (so_Alias s)"

definition child_text :: "Child \<Rightarrow> bool" where
  "child_text c \<longleftrightarrow> valid_utf8 (ch_ID c) \<and> valid_utf8 (ch_Alias c) \<and> valid_utf8 (ch_Model c) \<and> valid_utf8 (ch_Category c)"

definition reading_text :: "Reading \<Rightarrow> bool" where
  "reading_text r \<longleftrightarrow>
     list_all valid_utf8 [rd_Host r, rd_Alias r, rd_Model r, rd_DeviceID r, rd_HardwareVersion r, rd_FirmwareVersion r, rd_MAC r]
     \<and> list_all socket_text (rd_Sockets r) \<and> list_all child_text (rd_Children r)"

text \<open>Outlets and hub children told apart by their identifiers.\<close>

definition parts_distinct :: "Reading \<Rightarrow> bool" where
  "parts_distinct r \<longleftrightarrow> distinct (map so_ID (rd_Sockets r)) \<and> distinct (map ch_ID (rd_Children r))"

text \<open>What the collector of one kind has to send for a reading.\<close>

locale kind_collector =
  fixes kind :: DeviceType and emit :: "Reading \<Rightarrow> metric list" and names :: "(string \<times> string) list"
  assumes labels_device: "m \<in> set (emit r) \<Longrightarrow> take 2 (mt_labels m) = labelsFor r"
    and emit_ok: "reading_text r \<Longrightarrow> m \<in> set (emit r) \<Longrightarrow> metric_ok m"
    and emit_distinct: "parts_distinct r \<Longrightarrow> distinct (map series (emit r))"
    and emit_names: "m \<in> set (emit r) \<Longrightarrow> metric_name m \<in> set names"

subsection \<open>Facts of the emissions\<close>

text \<open>
  Metrics sent under the same labels, each under another name of a list, with descriptors of that
  many labels.
\<close>

definition uniform :: "string list \<Rightarrow> (string \<times> string) list \<Rightarrow> metric list \<Rightarrow> bool" where
  "uniform labels names ms \<longleftrightarrow>
     list_all (\<lambda>m. mt_labels m = labels \<and> length (ds_labels (mt_desc m)) = length labels) ms
     \<and> distinct (map metric_name ms) \<and> set (map metric_name ms) \<subseteq> set names"

lemma uniform_Nil [simp]: "uniform labels names []"
  by (simp add: uniform_def)

lemma uniform_append:
  "uniform labels a xs \<Longrightarrow> uniform labels b ys \<Longrightarrow> set a \<inter> set b = {} \<Longrightarrow> uniform labels (a @ b) (xs @ ys)"
  by (auto simp: uniform_def)

lemma uniform_mono: "uniform labels a xs \<Longrightarrow> set a \<subseteq> set b \<Longrightarrow> uniform labels b xs"
  by (auto simp: uniform_def)

lemma series_name: "fst (series m) = metric_name m" "snd (series m) = mt_labels m"
  by (simp_all add: series_def)

lemma uniformD:
  assumes "uniform labels names ms"
  shows "m \<in> set ms \<Longrightarrow> mt_labels m = labels"
    and "m \<in> set ms \<Longrightarrow> metric_name m \<in> set names"
    and "m \<in> set ms \<Longrightarrow> list_all valid_utf8 labels \<Longrightarrow> metric_ok m"
    and "distinct (map series ms)"
proof -
  show "m \<in> set ms \<Longrightarrow> mt_labels m = labels" "m \<in> set ms \<Longrightarrow> metric_name m \<in> set names"
    "m \<in> set ms \<Longrightarrow> list_all valid_utf8 labels \<Longrightarrow> metric_ok m"
    using assms by (auto simp: uniform_def list_all_iff metric_ok_def)
  have "distinct (map fst (map series ms))" using assms by (simp add: uniform_def comp_def series_name)
  then show "distinct (map series ms)" by (simp only: distinct_map [of fst])
qed

lemma new_desc_simps [simp]:
  "ds_subsystem (new_desc s n ls) = s" "ds_name (new_desc s n ls) = n" "ds_labels (new_desc s n ls) = ls"
  by (simp_all add: new_desc_def)

lemma gauge_simps [simp]:
  "mt_desc (gauge d v ls) = d" "mt_labels (gauge d v ls) = ls" "metric_name (gauge d v ls) = (ds_subsystem d, ds_name d)"
  by (simp_all add: gauge_def metric_name_def)

lemma uniform_emit:
  "length ls = length labels \<Longrightarrow> uniform labels [(s, n)] (emit_value t (Some (new_desc s n ls)) v labels)"
  by (auto simp: uniform_def emit_value_def metric_name_def split: option.split)

lemma uniform_nil_desc: "uniform labels [] (emit_value t None v labels)"
  by (simp add: uniform_def emit_value_def)

lemma uniform_gauge:
  "length ls = length labels \<Longrightarrow> uniform labels [(s, n)] [gauge (new_desc s n ls) v labels]"
  by (simp add: uniform_def)

lemma uniform_Cons:
  "uniform labels [a] xs \<Longrightarrow> uniform labels b ys \<Longrightarrow> a \<notin> set b \<Longrightarrow> uniform labels (a # b) (xs @ ys)"
  using uniform_append [of labels "[a]" xs b ys] by simp

lemmas uniform_intros = uniform_Cons uniform_emit uniform_gauge uniform_nil_desc uniform_Nil

text \<open>Metrics of different parts, each known by its labels.\<close>

lemma distinct_parts:
  assumes "distinct (map key xs)" and "\<And>x. x \<in> set xs \<Longrightarrow> distinct (map series (f x))"
    and "\<And>x m. x \<in> set xs \<Longrightarrow> m \<in> set (f x) \<Longrightarrow> k (series m) = key x"
  shows "distinct (map series (concat (map f xs)))"
  using assms
proof (induction xs)
  case (Cons x xs)
  have "series m \<noteq> series m'" if m: "m \<in> set (f x)" "m' \<in> set (concat (map f xs))" for m m'
  proof
    assume "series m = series m'"
    then have "key x = k (series m')" using Cons.prems(3) [of x m] m(1) by simp
    moreover obtain y where "y \<in> set xs" "m' \<in> set (f y)" using m(2) by auto
    ultimately show False using Cons.prems(1,3) by (auto simp: image_iff)
  qed
  then have "set (map series (f x)) \<inter> set (map series (concat (map f xs))) = {}"
    unfolding disjoint_iff set_map image_iff by metis
  then show ?case using Cons by simp
qed simp

lemma labelsFor_text [simp]: "reading_text r \<Longrightarrow> list_all valid_utf8 (labelsFor r)"
  by (simp add: reading_text_def labelsFor_def aliasOf_def)

lemma length_labelsFor [simp]: "length (labelsFor r) = 2" "take 2 (labelsFor r @ xs) = labelsFor r" "take 2 (labelsFor r) = labelsFor r"
  by (simp_all add: labelsFor_def)

lemma length_deviceLabels [simp]: "length deviceLabels = 2" "length socketLabels = 4"
  by (simp_all add: deviceLabels_def socketLabels_def)

text \<open>The metric groups, for any labels of the right number.\<close>

lemmas emit_defs = emitGauge_def emitCounter_def

lemma energy_descs [simp]:
  "em_power newEnergyMetrics = Some (new_desc [] ''power_watts'' deviceLabels)"
  "em_voltage newEnergyMetrics = Some (new_desc [] ''voltage_volts'' deviceLabels)"
  "em_current newEnergyMetrics = Some (new_desc [] ''current_amperes'' deviceLabels)"
  "em_energy newEnergyMetrics = Some (new_desc [] ''energy_kilowatt_hours_total'' deviceLabels)"
  by (simp_all add: newEnergyMetrics_def)

definition energy_names :: "(string \<times> string) list" where
  "energy_names = [([], ''power_watts''), ([], ''voltage_volts''), ([], ''current_amperes''), ([], ''energy_kilowatt_hours_total'')]"

lemma uniform_energy:
  assumes "length labels = 2" shows "uniform labels energy_names (emit_energy newEnergyMetrics energy labels)"
proof (cases energy)
  case (Some e)
  show ?thesis
    unfolding emit_energy_def energy_names_def emit_defs Some option.case energy_descs
    by (intro uniform_intros) (simp_all add: assms)
qed (simp add: emit_energy_def)

definition light_names :: "string \<Rightarrow> bool \<Rightarrow> (string \<times> string) list" where
  "light_names subsystem withColor =
     [(subsystem, ''on''), (subsystem, ''brightness_percent'')]
     @ (if withColor then [(subsystem, ''color_temperature_kelvin''), (subsystem, ''hue_degrees''), (subsystem, ''saturation_percent'')]
        else [])"

lemma uniform_light: "uniform (labelsFor r) (light_names subsystem withColor) (emit_light (newLightMetrics subsystem withColor) r)"
proof (cases withColor)
  case True
  show ?thesis
    by (simp add: emit_light_def newLightMetrics_def light_names_def emit_defs Let_def True) (intro uniform_intros; simp)
next
  case False
  show ?thesis
    by (simp add: emit_light_def newLightMetrics_def light_names_def emit_defs Let_def False emit_value_def [of _ None])
      (intro uniform_intros; simp)
qed

subsection \<open>What an update sends\<close>

definition readings_of :: "scrape_result list \<Rightarrow> DeviceType \<Rightarrow> Reading list" where
  "readings_of results kind = filter (\<lambda>r. rd_Type r = kind) (List.map_filter re_Reading results)"

lemma readingsOfType_eq: "readingsOfType results kind = (readings_of results kind, results \<noteq> [])"
  by (induction results) (auto simp: readings_of_def map_filter_simps split: option.split)

lemma in_readings_of:
  "r \<in> set (readings_of results kind) \<longleftrightarrow> rd_Type r = kind \<and> (\<exists>x \<in> set results. re_Reading x = Some r)"
  by (induction results) (auto simp: readings_of_def map_filter_simps split: option.splits)

lemma kind_update_eq:
  "kind_update kind emit snap =
     (case snap of Inl e \<Rightarrow> Inl e
      | Inr results \<Rightarrow> if results = [] then Inl NoData else Inr (concat (map emit (readings_of results kind))))"
  by (simp add: kind_update_def readingsOfType_eq split: sum.split)

text \<open>A snapshot: one result per host, and a reading is of the host of its result.\<close>

definition snapshot_ok :: "scrape_result list \<Rightarrow> bool" where
  "snapshot_ok results \<longleftrightarrow> distinct (map re_Host results)
     \<and> list_all (\<lambda>x. case re_Reading x of None \<Rightarrow> True | Some r \<Rightarrow> rd_Host r = re_Host x) results"

lemma snapshot_reading: "snapshot_ok results \<Longrightarrow> x \<in> set results \<Longrightarrow> re_Reading x = Some r \<Longrightarrow> rd_Host r = re_Host x"
  by (fastforce simp: snapshot_ok_def list_all_iff split: option.splits)

lemma snapshot_unique:
  "snapshot_ok results \<Longrightarrow> x \<in> set results \<Longrightarrow> y \<in> set results \<Longrightarrow> re_Host x = re_Host y \<Longrightarrow> x = y"
  by (auto simp: snapshot_ok_def distinct_map dest: inj_onD)

lemma snapshot_same_reading:
  assumes "snapshot_ok results" and "r \<in> set (readings_of results k)" and "r' \<in> set (readings_of results k')"
    and "rd_Host r = rd_Host r'"
  shows "r = r'"
proof -
  obtain x y where "x \<in> set results" "re_Reading x = Some r" "y \<in> set results" "re_Reading y = Some r'"
    using assms(2,3) by (auto simp: in_readings_of)
  moreover from this have "re_Host x = re_Host y" using assms(4) snapshot_reading [OF assms(1)] by metis
  ultimately show ?thesis using snapshot_unique [OF assms(1), of x y] by simp
qed

lemma distinct_readings: "snapshot_ok results \<Longrightarrow> distinct (map rd_Host (readings_of results kind))"
proof (induction results)
  case (Cons x xs)
  have ok: "snapshot_ok xs" and h: "\<forall>y \<in> set xs. re_Host y \<noteq> re_Host x"
    using Cons.prems by (auto simp: snapshot_ok_def image_iff)
  have "rd_Host r \<noteq> re_Host x" if "r \<in> set (readings_of xs kind)" for r
    using that h snapshot_reading [OF ok] by (auto simp: in_readings_of)
  moreover have "readings_of (x # xs) kind = (case re_Reading x of
      Some r \<Rightarrow> if rd_Type r = kind then r # readings_of xs kind else readings_of xs kind | None \<Rightarrow> readings_of xs kind)"
    by (simp add: readings_of_def map_filter_simps split: option.split)
  moreover have "rd_Host r = re_Host x" if "re_Reading x = Some r" for r
    using snapshot_reading [OF Cons.prems] that by simp
  ultimately show ?case
    using Cons.IH [OF ok] by (cases "re_Reading x") (auto simp: image_iff dest: sym)
qed (simp add: readings_of_def map_filter_simps)

context kind_collector begin

lemma update_sent:
  assumes "kind_update kind emit (Inr results) = Inr ms" and "m \<in> set ms"
  obtains r where "r \<in> set (readings_of results kind)" and "m \<in> set (emit r)"
  using assms by (auto simp: kind_update_eq split: if_splits)

lemma update_labels:
  assumes "kind_update kind emit (Inr results) = Inr ms" and "m \<in> set ms"
  shows "\<exists>r \<in> set (readings_of results kind). take 2 (mt_labels m) = labelsFor r"
  using update_sent [OF assms] labels_device by metis

lemma update_names:
  assumes "kind_update kind emit (Inr results) = Inr ms" and "m \<in> set ms"
  shows "metric_name m \<in> set names"
  using update_sent [OF assms] emit_names by metis

lemma update_ok:
  assumes "kind_update kind emit (Inr results) = Inr ms" and "m \<in> set ms"
    and "\<And>x r. x \<in> set results \<Longrightarrow> re_Reading x = Some r \<Longrightarrow> reading_text r"
  shows "metric_ok m"
  using update_sent [OF assms(1,2)] emit_ok assms(3) by (metis in_readings_of)

lemma update_distinct:
  assumes "kind_update kind emit (Inr results) = Inr ms" and "snapshot_ok results"
    and "\<And>x r. x \<in> set results \<Longrightarrow> re_Reading x = Some r \<Longrightarrow> parts_distinct r"
  shows "distinct (map series ms)"
proof -
  have "list_all parts_distinct (readings_of results kind)"
    using assms(3) by (auto simp: list_all_iff in_readings_of)
  note parts = this
  have "distinct (map series (concat (map emit (readings_of results kind))))"
  proof (rule distinct_parts [where key = rd_Host and k = "hd \<circ> snd", OF distinct_readings [OF assms(2)]])
    fix r m assume "m \<in> set (emit r)"
    then show "(hd \<circ> snd) (series m) = rd_Host r"
      unfolding comp_def series_name using labels_device [of m r] by (metis hd_take labelsFor_def list.sel(1) zero_less_numeral)
  qed (use emit_distinct parts in \<open>auto simp: list_all_iff\<close>)
  then show ?thesis using assms(1) by (auto simp: kind_update_eq split: if_splits)
qed

end

end
