(* ===== verification/Kinds.thy ===== *)
theory Kinds
  imports Metrics
begin

text \<open>
  The collectors of \<^verbatim>\<open>collector/device.go\<close>, \<^verbatim>\<open>plug.go\<close>, \<^verbatim>\<open>strip.go\<close>, \<^verbatim>\<open>bulb.go\<close>, \<^verbatim>\<open>lightstrip.go\<close>,
  \<^verbatim>\<open>dimmer.go\<close>, \<^verbatim>\<open>wallswitch.go\<close> and \<^verbatim>\<open>hub.go\<close>: one record of descriptors each, built by its
  constructor, what it sends for one reading, and its update.
\<close>

subsection \<open>Plugs and wall switches\<close>

record plugCollector =
  pc_on :: desc
  pc_energy :: energyMetrics

definition NewPlugCollector :: plugCollector where
  "NewPlugCollector = \<lparr>pc_on = new_desc ''plug'' ''on'' deviceLabels, pc_energy = newEnergyMetrics\<rparr>"

definition plug_emit :: "plugCollector \<Rightarrow> Reading \<Rightarrow> metric list" where
  "plug_emit c r =
     (let labels = labelsFor r in
      emitGauge (Some (pc_on c)) (boolValue (rd_On r)) labels @ emit_energy (pc_energy c) (rd_Energy r) labels)"

definition plug_update :: "plugCollector \<Rightarrow> collect_error + scrape_result list \<Rightarrow> collect_error + metric list" where
  "plug_update c = kind_update TypePlug (plug_emit c)"

record wallSwitchCollector =
  wc_on :: desc
  wc_energy :: energyMetrics

definition NewWallSwitchCollector :: wallSwitchCollector where
  "NewWallSwitchCollector =
     \<lparr>wc_on = new_desc ''wallswitch'' ''on'' deviceLabels, wc_energy = newEnergyMetrics\<rparr>"

definition wallSwitch_emit :: "wallSwitchCollector \<Rightarrow> Reading \<Rightarrow> metric list" where
  "wallSwitch_emit c r =
     (let labels = labelsFor r in
      emitGauge (Some (wc_on c)) (boolValue (rd_On r)) labels @ emit_energy (wc_energy c) (rd_Energy r) labels)"

definition wallSwitch_update ::
  "wallSwitchCollector \<Rightarrow> collect_error + scrape_result list \<Rightarrow> collect_error + metric list" where
  "wallSwitch_update c = kind_update TypeWallSwitch (wallSwitch_emit c)"

subsection \<open>Lights\<close>

record bulbCollector =
  bc_light :: lightMetrics
  bc_energy :: energyMetrics

definition NewBulbCollector :: bulbCollector where
  "NewBulbCollector = \<lparr>bc_light = newLightMetrics ''bulb'' True, bc_energy = newEnergyMetrics\<rparr>"

definition bulb_emit :: "bulbCollector \<Rightarrow> Reading \<Rightarrow> metric list" where
  "bulb_emit c r = emit_light (bc_light c) r @ emit_energy (bc_energy c) (rd_Energy r) (labelsFor r)"

definition bulb_update :: "bulbCollector \<Rightarrow> collect_error + scrape_result list \<Rightarrow> collect_error + metric list" where
  "bulb_update c = kind_update TypeBulb (bulb_emit c)"

record dimmerCollector =
  dc_light :: lightMetrics
  dc_energy :: energyMetrics

definition NewDimmerCollector :: dimmerCollector where
  "NewDimmerCollector = \<lparr>dc_light = newLightMetrics ''dimmer'' False, dc_energy = newEnergyMetrics\<rparr>"

definition dimmer_emit :: "dimmerCollector \<Rightarrow> Reading \<Rightarrow> metric list" where
  "dimmer_emit c r = emit_light (dc_light c) r @ emit_energy (dc_energy c) (rd_Energy r) (labelsFor r)"

definition dimmer_update :: "dimmerCollector \<Rightarrow> collect_error + scrape_result list \<Rightarrow> collect_error + metric list" where
  "dimmer_update c = kind_update TypeDimmer (dimmer_emit c)"

record lightStripCollector =
  lc_light :: lightMetrics
  lc_length :: desc
  lc_energy :: energyMetrics

definition NewLightStripCollector :: lightStripCollector where
  "NewLightStripCollector =
     \<lparr>lc_light = newLightMetrics ''lightstrip'' True, lc_length = new_desc ''lightstrip'' ''length'' deviceLabels,
      lc_energy = newEnergyMetrics\<rparr>"

definition lightStrip_emit :: "lightStripCollector \<Rightarrow> Reading \<Rightarrow> metric list" where
  "lightStrip_emit c r =
     (let labels = labelsFor r in
      emit_light (lc_light c) r @ emitGauge (Some (lc_length c)) (rd_LightStripLength r) labels
      @ emit_energy (lc_energy c) (rd_Energy r) labels)"

definition lightStrip_update ::
  "lightStripCollector \<Rightarrow> collect_error + scrape_result list \<Rightarrow> collect_error + metric list" where
  "lightStrip_update c = kind_update TypeLightStrip (lightStrip_emit c)"

subsection \<open>Strips\<close>

record stripCollector =
  sc_on :: desc
  sc_sockets :: desc
  sc_socketOn :: desc
  sc_socketUptime :: desc
  sc_socketPower :: desc
  sc_socketVoltage :: desc
  sc_socketCurrent :: desc
  sc_socketEnergy :: desc
  sc_energy :: energyMetrics

definition NewStripCollector :: stripCollector where
  "NewStripCollector =
     \<lparr>sc_on = new_desc ''strip'' ''on'' deviceLabels,
      sc_sockets = new_desc ''strip'' ''sockets'' deviceLabels,
      sc_socketOn = new_desc ''strip'' ''socket_on'' socketLabels,
      sc_socketUptime = new_desc ''strip'' ''socket_uptime_seconds'' socketLabels,
      sc_socketPower = new_desc ''strip'' ''socket_power_watts'' socketLabels,
      sc_socketVoltage = new_desc ''strip'' ''socket_voltage_volts'' socketLabels,
      sc_socketCurrent = new_desc ''strip'' ''socket_current_amperes'' socketLabels,
      sc_socketEnergy = new_desc ''strip'' ''socket_energy_kilowatt_hours_total'' socketLabels,
      sc_energy = newEnergyMetrics\<rparr>"

text \<open>One outlet, then the strip.\<close>

definition socket_emit :: "stripCollector \<Rightarrow> string list \<Rightarrow> Socket \<Rightarrow> metric list" where
  "socket_emit c labels s =
     (let socketLabelValues = labels @ [so_ID s, so_Alias s] in
      emitGauge (Some (sc_socketOn c)) (boolValue (so_On s)) socketLabelValues
      @ emitGauge (Some (sc_socketUptime c)) (so_UptimeSeconds s) socketLabelValues
      @ (case so_Energy s of None \<Rightarrow> []
         | Some e \<Rightarrow>
             emitGauge (Some (sc_socketPower c)) (PowerWatts e) socketLabelValues
             @ emitGauge (Some (sc_socketVoltage c)) (VoltageVolts e) socketLabelValues
             @ emitGauge (Some (sc_socketCurrent c)) (CurrentAmperes e) socketLabelValues
             @ emitCounter (Some (sc_socketEnergy c)) (TotalKWh e) socketLabelValues))"

definition strip_emit :: "stripCollector \<Rightarrow> Reading \<Rightarrow> metric list" where
  "strip_emit c r =
     (let labels = labelsFor r in
      emitGauge (Some (sc_on c)) (boolValue (rd_On r)) labels
      @ [gauge (sc_sockets c) (fint (int (length (rd_Sockets r)))) labels]
      @ emit_energy (sc_energy c) (rd_Energy r) labels
      @ concat (map (socket_emit c labels) (rd_Sockets r)))"

definition strip_update :: "stripCollector \<Rightarrow> collect_error + scrape_result list \<Rightarrow> collect_error + metric list" where
  "strip_update c = kind_update TypeStrip (strip_emit c)"

subsection \<open>Hubs\<close>

record hubCollector =
  hc_children :: desc
  hc_childInfo :: desc
  hc_childUp :: desc
  hc_battery :: desc
  hc_batteryLow :: desc
  hc_temperature :: desc
  hc_humidity :: desc
  hc_signal :: desc
  hc_signalLevel :: desc

definition childLabels :: "string list" where
  "childLabels = deviceLabels @ [''child_id'', ''child_alias'']"

definition NewHubCollector :: hubCollector where
  "NewHubCollector =
     \<lparr>hc_children = new_desc ''hub'' ''children'' deviceLabels,
      hc_childInfo = new_desc ''hub'' ''child_info'' (childLabels @ [''model'', ''category'']),
      hc_childUp = new_desc ''hub'' ''child_up'' childLabels,
      hc_battery = new_desc ''hub'' ''child_battery_percent'' childLabels,
      hc_batteryLow = new_desc ''hub'' ''child_battery_low'' childLabels,
      hc_temperature = new_desc ''hub'' ''child_temperature_celsius'' childLabels,
      hc_humidity = new_desc ''hub'' ''child_humidity_percent'' childLabels,
      hc_signal = new_desc ''hub'' ''child_signal_strength_dbm'' childLabels,
      hc_signalLevel = new_desc ''hub'' ''child_signal_level'' childLabels\<rparr>"

text \<open>One paired device, then the hub.\<close>

definition child_emit :: "hubCollector \<Rightarrow> string list \<Rightarrow> Child \<Rightarrow> metric list" where
  "child_emit c labels child =
     (let childLabelValues = labels @ [ch_ID child, ch_Alias child] in
      [gauge (hc_childInfo c) (fint 1) (childLabelValues @ [ch_Model child, ch_Category child])]
      @ emitGauge (Some (hc_childUp c)) (boolValue (ch_Online child)) childLabelValues
      @ emitGauge (Some (hc_battery c)) (ch_BatteryPercent child) childLabelValues
      @ emitGauge (Some (hc_batteryLow c)) (boolValue (ch_BatteryLow child)) childLabelValues
      @ emitGauge (Some (hc_temperature c)) (ch_TemperatureCelsius child) childLabelValues
      @ emitGauge (Some (hc_humidity c)) (ch_HumidityPercent child) childLabelValues
      @ emitGauge (Some (hc_signal c)) (ch_RSSI child) childLabelValues
      @ emitGauge (Some (hc_signalLevel c)) (ch_SignalLevel child) childLabelValues)"

definition hub_emit :: "hubCollector \<Rightarrow> Reading \<Rightarrow> metric list" where
  "hub_emit c r =
     (let labels = labelsFor r in
      [gauge (hc_children c) (fint (int (length (rd_Children r)))) labels]
      @ concat (map (child_emit c labels) (rd_Children r)))"

definition hub_update :: "hubCollector \<Rightarrow> collect_error + scrape_result list \<Rightarrow> collect_error + metric list" where
  "hub_update c = kind_update TypeHub (hub_emit c)"

subsection \<open>All devices\<close>

record deviceCollector =
  dvc_up :: desc
  dvc_info :: desc
  dvc_signalStrength :: desc
  dvc_signalLevel :: desc
  dvc_uptime :: desc
  dvc_ledOn :: desc
  dvc_overheated :: desc
  dvc_updating :: desc
  dvc_count :: desc

definition NewDeviceCollector :: deviceCollector where
  "NewDeviceCollector =
     \<lparr>dvc_up = new_desc ''device'' ''up'' deviceLabels,
      dvc_info = new_desc ''device'' ''info''
        (deviceLabels @ [''model'', ''device_id'', ''hardware_version'', ''firmware_version'', ''mac'', ''type'', ''protocol'']),
      dvc_signalStrength = new_desc ''device'' ''signal_strength_dbm'' deviceLabels,
      dvc_signalLevel = new_desc ''device'' ''signal_level'' deviceLabels,
      dvc_uptime = new_desc ''device'' ''uptime_seconds'' deviceLabels,
      dvc_ledOn = new_desc ''device'' ''led_on'' deviceLabels,
      dvc_overheated = new_desc ''device'' ''overheated'' deviceLabels,
      dvc_updating = new_desc ''device'' ''updating'' deviceLabels,
      dvc_count = new_desc [] ''devices'' [''type'']\<rparr>"

text \<open>What is sent for one result, and the category it is counted under.\<close>

definition device_emit :: "deviceCollector \<Rightarrow> scrape_result \<Rightarrow> metric list" where
  "device_emit c x =
     (case re_Reading x of
        None \<Rightarrow> [gauge (dvc_up c) (fint 0) [re_Host x, re_Alias x]]
      | Some r \<Rightarrow>
          let labels = labelsFor r in
          [gauge (dvc_up c) (fint 1) labels,
           gauge (dvc_info c) (fint 1)
             [rd_Host r, aliasOf r, rd_Model r, rd_DeviceID r, rd_HardwareVersion r, rd_FirmwareVersion r, rd_MAC r,
              type_name (rd_Type r), protocol_name (rd_Protocol r)]]
          @ emitGauge (Some (dvc_signalStrength c)) (rd_RSSI r) labels
          @ emitGauge (Some (dvc_signalLevel c)) (rd_SignalLevel r) labels
          @ emitGauge (Some (dvc_uptime c)) (rd_UptimeSeconds r) labels
          @ emitGauge (Some (dvc_ledOn c)) (boolValue (rd_LEDOn r)) labels
          @ emitGauge (Some (dvc_overheated c)) (boolValue (rd_Overheated r)) labels
          @ emitGauge (Some (dvc_updating c)) (boolValue (rd_Updating r)) labels)"

definition counted_as :: "scrape_result \<Rightarrow> DeviceType" where
  "counted_as x = (case re_Reading x of None \<Rightarrow> re_Type x | Some r \<Rightarrow> rd_Type r)"

definition count_type :: "DeviceType \<Rightarrow> (DeviceType \<times> int) list \<Rightarrow> (DeviceType \<times> int) list" where
  "count_type t counts = AList.update t ((case map_of counts t of None \<Rightarrow> 0 | Some n \<Rightarrow> n) + 1) counts"

text \<open>\<open>range\<close> is the order in which Go ranges over the keys of the map of counts.\<close>

definition device_update ::
  "(DeviceType list \<Rightarrow> DeviceType list) \<Rightarrow> deviceCollector \<Rightarrow> collect_error + scrape_result list
     \<Rightarrow> collect_error + metric list" where
  "device_update range_keys c snap =
     (case snap of
        Inl e \<Rightarrow> Inl e
      | Inr results \<Rightarrow>
          if results = [] then Inl NoData
          else
          let counts = foldl (\<lambda>counts x. count_type (counted_as x) counts) [] results in
          Inr (concat (map (device_emit c) results)
            @ map (\<lambda>t. gauge (dvc_count c) (fint (the (map_of counts t))) [type_name t])
                (range_keys (map fst counts))))"

subsection \<open>The kinds meet their contract\<close>

text \<open>Collectors whose metrics all carry the labels of the device.\<close>

lemma uniform_kind:
  assumes "\<And>r. uniform (labelsFor r) names (emit r)"
  shows "kind_collector emit names"
  by unfold_locales (use uniformD [OF assms] in \<open>auto simp del: length_labelsFor simp: length_labelsFor(3)\<close>)

lemma uniform_energy_labels [intro]: "uniform (labelsFor r) energy_names (emit_energy newEnergyMetrics energy (labelsFor r))"
  by (simp add: uniform_energy)

definition plug_names :: "(string \<times> string) list" where
  "plug_names = (''plug'', ''on'') # energy_names"

definition wallSwitch_names :: "(string \<times> string) list" where
  "wallSwitch_names = (''wallswitch'', ''on'') # energy_names"

definition bulb_names :: "(string \<times> string) list" where
  "bulb_names = light_names ''bulb'' True @ energy_names"

definition dimmer_names :: "(string \<times> string) list" where
  "dimmer_names = light_names ''dimmer'' False @ energy_names"

definition lightStrip_names :: "(string \<times> string) list" where
  "lightStrip_names = light_names ''lightstrip'' True @ (''lightstrip'', ''length'') # energy_names"

interpretation plug: kind_collector TypePlug "plug_emit NewPlugCollector" plug_names
proof (rule uniform_kind)
  show "uniform (labelsFor r) plug_names (plug_emit NewPlugCollector r)" for r
    unfolding plug_names_def plug_emit_def Let_def emit_defs NewPlugCollector_def plugCollector.simps
    by (intro uniform_intros uniform_energy_labels) (simp_all add: energy_names_def)
qed

interpretation wallSwitch: kind_collector TypeWallSwitch "wallSwitch_emit NewWallSwitchCollector" wallSwitch_names
proof (rule uniform_kind)
  show "uniform (labelsFor r) wallSwitch_names (wallSwitch_emit NewWallSwitchCollector r)" for r
    unfolding wallSwitch_names_def wallSwitch_emit_def Let_def emit_defs NewWallSwitchCollector_def wallSwitchCollector.simps
    by (intro uniform_intros uniform_energy_labels) (simp_all add: energy_names_def)
qed

interpretation bulb: kind_collector TypeBulb "bulb_emit NewBulbCollector" bulb_names
proof (rule uniform_kind)
  show "uniform (labelsFor r) bulb_names (bulb_emit NewBulbCollector r)" for r
    unfolding bulb_names_def bulb_emit_def NewBulbCollector_def bulbCollector.simps
    by (intro uniform_append uniform_light uniform_energy_labels) (simp add: energy_names_def light_names_def)
qed

interpretation dimmer: kind_collector TypeDimmer "dimmer_emit NewDimmerCollector" dimmer_names
proof (rule uniform_kind)
  show "uniform (labelsFor r) dimmer_names (dimmer_emit NewDimmerCollector r)" for r
    unfolding dimmer_names_def dimmer_emit_def NewDimmerCollector_def dimmerCollector.simps
    by (intro uniform_append uniform_light uniform_energy_labels) (simp add: energy_names_def light_names_def)
qed

interpretation lightStrip: kind_collector TypeLightStrip "lightStrip_emit NewLightStripCollector" lightStrip_names
proof (rule uniform_kind)
  show "uniform (labelsFor r) lightStrip_names (lightStrip_emit NewLightStripCollector r)" for r
    unfolding lightStrip_names_def lightStrip_emit_def Let_def emit_defs NewLightStripCollector_def lightStripCollector.simps
    by (intro uniform_append [OF uniform_light] uniform_intros uniform_energy_labels)
      (simp_all add: energy_names_def light_names_def)
qed

text \<open>Strips: the device's own metrics, then those of each outlet under its four labels.\<close>

definition strip_own_names :: "(string \<times> string) list" where
  "strip_own_names = (''strip'', ''on'') # (''strip'', ''sockets'') # energy_names"

definition socket_names :: "(string \<times> string) list" where
  "socket_names =
     [(''strip'', ''socket_on''), (''strip'', ''socket_uptime_seconds''), (''strip'', ''socket_power_watts''),
      (''strip'', ''socket_voltage_volts''), (''strip'', ''socket_current_amperes''),
      (''strip'', ''socket_energy_kilowatt_hours_total'')]"

lemma uniform_strip_own:
  "uniform (labelsFor r) strip_own_names
     (emitGauge (Some (sc_on NewStripCollector)) (boolValue (rd_On r)) (labelsFor r)
      @ [gauge (sc_sockets NewStripCollector) v (labelsFor r)]
      @ emit_energy (sc_energy NewStripCollector) (rd_Energy r) (labelsFor r))"
  unfolding strip_own_names_def emit_defs NewStripCollector_def stripCollector.simps
  by (intro uniform_intros uniform_energy_labels) (simp_all add: energy_names_def)

lemma uniform_socket:
  assumes "length labels = 2"
  shows "uniform (labels @ [so_ID s, so_Alias s]) socket_names (socket_emit NewStripCollector labels s)"
proof (cases "so_Energy s")
  case None
  have "uniform (labels @ [so_ID s, so_Alias s]) [(''strip'', ''socket_on''), (''strip'', ''socket_uptime_seconds'')]
      (socket_emit NewStripCollector labels s)"
    unfolding socket_emit_def emit_defs NewStripCollector_def stripCollector.simps Let_def None option.case
    by (intro uniform_intros) (simp_all add: assms)
  then show ?thesis by (rule uniform_mono) (simp add: socket_names_def)
next
  case (Some e)
  have "uniform (labels @ [so_ID s, so_Alias s]) socket_names (socket_emit NewStripCollector labels s @ [])"
    unfolding socket_emit_def emit_defs NewStripCollector_def stripCollector.simps Let_def Some option.case
      socket_names_def append_assoc
    by (intro uniform_intros) (simp_all add: assms)
  then show ?thesis by simp
qed

definition strip_names :: "(string \<times> string) list" where
  "strip_names = strip_own_names @ socket_names"

text \<open>Hubs: the count, then for each paired device its info and its values.\<close>

definition child_names :: "(string \<times> string) list" where
  "child_names =
     [(''hub'', ''child_up''), (''hub'', ''child_battery_percent''), (''hub'', ''child_battery_low''),
      (''hub'', ''child_temperature_celsius''), (''hub'', ''child_humidity_percent''),
      (''hub'', ''child_signal_strength_dbm''), (''hub'', ''child_signal_level'')]"

definition hub_names :: "(string \<times> string) list" where
  "hub_names = (''hub'', ''children'') # (''hub'', ''child_info'') # child_names"

lemma length_childLabels [simp]: "length childLabels = 4"
  by (simp add: childLabels_def)

lemma uniform_child:
  assumes "length labels = 2"
  shows "\<exists>info rest. child_emit NewHubCollector labels c = info # rest
    \<and> uniform (labels @ [ch_ID c, ch_Alias c, ch_Model c, ch_Category c]) [(''hub'', ''child_info'')] [info]
    \<and> uniform (labels @ [ch_ID c, ch_Alias c]) child_names rest"
proof -
  define rest where "rest = drop 1 (child_emit NewHubCollector labels c)"
  have "uniform (labels @ [ch_ID c, ch_Alias c]) child_names (rest @ [])"
    unfolding rest_def child_emit_def emit_defs NewHubCollector_def hubCollector.simps Let_def child_names_def
      append_Cons append_Nil drop_Suc_Cons drop_0 One_nat_def append_assoc
    by (intro uniform_intros) (simp_all add: assms)
  moreover have "uniform (labels @ [ch_ID c, ch_Alias c, ch_Model c, ch_Category c]) [(''hub'', ''child_info'')]
      [gauge (hc_childInfo NewHubCollector) (fint 1) (labels @ [ch_ID c, ch_Alias c, ch_Model c, ch_Category c])]"
    unfolding NewHubCollector_def hubCollector.simps by (rule uniform_gauge) (simp add: assms)
  moreover have "child_emit NewHubCollector labels c
      = gauge (hc_childInfo NewHubCollector) (fint 1) (labels @ [ch_ID c, ch_Alias c, ch_Model c, ch_Category c]) # rest"
    by (simp add: rest_def child_emit_def Let_def)
  ultimately show ?thesis by simp
qed

text \<open>A kind with parts: its own metrics and those of each part, under the labels of the part.\<close>

lemma parts_kind:
  assumes own: "\<And>r. uniform (labelsFor r) own_names (own r)"
    and part: "\<And>r x m. x \<in> set (parts r) \<Longrightarrow> m \<in> set (part r x) \<Longrightarrow>
        metric_name m \<in> set part_names \<and> take 3 (mt_labels m) = labelsFor r @ [key x] \<and> (reading_text r \<longrightarrow> metric_ok m)"
    and series_part: "\<And>r x. distinct (map series (part r x))"
    and keys: "\<And>r. parts_distinct r \<Longrightarrow> distinct (map key (parts r))"
    and apart: "set own_names \<inter> set part_names = {}"
  shows "kind_collector (\<lambda>r. own r @ concat (map (part r) (parts r))) (own_names @ part_names)"
proof
  fix m r assume m: "m \<in> set (own r @ concat (map (part r) (parts r)))"
  have two: "take 2 xs = ys" if "take 3 xs = ys @ [k]" "length ys = 2" for xs ys and k :: string
  proof -
    have "take 2 (take 3 xs) = ys" using that by simp
    then show ?thesis by (simp add: min_def)
  qed
  show "take 2 (mt_labels m) = labelsFor r"
  proof (cases "m \<in> set (own r)")
    case True
    then show ?thesis using uniformD(1) [OF own] by simp
  next
    case False
    then obtain x where "x \<in> set (parts r)" "m \<in> set (part r x)" using m by auto
    then show ?thesis using part [of x r m] two [of "mt_labels m" "labelsFor r"] by simp
  qed
  show "metric_name m \<in> set (own_names @ part_names)"
    using m uniformD(2) [OF own] part by auto
  show "reading_text r \<Longrightarrow> metric_ok m"
    using m uniformD(3) [OF own] part by auto
next
  fix r assume "parts_distinct r"
  from keys [OF this] have "distinct (map series (concat (map (part r) (parts r))))"
  proof (rule distinct_parts [where k = "\<lambda>s. snd s ! 2"])
    fix x m assume "x \<in> set (parts r)" "m \<in> set (part r x)"
    then have "take 3 (mt_labels m) = labelsFor r @ [key x]" using part by blast
    then have "take 3 (mt_labels m) ! 2 = key x" by (simp add: labelsFor_def)
    then show "snd (series m) ! 2 = key x" by (simp add: series_name)
  qed (rule series_part)
  moreover have "series m \<noteq> series m'" if "m \<in> set (own r)" "m' \<in> set (concat (map (part r) (parts r)))" for m m'
    using that uniformD(2) [OF own, of m r] part apart by (force simp: series_def)
  then have "set (map series (own r)) \<inter> set (map series (concat (map (part r) (parts r)))) = {}"
    unfolding disjoint_iff set_map image_iff by metis
  ultimately show "distinct (map series (own r @ concat (map (part r) (parts r))))"
    using uniformD(4) [OF own] by simp
qed

interpretation strip: kind_collector TypeStrip "strip_emit NewStripCollector" strip_names
proof -
  have e: "strip_emit NewStripCollector = (\<lambda>r.
      (emitGauge (Some (sc_on NewStripCollector)) (boolValue (rd_On r)) (labelsFor r)
       @ [gauge (sc_sockets NewStripCollector) (fint (int (length (rd_Sockets r)))) (labelsFor r)]
       @ emit_energy (sc_energy NewStripCollector) (rd_Energy r) (labelsFor r))
      @ concat (map (socket_emit NewStripCollector (labelsFor r)) (rd_Sockets r)))"
    by (simp add: fun_eq_iff strip_emit_def Let_def)
  show "kind_collector (strip_emit NewStripCollector) strip_names"
    unfolding e strip_names_def
  proof (rule parts_kind [where key = so_ID], rule uniform_strip_own)
    fix r s m assume s: "s \<in> set (rd_Sockets r)" "m \<in> set (socket_emit NewStripCollector (labelsFor r) s)"
    note u = uniform_socket [of "labelsFor r" s, OF length_labelsFor(1)]
    show "metric_name m \<in> set socket_names \<and> take 3 (mt_labels m) = labelsFor r @ [so_ID s] \<and> (reading_text r \<longrightarrow> metric_ok m)"
      using uniformD(1-3) [OF u s(2)] s(1)
      by (auto simp: reading_text_def socket_text_def list_all_iff labelsFor_def aliasOf_def)
  next
    show "distinct (map series (socket_emit NewStripCollector (labelsFor r) s))" for r s
      using uniformD(4) [OF uniform_socket [of "labelsFor r" s]] by simp
  qed (simp_all add: parts_distinct_def strip_own_names_def socket_names_def energy_names_def)
qed

interpretation hub: kind_collector TypeHub "hub_emit NewHubCollector" hub_names
proof -
  have n: "hub_names = [(''hub'', ''children'')] @ ((''hub'', ''child_info'') # child_names)" by (simp add: hub_names_def)
  have e: "hub_emit NewHubCollector = (\<lambda>r.
      [gauge (hc_children NewHubCollector) (fint (int (length (rd_Children r)))) (labelsFor r)]
      @ concat (map (child_emit NewHubCollector (labelsFor r)) (rd_Children r)))"
    by (simp add: fun_eq_iff hub_emit_def Let_def)
  show "kind_collector (hub_emit NewHubCollector) hub_names"
    unfolding e n
  proof (rule parts_kind [where key = ch_ID])
    show "uniform (labelsFor r) [(''hub'', ''children'')] [gauge (hc_children NewHubCollector) v (labelsFor r)]" for r v
      unfolding NewHubCollector_def hubCollector.simps by (rule uniform_gauge) simp
  next
    fix r c m assume c: "c \<in> set (rd_Children r)" "m \<in> set (child_emit NewHubCollector (labelsFor r) c)"
    obtain info rest where u: "child_emit NewHubCollector (labelsFor r) c = info # rest"
        "uniform (labelsFor r @ [ch_ID c, ch_Alias c, ch_Model c, ch_Category c]) [(''hub'', ''child_info'')] [info]"
        "uniform (labelsFor r @ [ch_ID c, ch_Alias c]) child_names rest"
      using uniform_child [of "labelsFor r" c] by auto
    show "metric_name m \<in> set ((''hub'', ''child_info'') # child_names) \<and> take 3 (mt_labels m) = labelsFor r @ [ch_ID c]
        \<and> (reading_text r \<longrightarrow> metric_ok m)"
    proof (cases "m = info")
      case True
      then show ?thesis
        using uniformD(1-3) [OF u(2), of m] c(1)
        by (auto simp: reading_text_def child_text_def list_all_iff labelsFor_def aliasOf_def)
    next
      case False
      then have "m \<in> set rest" using c(2) u(1) by simp
      then show ?thesis
        using uniformD(1-3) [OF u(3), of m] c(1)
        by (auto simp: reading_text_def child_text_def list_all_iff labelsFor_def aliasOf_def)
    qed
  next
    fix r c
    obtain info rest where u: "child_emit NewHubCollector (labelsFor r) c = info # rest"
        "uniform (labelsFor r @ [ch_ID c, ch_Alias c, ch_Model c, ch_Category c]) [(''hub'', ''child_info'')] [info]"
        "uniform (labelsFor r @ [ch_ID c, ch_Alias c]) child_names rest"
      using uniform_child [of "labelsFor r" c] by auto
    have "(''hub'', ''child_info'') \<notin> set child_names" by (simp add: child_names_def)
    then show "distinct (map series (child_emit NewHubCollector (labelsFor r) c))"
      using uniformD(2) [OF u(2)] uniformD(2,4) [OF u(3)] by (force simp: u(1) series_def)
  qed (simp_all add: parts_distinct_def child_names_def)
qed

subsection \<open>The device collector\<close>

definition device_names :: "(string \<times> string) list" where
  "device_names =
     [(''device'', ''up''), (''device'', ''info''), (''device'', ''signal_strength_dbm''), (''device'', ''signal_level''),
      (''device'', ''uptime_seconds''), (''device'', ''led_on''), (''device'', ''overheated''), (''device'', ''updating'')]"

lemma device_emit_parts:
  assumes "case re_Reading x of None \<Rightarrow> True | Some r \<Rightarrow> rd_Host r = re_Host x"
  shows "\<exists>up info rest labels more. device_emit NewDeviceCollector x = up # info @ rest
    \<and> up = gauge (dvc_up NewDeviceCollector) (fint (if re_Reading x = None then 0 else 1)) labels
    \<and> uniform labels [(''device'', ''up'')] [up] \<and> uniform (labels @ more) [(''device'', ''info'')] info
    \<and> uniform labels (drop 2 device_names) rest
    \<and> labels = [re_Host x, case re_Reading x of None \<Rightarrow> re_Alias x | Some r \<Rightarrow> aliasOf r]
    \<and> ((case re_Reading x of None \<Rightarrow> True | Some r \<Rightarrow> reading_text r) \<longrightarrow> list_all valid_utf8 more)"
proof (cases "re_Reading x")
  case None
  have "uniform labels [(''device'', ''up'')] [gauge (dvc_up NewDeviceCollector) v labels]" if "length labels = 2" for v labels
    unfolding NewDeviceCollector_def deviceCollector.simps by (rule uniform_gauge) (simp add: that)
  then show ?thesis
    by (intro exI [of _ "gauge (dvc_up NewDeviceCollector) (fint 0) [re_Host x, re_Alias x]"] exI [of _ "[]"]
        exI [of _ "[re_Host x, re_Alias x]"]) (simp add: device_emit_def None)
next
  case (Some r)
  let ?more = "[rd_Model r, rd_DeviceID r, rd_HardwareVersion r, rd_FirmwareVersion r, rd_MAC r,
              type_name (rd_Type r), protocol_name (rd_Protocol r)]"
  define rest where "rest = drop 2 (device_emit NewDeviceCollector x)"
  have "uniform (labelsFor r) (drop 2 device_names) (rest @ [])"
    unfolding rest_def device_emit_def Some option.case emit_defs NewDeviceCollector_def deviceCollector.simps Let_def
      append_Cons append_Nil drop_Suc_Cons drop_0 numeral_2_eq_2 append_assoc device_names_def
    by (intro uniform_intros) simp_all
  moreover have "uniform (labelsFor r) [(''device'', ''up'')] [gauge (dvc_up NewDeviceCollector) v (labelsFor r)]" for v
    unfolding NewDeviceCollector_def deviceCollector.simps by (rule uniform_gauge) simp
  moreover have "uniform (labelsFor r @ ?more) [(''device'', ''info'')] [gauge (dvc_info NewDeviceCollector) v (labelsFor r @ ?more)]" for v
    unfolding NewDeviceCollector_def deviceCollector.simps by (rule uniform_gauge) simp
  moreover have "device_emit NewDeviceCollector x = gauge (dvc_up NewDeviceCollector) (fint 1) (labelsFor r)
      # [gauge (dvc_info NewDeviceCollector) (fint 1) (labelsFor r @ ?more)] @ rest"
    by (simp add: rest_def device_emit_def Some Let_def labelsFor_def)
  moreover have "labelsFor r = [re_Host x, aliasOf r]" using assms by (simp add: labelsFor_def Some)
  moreover have "list_all valid_utf8 ?more" if "reading_text r"
    using that by (simp add: reading_text_def type_name_def protocol_name_def decode_rune_def
        split: DeviceType.split Protocol.split)
  ultimately show ?thesis
    by (intro exI [of _ "gauge (dvc_up NewDeviceCollector) (fint 1) (labelsFor r)"]
        exI [of _ "[gauge (dvc_info NewDeviceCollector) (fint 1) (labelsFor r @ ?more)]"]
        exI [of _ rest] exI [of _ "labelsFor r"] exI [of _ ?more]) (simp add: Some)
qed

text \<open>The counts: how many results count under each category.\<close>

definition counted :: "scrape_result list \<Rightarrow> DeviceType \<Rightarrow> nat" where
  "counted results t = length (filter (\<lambda>x. counted_as x = t) results)"

lemma counts_of:
  fixes results
  defines "counts \<equiv> foldl (\<lambda>counts x. count_type (counted_as x) counts) [] results"
  shows "map_of counts t = (if counted results t = 0 then None else Some (int (counted results t)))"
    and "distinct (map fst counts)" and "set (map fst counts) = counted_as ` set results"
proof -
  have "map_of counts t = (if counted results t = 0 then None else Some (int (counted results t)))
      \<and> distinct (map fst counts) \<and> set (map fst counts) = counted_as ` set results" for t
    unfolding counts_def
  proof (induction results arbitrary: t rule: rev_induct)
    case (snoc x xs)
    note IH = snoc.IH
    have d: "distinct (map fst (foldl (\<lambda>counts x. count_type (counted_as x) counts) [] xs))" using IH by blast
    show ?case
      using IH [of t] IH [of "counted_as x"] d
      by (auto simp: count_type_def counted_def update_conv' distinct_update update_keys)
  qed (simp add: counted_def)
  then show "map_of counts t = (if counted results t = 0 then None else Some (int (counted results t)))"
    "distinct (map fst counts)" "set (map fst counts) = counted_as ` set results" by blast+
qed

text \<open>What is relied on of Go's range over a map: each key once.\<close>

definition visits_once :: "(DeviceType list \<Rightarrow> DeviceType list) \<Rightarrow> bool" where
  "visits_once range_keys \<longleftrightarrow> (\<forall>ks. mset (range_keys ks) = mset ks)"

lemma device_update_Inr:
  assumes "visits_once range_keys" and "device_update range_keys c (Inr results) = Inr ms"
  obtains ts where "ms = concat (map (device_emit c) results)
      @ map (\<lambda>t. gauge (dvc_count c) (fint (int (counted results t))) [type_name t]) ts"
    and "distinct ts" and "set ts = counted_as ` set results" and "results \<noteq> []"
proof -
  define counts where "counts = foldl (\<lambda>counts x. count_type (counted_as x) counts) [] results"
  define ts where "ts = range_keys (map fst counts)"
  note c = counts_of [of results, folded counts_def]
  have "mset ts = mset (map fst counts)" using assms(1) by (simp add: ts_def visits_once_def)
  then have ts: "distinct ts" "set ts = counted_as ` set results"
    using c(2,3) mset_eq_imp_distinct_iff mset_eq_setD by metis+
  have "the (map_of counts t) = int (counted results t)" if "t \<in> set ts" for t
    using that c(1) [of t] by (auto simp: ts(2) counted_def filter_empty_conv)
  then have "ms = concat (map (device_emit c) results)
      @ map (\<lambda>t. gauge (dvc_count c) (fint (int (counted results t))) [type_name t]) ts" and "results \<noteq> []"
    using assms(2) by (auto simp: device_update_def Let_def counts_def [symmetric] ts_def [symmetric] split: if_splits)
  then show ?thesis using ts by (intro that)
qed

lemma snapshot_result: "snapshot_ok results \<Longrightarrow> x \<in> set results \<Longrightarrow>
    case re_Reading x of None \<Rightarrow> True | Some r \<Rightarrow> rd_Host r = re_Host x"
  by (simp add: snapshot_ok_def list_all_iff)

lemma device_emit_labels:
  assumes "case re_Reading x of None \<Rightarrow> True | Some r \<Rightarrow> rd_Host r = re_Host x"
    and "m \<in> set (device_emit NewDeviceCollector x)"
  shows "hd (mt_labels m) = re_Host x" and "metric_name m \<in> set device_names"
    and "valid_utf8 (re_Host x) \<Longrightarrow> valid_utf8 (re_Alias x) \<Longrightarrow>
      (case re_Reading x of None \<Rightarrow> True | Some r \<Rightarrow> reading_text r) \<Longrightarrow> metric_ok m"
proof -
  obtain up info rest labels more where u: "device_emit NewDeviceCollector x = up # info @ rest"
    "uniform labels [(''device'', ''up'')] [up]" "uniform (labels @ more) [(''device'', ''info'')] info"
    "uniform labels (drop 2 device_names) rest"
    "labels = [re_Host x, case re_Reading x of None \<Rightarrow> re_Alias x | Some r \<Rightarrow> aliasOf r]"
    "(case re_Reading x of None \<Rightarrow> True | Some r \<Rightarrow> reading_text r) \<longrightarrow> list_all valid_utf8 more"
    using device_emit_parts [OF assms(1)] by blast
  have m: "m \<in> set [up] \<or> m \<in> set info \<or> m \<in> set rest" using assms(2) by (simp add: u(1))
  show "hd (mt_labels m) = re_Host x"
    using m uniformD(1) [OF u(2)] uniformD(1) [OF u(3)] uniformD(1) [OF u(4)] by (auto simp: u(5))
  have "set (drop 2 device_names) \<subseteq> set device_names" by (rule set_drop_subset)
  then show "metric_name m \<in> set device_names"
    using m uniformD(2) [OF u(2)] uniformD(2) [OF u(3)] uniformD(2) [OF u(4)]
    by (auto simp: device_names_def)
  assume t: "valid_utf8 (re_Host x)" "valid_utf8 (re_Alias x)" "case re_Reading x of None \<Rightarrow> True | Some r \<Rightarrow> reading_text r"
  then have "list_all valid_utf8 labels" "list_all valid_utf8 (labels @ more)"
    using u(6) by (auto simp: u(5) reading_text_def aliasOf_def split: option.splits)
  then show "metric_ok m" using m uniformD(3) [OF u(2)] uniformD(3) [OF u(3)] uniformD(3) [OF u(4)] by blast
qed

lemma device_emit_distinct:
  assumes "case re_Reading x of None \<Rightarrow> True | Some r \<Rightarrow> rd_Host r = re_Host x"
  shows "distinct (map series (device_emit NewDeviceCollector x))"
    and "filter (\<lambda>m. metric_name m = (''device'', ''up'')) (device_emit NewDeviceCollector x)
      = [gauge (dvc_up NewDeviceCollector) (fint (if re_Reading x = None then 0 else 1))
          [re_Host x, case re_Reading x of None \<Rightarrow> re_Alias x | Some r \<Rightarrow> aliasOf r]]"
proof -
  obtain up info rest labels more where u: "device_emit NewDeviceCollector x = up # info @ rest"
    "up = gauge (dvc_up NewDeviceCollector) (fint (if re_Reading x = None then 0 else 1)) labels"
    "uniform labels [(''device'', ''up'')] [up]" "uniform (labels @ more) [(''device'', ''info'')] info"
    "uniform labels (drop 2 device_names) rest"
    "labels = [re_Host x, case re_Reading x of None \<Rightarrow> re_Alias x | Some r \<Rightarrow> aliasOf r]"
    using device_emit_parts [OF assms] by blast
  have n: "metric_name up = (''device'', ''up'')" "\<forall>m \<in> set info. metric_name m = (''device'', ''info'')"
    "\<forall>m \<in> set rest. metric_name m \<in> set (drop 2 device_names)"
    using uniformD(2) [OF u(3)] uniformD(2) [OF u(4)] uniformD(2) [OF u(5)] by auto
  have d: "(''device'', ''up'') \<notin> set (drop 2 device_names)" "(''device'', ''info'') \<notin> set (drop 2 device_names)"
    by (simp_all add: device_names_def)
  show "distinct (map series (device_emit NewDeviceCollector x))"
    using uniformD(4) [OF u(4)] uniformD(4) [OF u(5)] n d by (force simp: u(1) series_def)
  have "filter (\<lambda>m. metric_name m = (''device'', ''up'')) (info @ rest) = []"
    using n(2,3) d(1) by (auto simp: filter_empty_conv)
  then show "filter (\<lambda>m. metric_name m = (''device'', ''up'')) (device_emit NewDeviceCollector x)
      = [gauge (dvc_up NewDeviceCollector) (fint (if re_Reading x = None then 0 else 1))
          [re_Host x, case re_Reading x of None \<Rightarrow> re_Alias x | Some r \<Rightarrow> aliasOf r]]"
    using n(1) u(2,6) by (simp add: u(1))
qed

lemma count_desc [simp]: "ds_subsystem (dvc_count NewDeviceCollector) = []" "ds_name (dvc_count NewDeviceCollector) = ''devices''"
  "ds_labels (dvc_count NewDeviceCollector) = [''type'']"
  by (simp_all add: NewDeviceCollector_def)

lemma valid_type_name [simp]: "valid_utf8 (type_name t)"
  by (cases t) (simp_all add: type_name_def decode_rune_def)

lemma device_update_facts:
  assumes "visits_once range_keys" and "device_update range_keys NewDeviceCollector (Inr results) = Inr ms"
    and "snapshot_ok results"
  shows "distinct (map series ms)"
    and "m \<in> set ms \<Longrightarrow> metric_name m \<in> set device_names \<or> metric_name m = ([], ''devices'')"
    and "m \<in> set ms \<Longrightarrow> \<forall>x \<in> set results. valid_utf8 (re_Host x) \<and> valid_utf8 (re_Alias x)
        \<and> (case re_Reading x of None \<Rightarrow> True | Some r \<Rightarrow> reading_text r) \<Longrightarrow> metric_ok m"
proof -
  let ?c = NewDeviceCollector
  obtain ts where ms: "ms = concat (map (device_emit ?c) results)
      @ map (\<lambda>t. gauge (dvc_count ?c) (fint (int (counted results t))) [type_name t]) ts"
    and ts: "distinct ts"
    using device_update_Inr [OF assms(1,2)] by metis
  note ok = snapshot_result [OF assms(3)]
  show "m \<in> set ms \<Longrightarrow> metric_name m \<in> set device_names \<or> metric_name m = ([], ''devices'')"
    using device_emit_labels(2) [OF ok] by (auto simp: ms)
  show "m \<in> set ms \<Longrightarrow> \<forall>x \<in> set results. valid_utf8 (re_Host x) \<and> valid_utf8 (re_Alias x)
        \<and> (case re_Reading x of None \<Rightarrow> True | Some r \<Rightarrow> reading_text r) \<Longrightarrow> metric_ok m"
    using device_emit_labels(3) [OF ok] by (auto simp: ms metric_ok_def gauge_def)
  have d1: "distinct (map series (concat (map (device_emit ?c) results)))"
    using device_emit_distinct(1) [OF ok] device_emit_labels(1) [OF ok] assms(3)
    by (intro distinct_parts [where key = re_Host and k = "hd \<circ> snd"]) (auto simp: snapshot_ok_def series_name)
  have "([], ''devices'') \<notin> set device_names" by (simp add: device_names_def)
  moreover have "metric_name m \<in> set device_names" if "m \<in> set (concat (map (device_emit ?c) results))" for m
    using device_emit_labels(2) [OF ok] that by auto
  ultimately have n: "metric_name m \<noteq> ([], ''devices'')" if "m \<in> set (concat (map (device_emit ?c) results))" for m
    using that by metis
  have "distinct (map series (map (\<lambda>t. gauge (dvc_count ?c) (fint (int (counted results t))) [type_name t]) ts))"
    using ts by (simp add: comp_def series_def distinct_map inj_on_def)
  moreover have "set (map series (concat (map (device_emit ?c) results)))
      \<inter> set (map series (map (\<lambda>t. gauge (dvc_count ?c) (fint (int (counted results t))) [type_name t]) ts)) = {}"
  proof -
    have "fst s \<noteq> ([], ''devices'')" if "s \<in> set (map series (concat (map (device_emit ?c) results)))" for s
      using that n unfolding set_map image_iff by (metis series_name(1))
    moreover have "fst s = ([], ''devices'')"
      if "s \<in> set (map series (map (\<lambda>t. gauge (dvc_count ?c) (fint (int (counted results t))) [type_name t]) ts))" for s
      using that by (auto simp: series_def)
    ultimately show ?thesis by blast
  qed
  ultimately show "distinct (map series ms)" using d1 by (simp only: ms map_append distinct_append simp_thms)
qed

subsection \<open>Properties\<close>

text \<open>C14. The inventory is complete: of every device of a snapshot there is exactly one \<^verbatim>\<open>up\<close>, under its
  host and name, saying whether it was read on this scrape, so a device that fails is still
  reported; and for every category exactly one count of the devices last known to be of it, none
  for a category without devices.\<close>

theorem device_inventory:
  assumes "visits_once range_keys" and "snapshot_ok results"
    and "device_update range_keys NewDeviceCollector (Inr results) = Inr ms"
  shows "filter (\<lambda>m. metric_name m = (''device'', ''up'')) ms =
      map (\<lambda>x. gauge (dvc_up NewDeviceCollector) (fint (if re_Reading x = None then 0 else 1))
        [re_Host x, case re_Reading x of None \<Rightarrow> re_Alias x | Some r \<Rightarrow> aliasOf r]) results
    \<and> filter (\<lambda>m. series m = (([], ''devices''), [type_name t])) ms =
      (if counted results t = 0 then []
       else [gauge (dvc_count NewDeviceCollector) (fint (int (counted results t))) [type_name t]])"
proof -
  let ?c = NewDeviceCollector
  obtain ts where ms: "ms = concat (map (device_emit ?c) results)
      @ map (\<lambda>t. gauge (dvc_count ?c) (fint (int (counted results t))) [type_name t]) ts"
    and ts: "distinct ts" "set ts = counted_as ` set results"
    using device_update_Inr [OF assms(1,3)] by metis
  note ok = snapshot_result [OF assms(2)]
  have "filter (\<lambda>m. metric_name m = (''device'', ''up'')) (concat (map (device_emit ?c) xs)) =
      map (\<lambda>x. gauge (dvc_up ?c) (fint (if re_Reading x = None then 0 else 1))
        [re_Host x, case re_Reading x of None \<Rightarrow> re_Alias x | Some r \<Rightarrow> aliasOf r]) xs" if "set xs \<subseteq> set results" for xs
    using that by (induction xs) (auto simp: device_emit_distinct(2) [OF ok])
  then have up: "filter (\<lambda>m. metric_name m = (''device'', ''up'')) ms =
      map (\<lambda>x. gauge (dvc_up ?c) (fint (if re_Reading x = None then 0 else 1))
        [re_Host x, case re_Reading x of None \<Rightarrow> re_Alias x | Some r \<Rightarrow> aliasOf r]) results"
    by (simp add: ms comp_def)
  have "series m \<noteq> (([], ''devices''), [type_name t])" if "m \<in> set (concat (map (device_emit ?c) results))" for m
  proof -
    have "metric_name m \<in> set device_names" using device_emit_labels(2) [OF ok] that by auto
    then show ?thesis by (auto simp: series_def device_names_def)
  qed
  then have "filter (\<lambda>m. series m = (([], ''devices''), [type_name t])) (concat (map (device_emit ?c) results)) = []"
    by (simp only: filter_empty_conv) blast
  moreover have "filter (\<lambda>m. series m = (([], ''devices''), [type_name t]))
      (map (\<lambda>t. gauge (dvc_count ?c) (fint (int (counted results t))) [type_name t]) ts)
    = map (\<lambda>t. gauge (dvc_count ?c) (fint (int (counted results t))) [type_name t]) (filter (\<lambda>u. u = t) ts)"
    by (simp add: filter_map comp_def series_def)
  moreover have "filter (\<lambda>u. u = t) ts = (if counted results t = 0 then [] else [t])"
  proof -
    have "t \<in> set ts \<longleftrightarrow> counted results t \<noteq> 0" by (auto simp: ts(2) counted_def filter_empty_conv)
    moreover have "filter (\<lambda>u. u = t) ts = (if t \<in> set ts then [t] else [])" using ts(1) by (induction ts) auto
    ultimately show ?thesis by simp
  qed
  ultimately have "filter (\<lambda>m. series m = (([], ''devices''), [type_name t])) ms =
      (if counted results t = 0 then []
       else [gauge (dvc_count ?c) (fint (int (counted results t))) [type_name t]])"
    by (simp add: ms)
  with up show ?thesis by blast
qed

text \<open>Two plugs, one of them down.\<close>

definition blank_reading :: "string \<Rightarrow> DeviceType \<Rightarrow> Reading" where
  "blank_reading host t =
     \<lparr>rd_Host = host, rd_Alias = [], rd_Model = ''HS110'', rd_DeviceID = [], rd_HardwareVersion = [],
      rd_FirmwareVersion = [], rd_MAC = [], rd_Type = t, rd_Protocol = ProtocolIOT, rd_On = Some True,
      rd_LEDOn = None, rd_Overheated = None, rd_Updating = None, rd_UptimeSeconds = None, rd_RSSI = None,
      rd_SignalLevel = None, rd_Brightness = None, rd_ColorTempKelvin = None, rd_Hue = None, rd_Saturation = None,
      rd_LightStripLength = None, rd_Energy = None, rd_Sockets = [], rd_Children = []\<rparr>"

definition two_plugs :: "scrape_result list" where
  "two_plugs =
     [\<lparr>re_Host = ''a'', re_Alias = ''lamp'', re_Type = TypePlug, re_Reading = None, re_Err = Some (ConnectError ProbeFailed)\<rparr>,
      \<lparr>re_Host = ''b'', re_Alias = ''b'', re_Type = TypePlug, re_Reading = Some (blank_reading ''b'' TypePlug), re_Err = None\<rparr>]"

lemma two_plugs_ok: "snapshot_ok two_plugs"
  by (simp add: snapshot_ok_def two_plugs_def blank_reading_def)

theorem device_inventory_witness:
  "\<exists>ms. device_update rev NewDeviceCollector (Inr two_plugs) = Inr ms
    \<and> map mt_labels (filter (\<lambda>m. metric_name m = (''device'', ''up'')) ms) = [[''a'', ''lamp''], [''b'', ''b'']]
    \<and> map mt_value (filter (\<lambda>m. metric_name m = (''device'', ''up'')) ms) = [fint 0, fint 1]
    \<and> map mt_value (filter (\<lambda>m. series m = (([], ''devices''), [''plug''])) ms) = [fint 2]"
proof -
  have v: "visits_once rev" by (simp add: visits_once_def)
  obtain ms where ms: "device_update rev NewDeviceCollector (Inr two_plugs) = Inr ms"
    by (auto simp: device_update_def two_plugs_def Let_def)
  have c: "counted two_plugs TypePlug = 2" by (simp add: counted_def two_plugs_def counted_as_def blank_reading_def)
  have n: "type_name TypePlug = ''plug''" by (simp add: type_name_def)
  note i = device_inventory [OF v two_plugs_ok ms, of TypePlug]
  have "filter (\<lambda>m. metric_name m = (''device'', ''up'')) ms =
      [gauge (dvc_up NewDeviceCollector) (fint 0) [''a'', ''lamp''], gauge (dvc_up NewDeviceCollector) (fint 1) [''b'', ''b'']]"
    by (subst conjunct1 [OF i]) (simp add: two_plugs_def aliasOf_def blank_reading_def)
  moreover have "filter (\<lambda>m. series m = (([], ''devices''), [''plug''])) ms = [gauge (dvc_count NewDeviceCollector) (fint 2) [''plug'']]"
    using conjunct2 [OF i] by (simp add: c n)
  ultimately show ?thesis by (intro exI [of _ ms]) (simp add: ms gauge_def)
qed

end
