(* ===== verification/Collector.thy ===== *)
theory Collector
  imports Kinds
begin

text \<open>
  The collector registry and the top-level collector, \<^verbatim>\<open>collector/collector.go\<close>: which collectors
  exist and are enabled, how the command line toggles them, which a scrape runs, and what it sends.
\<close>

text \<open>The Go interface \<^verbatim>\<open>Collector\<close>: one constructor for each implementation.\<close>

datatype collector =
    DeviceCollector deviceCollector
  | PlugCollector plugCollector
  | StripCollector stripCollector
  | BulbCollector bulbCollector
  | LightStripCollector lightStripCollector
  | DimmerCollector dimmerCollector
  | WallSwitchCollector wallSwitchCollector
  | HubCollector hubCollector

fun collector_update ::
  "(DeviceType list \<Rightarrow> DeviceType list) \<Rightarrow> collector \<Rightarrow> collect_error + scrape_result list \<Rightarrow> collect_error + metric list" where
  "collector_update range_keys (DeviceCollector c) snap = device_update range_keys c snap"
| "collector_update range_keys (PlugCollector c) snap = plug_update c snap"
| "collector_update range_keys (StripCollector c) snap = strip_update c snap"
| "collector_update range_keys (BulbCollector c) snap = bulb_update c snap"
| "collector_update range_keys (LightStripCollector c) snap = lightStrip_update c snap"
| "collector_update range_keys (DimmerCollector c) snap = dimmer_update c snap"
| "collector_update range_keys (WallSwitchCollector c) snap = wallSwitch_update c snap"
| "collector_update range_keys (HubCollector c) snap = hub_update c snap"

subsection \<open>The registry\<close>

text \<open>
  The package variables. The flag values are shared between \<^verbatim>\<open>collectorState\<close> and the flags of the
  command line, so they live in cells and \<open>cs_state\<close> holds their places. A factory gives its
  outcome.
\<close>

record collectors =
  cs_cells :: "bool list"
  cs_state :: "(string \<times> nat) list"
  cs_defaults :: "(string \<times> bool) list"
  cs_factories :: "(string \<times> (unit + collector)) list"
  cs_initiated :: "(string \<times> collector) list"
  cs_forced :: "(string \<times> bool) list"

definition no_collectors :: collectors where
  "no_collectors =
     \<lparr>cs_cells = [], cs_state = [], cs_defaults = [], cs_factories = [], cs_initiated = [], cs_forced = []\<rparr>"

definition registerCollector :: "string \<Rightarrow> bool \<Rightarrow> unit + collector \<Rightarrow> collectors \<Rightarrow> collectors" where
  "registerCollector name isDefaultEnabled factory s =
     s\<lparr>cs_cells := cs_cells s @ [isDefaultEnabled],
       cs_state := AList.update name (length (cs_cells s)) (cs_state s),
       cs_defaults := AList.update name isDefaultEnabled (cs_defaults s),
       cs_factories := AList.update name factory (cs_factories s)\<rparr>"

text \<open>The \<^verbatim>\<open>init\<close> functions, in the order of their files.\<close>

definition builtin :: "(string \<times> collector) list" where
  "builtin =
     [(''bulb'', BulbCollector NewBulbCollector), (''device'', DeviceCollector NewDeviceCollector),
      (''dimmer'', DimmerCollector NewDimmerCollector), (''hub'', HubCollector NewHubCollector),
      (''lightstrip'', LightStripCollector NewLightStripCollector), (''plug'', PlugCollector NewPlugCollector),
      (''strip'', StripCollector NewStripCollector), (''wallswitch'', WallSwitchCollector NewWallSwitchCollector)]"

definition initial_collectors :: collectors where
  "initial_collectors = foldl (\<lambda>s (name, c). registerCollector name True (Inr c) s) no_collectors builtin"

definition enabled :: "collectors \<Rightarrow> string \<Rightarrow> bool" where
  "enabled s name = (case map_of (cs_state s) name of None \<Rightarrow> False | Some a \<Rightarrow> cs_cells s ! a)"

definition DisableDefaultCollectors :: "collectors \<Rightarrow> collectors" where
  "DisableDefaultCollectors s =
     s\<lparr>cs_cells := foldl (\<lambda>cells (c, a). if map_of (cs_forced s) c = None then cells[a := False] else cells)
         (cs_cells s) (cs_state s)\<rparr>"

text \<open>What \<^verbatim>\<open>SnapshotCollectorStates\<close> saves, and the function it returns.\<close>

type_synonym saved = "(string \<times> bool) list \<times> (string \<times> bool) list"

definition save_states :: "collectors \<Rightarrow> saved" where
  "save_states s = (map (\<lambda>(name, a). (name, cs_cells s ! a)) (cs_state s), cs_forced s)"

definition restore_states :: "saved \<Rightarrow> collectors \<Rightarrow> collectors" where
  "restore_states saved s =
     s\<lparr>cs_cells := foldl (\<lambda>cells (name, b). case map_of (cs_state s) name of None \<Rightarrow> cells | Some a \<Rightarrow> cells[a := b])
         (cs_cells s) (fst saved),
       cs_forced := snd saved\<rparr>"

subsection \<open>Toggles\<close>

definition toggleTag :: "string \<Rightarrow> bool \<Rightarrow> string" where
  \<open>toggleTag collector isDefaultEnabled =
     ''name:"collector.'' @ collector @ ''" negatable:"" default:"'' @ (if isDefaultEnabled then ''true'' else ''false'')
     @ ''" help:"Enable the '' @ collector @ '' collector (default: ''
     @ (if isDefaultEnabled then ''enabled'' else ''disabled'') @ '')."''\<close>

text \<open>
  The struct \<^verbatim>\<open>newToggles\<close> assembles: for each field its tag and its cell. The cell of the state is
  the field's from then on.
\<close>

fun new_fields :: "string list \<Rightarrow> collectors \<Rightarrow> (string \<times> nat) list \<times> collectors" where
  "new_fields [] s = ([], s)"
| "new_fields (name # names) s =
     (let a = length (cs_cells s);
          tag = toggleTag name (case map_of (cs_defaults s) name of None \<Rightarrow> False | Some b \<Rightarrow> b);
          s = s\<lparr>cs_cells := cs_cells s @ [enabled s name], cs_state := AList.update name a (cs_state s)\<rparr> in
      case new_fields names s of (toggles, s) \<Rightarrow> ((tag, a) # toggles, s))"

definition newToggles :: "collectors \<Rightarrow> (string \<times> nat) list \<times> collectors" where
  "newToggles s = new_fields (sort (map fst (cs_state s))) s"

text \<open>\<^verbatim>\<open>Flags\<close>: the group built on the first call is given out on every other one.\<close>

definition Flags :: "(string \<times> nat) list option \<times> collectors \<Rightarrow> (string \<times> nat) list \<times> (string \<times> nat) list option \<times> collectors" where
  "Flags once_s =
     (case once_s of
        (Some toggles, s) \<Rightarrow> (toggles, Some toggles, s)
      | (None, s) \<Rightarrow> (case newToggles s of (toggles, s) \<Rightarrow> (toggles, Some toggles, s)))"

text \<open>
  The parsed command line: for each element of the path its flag's name, if it is a flag, and
  whether it was resolved from elsewhere.
\<close>

definition flag_prefix :: string where "flag_prefix = ''collector.''"

fun MarkForcedCollectors :: "(string option \<times> bool) list \<Rightarrow> collectors \<Rightarrow> collectors" where
  "MarkForcedCollectors [] s = s"
| "MarkForcedCollectors ((flag, resolved) # path) s =
     (case flag of
        None \<Rightarrow> MarkForcedCollectors path s
      | Some flag_name \<Rightarrow>
          if resolved \<or> \<not> has_prefix flag_name flag_prefix then MarkForcedCollectors path s
          else
          let name = drop (length flag_prefix) flag_name in
          if map_of (cs_state s) name = None then MarkForcedCollectors path s
          else MarkForcedCollectors path (s\<lparr>cs_forced := AList.update name True (cs_forced s)\<rparr>))"

subsection \<open>Choosing collectors\<close>

datatype create_error = MissingCollector string | Disabled string | FactoryFailed

fun check_filters :: "collectors \<Rightarrow> string list \<Rightarrow> create_error option" where
  "check_filters s [] = None"
| "check_filters s (name # names) =
     (case map_of (cs_state s) name of
        None \<Rightarrow> Some (MissingCollector name)
      | Some a \<Rightarrow> if \<not> cs_cells s ! a then Some (Disabled name) else check_filters s names)"

text \<open>The loop over the state, in the order of the keys given, with the collectors found so far.\<close>

fun build_collectors ::
  "string list \<Rightarrow> string list \<Rightarrow> (string \<times> collector) list \<Rightarrow> collectors
     \<Rightarrow> (create_error + (string \<times> collector) list) \<times> collectors" where
  "build_collectors filters [] found s = (Inr found, s)"
| "build_collectors filters (key # keys) found s =
     (if \<not> enabled s key \<or> filters \<noteq> [] \<and> key \<notin> set filters then build_collectors filters keys found s
      else
      case map_of (cs_initiated s) key of
        Some c \<Rightarrow> build_collectors filters keys (AList.update key c found) s
      | None \<Rightarrow>
          (case map_of (cs_factories s) key of
             Some (Inr c) \<Rightarrow> build_collectors filters keys (AList.update key c found)
               (s\<lparr>cs_initiated := AList.update key c (cs_initiated s)\<rparr>)
           | _ \<Rightarrow> (Inl FactoryFailed, s)))"

text \<open>\<open>range_names\<close> is the order in which Go ranges over the keys of \<^verbatim>\<open>collectorState\<close>.\<close>

definition NewKasaCollector ::
  "(string list \<Rightarrow> string list) \<Rightarrow> string list \<Rightarrow> collectors
     \<Rightarrow> (create_error + (string \<times> collector) list) \<times> collectors" where
  "NewKasaCollector range_names filters s =
     (case check_filters s filters of
        Some e \<Rightarrow> (Inl e, s)
      | None \<Rightarrow> build_collectors filters (range_names (map fst (cs_state s))) [] s)"

subsection \<open>Collecting\<close>

definition scrapeDurationDesc :: desc where
  "scrapeDurationDesc = new_desc ''scrape'' ''collector_duration_seconds'' [''collector'']"

definition scrapeSuccessDesc :: desc where
  "scrapeSuccessDesc = new_desc ''scrape'' ''collector_success'' [''collector'']"

definition Describe :: "desc list" where
  "Describe = [scrapeDurationDesc, scrapeSuccessDesc]"

text \<open>\<^verbatim>\<open>Duration.Seconds\<close> of a number of nanoseconds.\<close>

definition duration_seconds :: "int \<Rightarrow> float64" where
  "duration_seconds d = fadd (fint (d sdiv 1000000000)) (fdiv (fint (d smod 1000000000)) (fint 1000000000))"

definition IsNoDataError :: "collect_error \<Rightarrow> bool" where
  "IsNoDataError e \<longleftrightarrow> e = NoData"

text \<open>One collector's run: its duration and what the registry gave it.\<close>

record run =
  rn_duration :: int
  rn_snapshot :: "collect_error + scrape_result list"

definition execute ::
  "(DeviceType list \<Rightarrow> DeviceType list) \<Rightarrow> string \<Rightarrow> collector \<Rightarrow> run \<Rightarrow> metric list" where
  "execute range_keys name c r =
     (let (sent, success) = (case collector_update range_keys c (rn_snapshot r) of
          Inl _ \<Rightarrow> ([], fint 0) | Inr ms \<Rightarrow> (ms, fint 1)) in
      sent @ [gauge scrapeDurationDesc (duration_seconds (rn_duration r)) [name], gauge scrapeSuccessDesc success [name]])"

text \<open>Goroutines that send on one channel: each sends its metrics in order, in any interleaving.\<close>

inductive sends :: "metric list list \<Rightarrow> metric list \<Rightarrow> bool" where
  all_sent: "list_all (\<lambda>q. q = []) qs \<Longrightarrow> sends qs []"
| one_sends: "i < length qs \<Longrightarrow> qs ! i = m # q \<Longrightarrow> sends (qs[i := q]) ms \<Longrightarrow> sends qs (m # ms)"

definition KasaCollector_Collect ::
  "(DeviceType list \<Rightarrow> DeviceType list) \<Rightarrow> (string \<times> collector) list \<Rightarrow> (string \<Rightarrow> run) \<Rightarrow> metric list \<Rightarrow> bool" where
  "KasaCollector_Collect range_keys cs runs ms \<longleftrightarrow> sends (map (\<lambda>(name, c). execute range_keys name c (runs name)) cs) ms"

subsection \<open>The registry is consistent\<close>

text \<open>
  Every collector of the program, and no other, is in the state, with a cell of its own and its
  factory; what was initiated came from it.
\<close>

definition state_ok :: "collectors \<Rightarrow> bool" where
  "state_ok s \<longleftrightarrow>
     distinct (map fst (cs_state s)) \<and> set (map fst (cs_state s)) = set (map fst builtin)
     \<and> distinct (map snd (cs_state s)) \<and> list_all (\<lambda>a. a < length (cs_cells s)) (map snd (cs_state s))
     \<and> map_of (cs_factories s) = map_option Inr \<circ> map_of builtin
     \<and> map_of (cs_initiated s) \<subseteq>\<^sub>m map_of builtin"

lemma distinct_builtin [simp]: "distinct (map fst builtin)"
  by (simp add: builtin_def)

lemma initial_state_ok: "state_ok initial_collectors"
proof -
  have e: "initial_collectors = \<lparr>cs_cells = map (\<lambda>_. True) builtin, cs_state = zip (map fst builtin) [0..<8],
      cs_defaults = map (\<lambda>(n, _). (n, True)) builtin, cs_factories = map (\<lambda>(n, c). (n, Inr c)) builtin,
      cs_initiated = [], cs_forced = []\<rparr>"
    by (simp add: initial_collectors_def builtin_def no_collectors_def registerCollector_def upt_rec)
  have "map_of (map (\<lambda>(n, c). (n, Inr c)) xs) = map_option Inr \<circ> map_of xs" for xs :: "(string \<times> collector) list"
    by (induction xs) (auto simp: fun_eq_iff)
  then show ?thesis
    by (simp add: e state_ok_def) (simp add: builtin_def upt_rec)
qed

lemma initial_enabled: "enabled initial_collectors name \<longleftrightarrow> name \<in> set (map fst builtin)"
  by (simp add: enabled_def initial_collectors_def builtin_def no_collectors_def registerCollector_def)

lemma state_cells:
  "state_ok s \<Longrightarrow> map_of (cs_state s) name = Some a \<Longrightarrow> a < length (cs_cells s)"
  "state_ok s \<Longrightarrow> map_of (cs_state s) name = Some a \<Longrightarrow> map_of (cs_state s) name' = Some a \<Longrightarrow> name = name'"
  unfolding state_ok_def list_all_iff distinct_map
  by (auto dest!: map_of_SomeD) (metis inj_onD prod.inject snd_conv)

lemma state_names: "state_ok s \<Longrightarrow> map_of (cs_state s) name \<noteq> None \<longleftrightarrow> name \<in> set (map fst builtin)"
  by (simp add: state_ok_def map_of_eq_None_iff)

text \<open>Writing cells by name: each at its own address.\<close>

lemma foldl_cells:
  assumes "distinct (map snd xs)"
  shows "length (foldl (\<lambda>cells (c, a). if P c then cells[a := False] else cells) cells xs) = length cells"
    and "\<And>c a. (c, a) \<in> set xs \<Longrightarrow> a < length cells \<Longrightarrow>
      foldl (\<lambda>cells (c, a). if P c then cells[a := False] else cells) cells xs ! a = (cells ! a \<and> \<not> P c)"
proof -
  have l: "length (foldl (\<lambda>cells (c, a). if P c then cells[a := False] else cells) cells xs) = length cells" for cells xs
    by (induction xs arbitrary: cells) auto
  show "length (foldl (\<lambda>cells (c, a). if P c then cells[a := False] else cells) cells xs) = length cells" by (rule l)
  have other: "a \<notin> snd ` set xs \<Longrightarrow> foldl (\<lambda>cells (c, a). if P c then cells[a := False] else cells) cells xs ! a = cells ! a"
    for a cells and xs :: "('a \<times> nat) list"
  proof (induction xs arbitrary: cells)
    case (Cons x xs)
    then show ?case by (cases x) (auto simp: nth_list_update)
  qed simp
  show "foldl (\<lambda>cells (c, a). if P c then cells[a := False] else cells) cells xs ! a = (cells ! a \<and> \<not> P c)"
    if "(c, a) \<in> set xs" "a < length cells" for c a
    using that assms
  proof (induction xs arbitrary: cells)
    case (Cons x xs)
    obtain c' a' where x: "x = (c', a')" by fastforce
    show ?case
    proof (cases "x = (c, a)")
      case True
      then show ?thesis using Cons.prems by (auto simp: other image_iff)
    next
      case False
      then have xs: "(c, a) \<in> set xs" using Cons.prems(1) by simp
      then have "a' \<noteq> a" using Cons.prems(3) x by force
      then show ?thesis
        using Cons.IH [of "if P c' then cells[a' := False] else cells"] xs Cons.prems(2,3) by (simp add: x)
    qed
  qed simp
qed

lemma disable_ok:
  assumes "state_ok s"
  shows "state_ok (DisableDefaultCollectors s)"
    and "enabled (DisableDefaultCollectors s) name \<longleftrightarrow> enabled s name \<and> map_of (cs_forced s) name \<noteq> None"
proof -
  have d: "distinct (map snd (cs_state s))" using assms by (simp add: state_ok_def)
  note f = foldl_cells [OF d, where P = "\<lambda>c. map_of (cs_forced s) c = None"]
  show "state_ok (DisableDefaultCollectors s)"
    using assms by (simp add: state_ok_def DisableDefaultCollectors_def f(1))
  show "enabled (DisableDefaultCollectors s) name \<longleftrightarrow> enabled s name \<and> map_of (cs_forced s) name \<noteq> None"
  proof (cases "map_of (cs_state s) name")
    case (Some a)
    then show ?thesis
      using f(2) [OF map_of_SomeD [OF Some] state_cells(1) [OF assms Some]]
      by (simp add: enabled_def DisableDefaultCollectors_def)
  qed (simp add: enabled_def DisableDefaultCollectors_def)
qed

lemma mark_forced:
  "map_of (cs_forced (MarkForcedCollectors path s)) name \<noteq> None \<longleftrightarrow>
     map_of (cs_forced s) name \<noteq> None
     \<or> (Some (flag_prefix @ name), False) \<in> set path \<and> map_of (cs_state s) name \<noteq> None"
  "\<exists>forced. MarkForcedCollectors path s = s\<lparr>cs_forced := forced\<rparr>"
proof -
  have p: "has_prefix f flag_prefix \<Longrightarrow> f = flag_prefix @ drop (length flag_prefix) f" for f
    unfolding has_prefix_def by (metis append_take_drop_id)
  have q: "has_prefix (flag_prefix @ n) flag_prefix" for n by (simp add: has_prefix_def)
  have "(map_of (cs_forced (MarkForcedCollectors path s)) name \<noteq> None \<longleftrightarrow>
     map_of (cs_forced s) name \<noteq> None
     \<or> (Some (flag_prefix @ name), False) \<in> set path \<and> map_of (cs_state s) name \<noteq> None)
     \<and> (\<exists>forced. MarkForcedCollectors path s = s\<lparr>cs_forced := forced\<rparr>)"
  proof (induction path s rule: MarkForcedCollectors.induct)
    case (1 s)
    show ?case by (auto intro: exI [of _ "cs_forced s"])
  next
    case (2 flag resolved path s)
    show ?case
    proof (cases "flag = None \<or> resolved \<or> \<not> has_prefix (the flag) flag_prefix
        \<or> map_of (cs_state s) (drop (length flag_prefix) (the flag)) = None")
      case True
      then show ?thesis using 2 p q by (auto split: option.splits simp: Let_def)
    next
      case False
      then show ?thesis using 2(4) p q
        by (auto split: option.splits simp: Let_def update_conv')
    qed
  qed
  then show "map_of (cs_forced (MarkForcedCollectors path s)) name \<noteq> None \<longleftrightarrow>
     map_of (cs_forced s) name \<noteq> None
     \<or> (Some (flag_prefix @ name), False) \<in> set path \<and> map_of (cs_state s) name \<noteq> None"
    "\<exists>forced. MarkForcedCollectors path s = s\<lparr>cs_forced := forced\<rparr>" by blast+
qed

subsection \<open>Toggles drive the state\<close>

lemma snd_update:
  "snd ` set (AList.update k a xs) \<subseteq> insert a (snd ` set xs)"
  "a \<notin> snd ` set xs \<Longrightarrow> distinct (map snd xs) \<Longrightarrow> distinct (map snd (AList.update k a xs))"
proof -
  show sub: "snd ` set (AList.update k a xs) \<subseteq> insert a (snd ` set xs)" for xs
    by (induction xs) auto
  show "a \<notin> snd ` set xs \<Longrightarrow> distinct (map snd xs) \<Longrightarrow> distinct (map snd (AList.update k a xs))"
  proof (induction xs)
    case (Cons x xs)
    then show ?case using sub [of xs] by (cases x) (auto simp: image_iff)
  qed simp
qed

definition fresh_cell :: "string \<Rightarrow> collectors \<Rightarrow> collectors" where
  "fresh_cell name s =
     s\<lparr>cs_cells := cs_cells s @ [enabled s name], cs_state := AList.update name (length (cs_cells s)) (cs_state s)\<rparr>"

lemma fresh_cell_ok:
  assumes "state_ok s" and "name \<in> set (map fst builtin)"
  shows "state_ok (fresh_cell name s)" and "enabled (fresh_cell name s) n = enabled s n"
proof -
  have k: "map fst (AList.update name (length (cs_cells s)) (cs_state s)) = map fst (cs_state s)"
    using assms by (simp add: update_keys state_ok_def)
  have "length (cs_cells s) \<notin> snd ` set (cs_state s)" using assms(1) by (auto simp: state_ok_def list_all_iff)
  then have d: "distinct (map snd (AList.update name (length (cs_cells s)) (cs_state s)))"
    by (rule snd_update(2)) (use assms(1) in \<open>simp add: state_ok_def\<close>)
  have l: "\<forall>a \<in> snd ` set (AList.update name (length (cs_cells s)) (cs_state s)). a < Suc (length (cs_cells s))"
    using assms(1) snd_update(1) [of name "length (cs_cells s)" "cs_state s"] by (fastforce simp: state_ok_def list_all_iff)
  show "state_ok (fresh_cell name s)"
    using assms(1) k d l unfolding state_ok_def fresh_cell_def by (simp add: list_all_iff)
  show "enabled (fresh_cell name s) n = enabled s n"
    using state_cells(1) [OF assms(1)]
    by (auto simp: enabled_def fresh_cell_def update_conv' nth_append split: option.splits)
qed

lemma new_fields_ok:
  assumes "state_ok s" and "set names \<subseteq> set (map fst builtin)" and "distinct names"
    and "new_fields names s = (flags, s')"
  shows "state_ok s' \<and> (\<forall>n. enabled s' n = enabled s n) \<and> cs_forced s' = cs_forced s
    \<and> map fst flags = map (\<lambda>n. toggleTag n (case map_of (cs_defaults s) n of None \<Rightarrow> False | Some b \<Rightarrow> b)) names
    \<and> (\<forall>i < length names. map_of (cs_state s') (names ! i) = Some (snd (flags ! i)))
    \<and> (\<forall>n. n \<notin> set names \<longrightarrow> map_of (cs_state s') n = map_of (cs_state s) n)"
  using assms
proof (induction names arbitrary: s flags)
  case (Cons name names)
  obtain more where f: "new_fields names (fresh_cell name s) = (more, s')"
      "flags = (toggleTag name (case map_of (cs_defaults s) name of None \<Rightarrow> False | Some b \<Rightarrow> b), length (cs_cells s)) # more"
    using Cons.prems(4) by (auto simp: Let_def fresh_cell_def split: prod.splits)
  have k: "name \<in> set (map fst builtin)" "set names \<subseteq> set (map fst builtin)" "distinct names" "name \<notin> set names"
    using Cons.prems(2,3) by auto
  note fc = fresh_cell_ok [OF Cons.prems(1) k(1)]
  note IH = Cons.IH [OF fc(1) k(2,3) f(1)]
  have c: "cs_defaults (fresh_cell name s) = cs_defaults s" "cs_forced (fresh_cell name s) = cs_forced s"
      "map_of (cs_state (fresh_cell name s)) = (map_of (cs_state s))(name \<mapsto> length (cs_cells s))"
    by (simp_all add: fresh_cell_def update_conv')
  have "map_of (cs_state s') ((name # names) ! i) = Some (snd (flags ! i))" if "i < length (name # names)" for i
    using IH that k(4) by (cases i) (auto simp: f(2) c)
  then show ?case using IH fc(2) by (simp add: f(2) c)
qed simp

lemma newToggles_ok:
  assumes "state_ok s" and "newToggles s = (flags, s')"
  shows "state_ok s'" and "enabled s' n = enabled s n" and "cs_forced s' = cs_forced s"
    and "map fst flags = map (\<lambda>n. toggleTag n (case map_of (cs_defaults s) n of None \<Rightarrow> False | Some b \<Rightarrow> b))
          (sort (map fst (cs_state s)))"
    and "i < length (cs_state s) \<Longrightarrow> map_of (cs_state s') (sort (map fst (cs_state s)) ! i) = Some (snd (flags ! i))"
proof -
  have "set (sort (map fst (cs_state s))) \<subseteq> set (map fst builtin)" "distinct (sort (map fst (cs_state s)))"
    using assms(1) by (simp_all add: state_ok_def)
  note n = new_fields_ok [OF assms(1) this assms(2) [unfolded newToggles_def]]
  show "state_ok s'" "enabled s' n = enabled s n" "cs_forced s' = cs_forced s"
    "map fst flags = map (\<lambda>n. toggleTag n (case map_of (cs_defaults s) n of None \<Rightarrow> False | Some b \<Rightarrow> b))
          (sort (map fst (cs_state s)))"
    using n by auto
  show "i < length (cs_state s) \<Longrightarrow> map_of (cs_state s') (sort (map fst (cs_state s)) ! i) = Some (snd (flags ! i))"
    using n by simp
qed

subsection \<open>Choosing\<close>

lemma check_filters_None:
  "check_filters s fs = None \<longleftrightarrow> list_all (enabled s) fs"
  by (induction fs) (auto simp: enabled_def split: option.splits)

lemma check_filters_Some:
  "check_filters s fs = Some e \<Longrightarrow>
    (\<exists>f \<in> set fs. e = MissingCollector f \<and> map_of (cs_state s) f = None)
    \<or> (\<exists>f \<in> set fs. e = Disabled f \<and> map_of (cs_state s) f \<noteq> None \<and> \<not> enabled s f)"
  by (induction fs) (auto simp: enabled_def split: option.splits if_splits)

definition chosen :: "collectors \<Rightarrow> string list \<Rightarrow> string \<Rightarrow> bool" where
  "chosen s filters name \<longleftrightarrow> enabled s name \<and> (filters = [] \<or> name \<in> set filters)"

lemma build_collectors_ok:
  assumes "state_ok s" and "set keys \<subseteq> set (map fst builtin)" and "distinct (map fst found)"
  shows "\<exists>cs initiated. build_collectors filters keys found s = (Inr cs, s\<lparr>cs_initiated := initiated\<rparr>)
    \<and> state_ok (s\<lparr>cs_initiated := initiated\<rparr>) \<and> distinct (map fst cs)
    \<and> map_of cs = map_of found ++ (\<lambda>n. if n \<in> set keys \<and> chosen s filters n then map_of builtin n else None)"
  using assms
proof (induction keys arbitrary: found s)
  case Nil
  show ?case using Nil by (intro exI [of _ found] exI [of _ "cs_initiated s"]) (simp add: map_add_def)
next
  case (Cons key keys)
  show ?case
  proof (cases "chosen s filters key")
    case False
    then have "build_collectors filters (key # keys) found s = build_collectors filters keys found s"
      by (auto simp: chosen_def)
    moreover have "(\<lambda>n. if n \<in> set (key # keys) \<and> chosen s filters n then map_of builtin n else None)
        = (\<lambda>n. if n \<in> set keys \<and> chosen s filters n then map_of builtin n else None)"
      using False by auto
    ultimately show ?thesis using Cons.IH [OF Cons.prems(1)] Cons.prems(2,3) by simp
  next
    case True
    obtain c where c: "map_of builtin key = Some c" using Cons.prems(2) by (metis list.set_intros(1) map_of_eq_None_iff not_None_eq subset_iff set_map)
    have fac: "map_of (cs_factories s) key = Some (Inr c)" using Cons.prems(1) c by (simp add: state_ok_def)
    have ini: "map_of (cs_initiated s) key = Some c" if "map_of (cs_initiated s) key \<noteq> None"
      using Cons.prems(1) c that by (auto simp: state_ok_def map_le_def dom_def)
    define i1 where "i1 = (if map_of (cs_initiated s) key = None then AList.update key c (cs_initiated s) else cs_initiated s)"
    have st: "build_collectors filters (key # keys) found s
        = build_collectors filters keys (AList.update key c found) (s\<lparr>cs_initiated := i1\<rparr>)"
      using True fac ini by (auto simp: chosen_def i1_def split: option.split)
    have "map_of i1 \<subseteq>\<^sub>m map_of builtin" using Cons.prems(1) c by (auto simp: i1_def state_ok_def update_conv' map_le_def)
    then have ok: "state_ok (s\<lparr>cs_initiated := i1\<rparr>)" using Cons.prems(1) by (simp add: state_ok_def)
    have ch: "chosen (s\<lparr>cs_initiated := i1\<rparr>) filters = chosen s filters" 
      by (simp add: chosen_def enabled_def fun_eq_iff split: option.split)
    have m: "(map_of found)(key \<mapsto> c) ++ (\<lambda>n. if n \<in> set keys \<and> chosen s filters n then map_of builtin n else None)
        = map_of found ++ (\<lambda>n. if n \<in> set (key # keys) \<and> chosen s filters n then map_of builtin n else None)"
      using True c by (auto simp: fun_eq_iff map_add_def split: option.splits)
    have k: "set keys \<subseteq> set (map fst builtin)" using Cons.prems(2) by simp
    have d: "distinct (map fst (AList.update key c found))" using Cons.prems(3) by (rule distinct_update)
    obtain cs initiated where "build_collectors filters keys (AList.update key c found) (s\<lparr>cs_initiated := i1\<rparr>)
          = (Inr cs, s\<lparr>cs_initiated := i1\<rparr>\<lparr>cs_initiated := initiated\<rparr>)"
        "state_ok (s\<lparr>cs_initiated := i1\<rparr>\<lparr>cs_initiated := initiated\<rparr>)" "distinct (map fst cs)"
        "map_of cs = map_of (AList.update key c found) ++ (\<lambda>n. if n \<in> set keys \<and> chosen s filters n then map_of builtin n else None)"
      using Cons.IH [OF ok k d] unfolding ch by blast
    then show ?thesis using st m by (auto simp: update_conv')
  qed
qed

text \<open>What is relied on of Go's range over a map of names.\<close>

definition visits_names :: "(string list \<Rightarrow> string list) \<Rightarrow> bool" where
  "visits_names range_names \<longleftrightarrow> (\<forall>ks. mset (range_names ks) = mset ks)"

lemma NewKasaCollector_ok:
  assumes "state_ok s" and "visits_names range_names"
  shows "case NewKasaCollector range_names filters s of
      (Inl e, s') \<Rightarrow> s' = s \<and> check_filters s filters = Some e
    | (Inr cs, s') \<Rightarrow> (\<exists>initiated. s' = s\<lparr>cs_initiated := initiated\<rparr>) \<and> state_ok s' \<and> list_all (enabled s) filters
        \<and> distinct (map fst cs) \<and> map_of cs = (\<lambda>n. if chosen s filters n then map_of builtin n else None)"
proof (cases "check_filters s filters")
  case None
  have "mset (range_names (map fst (cs_state s))) = mset (map fst (cs_state s))" using assms(2) by (simp add: visits_names_def)
  then have "set (range_names (map fst (cs_state s))) = set (map fst (cs_state s))" by (rule mset_eq_setD)
  then have k: "set (range_names (map fst (cs_state s))) = set (map fst builtin)" using assms(1) by (simp only: state_ok_def)
  then have "set (range_names (map fst (cs_state s))) \<subseteq> set (map fst builtin)" "distinct (map fst ([] :: (string \<times> collector) list))"
    by simp_all
  from build_collectors_ok [OF assms(1) this, of filters]
  obtain cs initiated where b: "build_collectors filters (range_names (map fst (cs_state s))) [] s = (Inr cs, s\<lparr>cs_initiated := initiated\<rparr>)"
      "state_ok (s\<lparr>cs_initiated := initiated\<rparr>)" "distinct (map fst cs)"
      "map_of cs = map_of [] ++ (\<lambda>n. if n \<in> set (range_names (map fst (cs_state s))) \<and> chosen s filters n then map_of builtin n else None)"
    by blast
  have "(\<lambda>n. if n \<in> set (map fst builtin) \<and> chosen s filters n then map_of builtin n else None)
      = (\<lambda>n. if chosen s filters n then map_of builtin n else None)"
  proof
    fix n
    show "(if n \<in> set (map fst builtin) \<and> chosen s filters n then map_of builtin n else None)
        = (if chosen s filters n then map_of builtin n else None)"
      using map_of_eq_None_iff [of builtin n] by (cases "n \<in> set (map fst builtin)") simp_all
  qed
  then have "map_of cs = (\<lambda>n. if chosen s filters n then map_of builtin n else None)" using b(4) by (simp add: k)
  then show ?thesis using b(1-3) None check_filters_None [of s filters] by (auto simp: NewKasaCollector_def)
qed (simp add: NewKasaCollector_def)

subsection \<open>What a scrape sends\<close>

lemma sends_mset: "sends qs ms \<Longrightarrow> mset ms = mset (concat qs)"
proof (induction rule: sends.induct)
  case (all_sent qs)
  then show ?case by (induction qs) auto
next
  case (one_sends i qs m q ms)
  have "concat qs = concat (take i qs) @ (m # q) @ concat (drop (Suc i) qs)"
    using one_sends(1,2) by (metis concat.simps(2) concat_append id_take_nth_drop)
  moreover have "concat (qs[i := q]) = concat (take i qs) @ q @ concat (drop (Suc i) qs)"
    using one_sends(1) by (simp add: upd_conv_take_nth_drop)
  ultimately show ?case using one_sends.IH by simp
qed

text \<open>
  The collector a series comes from: the \<^verbatim>\<open>scrape\<close> metrics name it, the device collector's have
  names of their own, and the others are of a host whose reading is of the collector's kind.
\<close>

definition kind_at :: "scrape_result list \<Rightarrow> string \<Rightarrow> DeviceType option" where
  "kind_at results host = map_option rd_Type (Option.bind (find (\<lambda>x. re_Host x = host) results) re_Reading)"

definition owner :: "scrape_result list \<Rightarrow> (string \<times> string) \<times> string list \<Rightarrow> string" where
  "owner results s =
     (case s of ((subsystem, name), labels) \<Rightarrow>
      if subsystem = ''scrape'' then hd labels
      else if subsystem = ''device'' \<or> name = ''devices'' then ''device''
      else (case kind_at results (hd labels) of None \<Rightarrow> [] | Some t \<Rightarrow> type_name t))"

lemma kind_at_reading:
  assumes "snapshot_ok results" and "r \<in> set (readings_of results k)"
  shows "kind_at results (rd_Host r) = Some k"
proof -
  obtain x where x: "x \<in> set results" "re_Reading x = Some r" "rd_Type r = k" using assms(2) by (auto simp: in_readings_of)
  have h: "re_Host x = rd_Host r" using snapshot_reading [OF assms(1) x(1,2)] by simp
  have "find (\<lambda>y. re_Host y = rd_Host r) results = Some x"
  proof (cases "find (\<lambda>y. re_Host y = rd_Host r) results")
    case None
    then show ?thesis using x(1) h by (auto simp: find_None_iff)
  next
    case (Some y)
    then have "y \<in> set results" "re_Host y = re_Host x" using h by (auto simp: find_Some_iff in_set_conv_nth)
    then show ?thesis using snapshot_unique [OF assms(1) _ x(1)] Some by simp
  qed
  then show ?thesis using x by (simp add: kind_at_def)
qed

definition other_name :: "string \<times> string \<Rightarrow> bool" where
  "other_name n \<longleftrightarrow> fst n \<noteq> ''scrape'' \<and> fst n \<noteq> ''device'' \<and> snd n \<noteq> ''devices''"

lemma kind_names_other:
  "list_all other_name plug_names" "list_all other_name wallSwitch_names" "list_all other_name bulb_names"
  "list_all other_name dimmer_names" "list_all other_name lightStrip_names" "list_all other_name strip_names"
  "list_all other_name hub_names"
  by (simp_all add: other_name_def plug_names_def wallSwitch_names_def bulb_names_def dimmer_names_def
      lightStrip_names_def strip_names_def strip_own_names_def socket_names_def hub_names_def child_names_def
      energy_names_def light_names_def)

context kind_collector begin

lemma update_owner:
  assumes "list_all other_name names" and "snapshot_ok results"
    and "kind_update kind emit (Inr results) = Inr ms" and "m \<in> set ms"
  shows "owner results (series m) = type_name kind"
proof -
  obtain r where r: "r \<in> set (readings_of results kind)" "take 2 (mt_labels m) = labelsFor r"
    using update_labels [OF assms(3,4)] by blast
  have "hd (mt_labels m) = rd_Host r" using r(2) by (metis hd_take labelsFor_def list.sel(1) zero_less_numeral)
  moreover have "other_name (metric_name m)" using update_names [OF assms(3,4)] assms(1) by (simp add: list_all_iff)
  ultimately show ?thesis
    using kind_at_reading [OF assms(2) r(1)]
    by (cases "metric_name m") (simp add: owner_def series_def other_name_def)
qed

end

definition all_names :: "(string \<times> string) list" where
  "all_names = [(''scrape'', ''collector_duration_seconds''), (''scrape'', ''collector_success''), ([], ''devices'')]
     @ device_names @ bulb_names @ [(''dimmer'', ''on''), (''dimmer'', ''brightness_percent'')] @ hub_names
     @ light_names ''lightstrip'' True @ [(''lightstrip'', ''length''), (''plug'', ''on'')]
     @ [(''strip'', ''on''), (''strip'', ''sockets'')] @ socket_names @ [(''wallswitch'', ''on'')]"

lemma names_in_all:
  "set plug_names \<subseteq> set all_names" "set wallSwitch_names \<subseteq> set all_names" "set bulb_names \<subseteq> set all_names"
  "set dimmer_names \<subseteq> set all_names" "set lightStrip_names \<subseteq> set all_names" "set strip_names \<subseteq> set all_names"
  "set hub_names \<subseteq> set all_names" "set device_names \<subseteq> set all_names"
  by (auto simp: all_names_def plug_names_def wallSwitch_names_def bulb_names_def dimmer_names_def
      lightStrip_names_def strip_names_def strip_own_names_def light_names_def)

context kind_collector begin

lemma update_facts:
  assumes "set names \<subseteq> set all_names" and "list_all other_name names" and "snapshot_ok results"
    and "\<And>x r. x \<in> set results \<Longrightarrow> re_Reading x = Some r \<Longrightarrow> parts_distinct r"
    and "kind_update kind emit (Inr results) = Inr ms"
  shows "distinct (map series ms) \<and> list_all (\<lambda>m. owner results (series m) = type_name kind \<and> metric_name m \<in> set all_names
    \<and> fst (metric_name m) \<noteq> ''scrape'') ms"
  using update_distinct [OF assms(5,3,4)] update_owner [OF assms(2,3,5)] update_names [OF assms(5)] assms(1,2)
  by (auto simp: list_all_iff other_name_def)

end

lemma builtin_cases:
  "(name, c) \<in> set builtin \<Longrightarrow>
      (name, c) = (''bulb'', BulbCollector NewBulbCollector) \<or> (name, c) = (''device'', DeviceCollector NewDeviceCollector)
      \<or> (name, c) = (''dimmer'', DimmerCollector NewDimmerCollector) \<or> (name, c) = (''hub'', HubCollector NewHubCollector)
      \<or> (name, c) = (''lightstrip'', LightStripCollector NewLightStripCollector) \<or> (name, c) = (''plug'', PlugCollector NewPlugCollector)
      \<or> (name, c) = (''strip'', StripCollector NewStripCollector) \<or> (name, c) = (''wallswitch'', WallSwitchCollector NewWallSwitchCollector)"
  by (auto simp: builtin_def)

lemma collector_update_facts:
  assumes "(name, c) \<in> set builtin" and "visits_once range_keys" and "snapshot_ok results"
    and "\<And>x r. x \<in> set results \<Longrightarrow> re_Reading x = Some r \<Longrightarrow> parts_distinct r"
    and "collector_update range_keys c (Inr results) = Inr ms"
  shows "distinct (map series ms) \<and> list_all (\<lambda>m. owner results (series m) = name \<and> metric_name m \<in> set all_names
    \<and> fst (metric_name m) \<noteq> ''scrape'') ms"
proof -
  have "distinct (map series ms) \<and> list_all (\<lambda>m. owner results (series m) = ''device'' \<and> metric_name m \<in> set all_names
    \<and> fst (metric_name m) \<noteq> ''scrape'') ms" if d: "device_update range_keys NewDeviceCollector (Inr results) = Inr ms"
  proof -
    note f = device_update_facts [OF assms(2) d assms(3)]
    have "owner results (series m) = ''device'' \<and> metric_name m \<in> set all_names \<and> fst (metric_name m) \<noteq> ''scrape''"
      if "m \<in> set ms" for m
      using f(2) [OF that] by (auto simp: owner_def series_def device_names_def all_names_def)
    then show ?thesis using f(1) by (simp add: list_all_iff)
  qed
  note dev = this
  note kinds = plug.update_facts [OF names_in_all(1) kind_names_other(1) assms(3,4)]
    wallSwitch.update_facts [OF names_in_all(2) kind_names_other(2) assms(3,4)]
    bulb.update_facts [OF names_in_all(3) kind_names_other(3) assms(3,4)]
    dimmer.update_facts [OF names_in_all(4) kind_names_other(4) assms(3,4)]
    lightStrip.update_facts [OF names_in_all(5) kind_names_other(5) assms(3,4)]
    strip.update_facts [OF names_in_all(6) kind_names_other(6) assms(3,4)]
    hub.update_facts [OF names_in_all(7) kind_names_other(7) assms(3,4)]
  show ?thesis
    using builtin_cases [OF assms(1)] assms(5)
    by (elim disjE)
      (simp_all add: kinds [unfolded type_name_def, simplified] dev plug_update_def wallSwitch_update_def bulb_update_def
        dimmer_update_def lightStrip_update_def strip_update_def hub_update_def)
qed

lemmas update_defs = plug_update_def wallSwitch_update_def bulb_update_def dimmer_update_def lightStrip_update_def
  strip_update_def hub_update_def

text \<open>All texts of a snapshot that become labels are valid UTF-8.\<close>

definition snapshot_text :: "scrape_result list \<Rightarrow> bool" where
  "snapshot_text results \<longleftrightarrow> list_all (\<lambda>x. valid_utf8 (re_Host x) \<and> valid_utf8 (re_Alias x)
     \<and> (case re_Reading x of None \<Rightarrow> True | Some r \<Rightarrow> reading_text r)) results"

lemma snapshot_text_reading: "snapshot_text results \<Longrightarrow> x \<in> set results \<Longrightarrow> re_Reading x = Some r \<Longrightarrow> reading_text r"
  by (fastforce simp: snapshot_text_def list_all_iff split: option.splits)

lemma collector_update_ok:
  assumes "(name, c) \<in> set builtin" and "visits_once range_keys" and "snapshot_ok results" and "snapshot_text results"
    and "collector_update range_keys c (Inr results) = Inr ms" and "m \<in> set ms"
  shows "metric_ok m"
proof -
  note t = snapshot_text_reading [OF assms(4)]
  have "metric_ok m" if "device_update range_keys NewDeviceCollector (Inr results) = Inr ms"
    using device_update_facts(3) [OF assms(2) that assms(3,6)] assms(4) by (simp add: snapshot_text_def list_all_iff)
  moreover have "metric_ok m" if "kind_update kind emit (Inr results) = Inr ms" "kind_collector emit names" for kind emit names
    by (rule kind_collector.update_ok [OF that(2,1) assms(6) t])
  ultimately show ?thesis
    using builtin_cases [OF assms(1)] assms(5) plug.kind_collector_axioms wallSwitch.kind_collector_axioms bulb.kind_collector_axioms
      dimmer.kind_collector_axioms lightStrip.kind_collector_axioms strip.kind_collector_axioms hub.kind_collector_axioms
    by (elim disjE) (simp_all add: update_defs)
qed

lemma scrape_desc_simps [simp]:
  "ds_subsystem scrapeDurationDesc = ''scrape''" "ds_name scrapeDurationDesc = ''collector_duration_seconds''"
  "ds_labels scrapeDurationDesc = [''collector'']" "ds_subsystem scrapeSuccessDesc = ''scrape''"
  "ds_name scrapeSuccessDesc = ''collector_success''" "ds_labels scrapeSuccessDesc = [''collector'']"
  by (simp_all add: scrapeDurationDesc_def scrapeSuccessDesc_def)

lemma execute_facts:
  assumes "(name, c) \<in> set builtin" and "visits_once range_keys" and "snapshot_ok results"
    and "\<And>x r. x \<in> set results \<Longrightarrow> re_Reading x = Some r \<Longrightarrow> parts_distinct r"
    and "rn_snapshot r = Inr results"
  shows "distinct (map series (execute range_keys name c r))"
    and "m \<in> set (execute range_keys name c r) \<Longrightarrow> owner results (series m) = name \<and> metric_name m \<in> set all_names"
proof -
  define sent where "sent = (case collector_update range_keys c (Inr results) of Inl _ \<Rightarrow> [] | Inr ms \<Rightarrow> ms)"
  obtain success where e: "execute range_keys name c r = sent
      @ [gauge scrapeDurationDesc (duration_seconds (rn_duration r)) [name], gauge scrapeSuccessDesc success [name]]"
    by (cases "collector_update range_keys c (Inr results)") (simp_all add: execute_def assms(5) sent_def Let_def)
  have f: "distinct (map series sent) \<and> list_all (\<lambda>m. owner results (series m) = name \<and> metric_name m \<in> set all_names
      \<and> fst (metric_name m) \<noteq> ''scrape'') sent"
    using collector_update_facts [OF assms(1-4)] by (cases "collector_update range_keys c (Inr results)") (auto simp: sent_def)
  show "m \<in> set (execute range_keys name c r) \<Longrightarrow> owner results (series m) = name \<and> metric_name m \<in> set all_names"
    using f by (auto simp: e owner_def series_def list_all_iff all_names_def)
  have "fst (fst s) \<noteq> ''scrape''" if "s \<in> series ` set sent" for s
    using f that by (auto simp: series_def list_all_iff)
  then have "((''scrape'', n), l) \<notin> series ` set sent" for n l by fastforce
  then show "distinct (map series (execute range_keys name c r))"
    using f by (simp add: e) (simp add: series_def)
qed

lemma execute_ok:
  assumes "(name, c) \<in> set builtin" and "visits_once range_keys" and "snapshot_ok results" and "snapshot_text results"
    and "rn_snapshot r = Inr results" and "m \<in> set (execute range_keys name c r)"
  shows "metric_ok m"
proof -
  have "valid_utf8 name" using assms(1) by (auto simp: builtin_def decode_rune_def)
  then show ?thesis
    using collector_update_ok [OF assms(1-4)] assms(6)
    by (cases "collector_update range_keys c (Inr results)")
      (auto simp: execute_def assms(5) metric_ok_def gauge_def Let_def)
qed

lemma collected_mset:
  "KasaCollector_Collect range_keys cs runs ms \<Longrightarrow>
    mset ms = mset (concat (map (\<lambda>(name, c). execute range_keys name c (runs name)) cs))"
  using sends_mset by (simp add: KasaCollector_Collect_def)

lemma collected_ok:
  assumes "set cs \<subseteq> set builtin" and "visits_once range_keys" and "snapshot_ok results" and "snapshot_text results"
    and "\<And>name. rn_snapshot (runs name) = Inr results" and "KasaCollector_Collect range_keys cs runs ms" and "m \<in> set ms"
  shows "metric_ok m"
proof -
  obtain name c where "(name, c) \<in> set cs" "m \<in> set (execute range_keys name c (runs name))"
    using mset_eq_setD [OF collected_mset [OF assms(6)]] assms(7) by auto
  then show ?thesis using execute_ok [OF _ assms(2-5)] assms(1) by blast
qed

lemma collected_facts:
  assumes "set cs \<subseteq> set builtin" and "distinct (map fst cs)" and "visits_once range_keys" and "snapshot_ok results"
    and "\<And>x r. x \<in> set results \<Longrightarrow> re_Reading x = Some r \<Longrightarrow> parts_distinct r"
    and "\<And>name. rn_snapshot (runs name) = Inr results" and "KasaCollector_Collect range_keys cs runs ms"
  shows "distinct (map series ms)" and "m \<in> set ms \<Longrightarrow> metric_name m \<in> set all_names"
proof -
  define f where "f = (\<lambda>(name, c). execute range_keys name c (runs name))"
  have m: "mset ms = mset (concat (map f cs))"
    using collected_mset [OF assms(7)] by (simp add: f_def)
  then have set: "set ms = set (concat (map f cs))" by (rule mset_eq_setD)
  have c: "(fst x, snd x) \<in> set builtin" if "x \<in> set cs" for x using assms(1) that by auto
  note ex = execute_facts [OF c assms(3-6)]
  show "m \<in> set ms \<Longrightarrow> metric_name m \<in> set all_names"
    using ex(2) by (auto simp: set f_def)
  have "distinct (map series (concat (map f cs)))"
    using ex(1,2) assms(2)
    by (intro distinct_parts [where key = fst and k = "owner results"]) (auto simp: f_def split: prod.splits)
  moreover have "mset (map series ms) = mset (map series (concat (map f cs)))" by (simp add: m)
  ultimately show "distinct (map series ms)" using mset_eq_imp_distinct_iff by blast
qed

text \<open>How \<^verbatim>\<open>BuildFQName\<close> is documented to name a metric: the parts joined by underscores, empty ones left out.\<close>

definition fq_documented :: "(string \<Rightarrow> string \<Rightarrow> string \<Rightarrow> string) \<Rightarrow> bool" where
  "fq_documented build \<longleftrightarrow> (\<forall>namespace subsystem name. namespace \<noteq> [] \<longrightarrow> name \<noteq> [] \<longrightarrow>
     build namespace subsystem name = namespace @ ''_'' @ (if subsystem = [] then [] else subsystem @ ''_'') @ name)"

lemma full_names_distinct:
  "inj_on (\<lambda>(subsystem, name). (if subsystem = [] then [] else subsystem @ ''_'') @ name) (set all_names)"
proof -
  have "distinct (map (\<lambda>(subsystem, name). (if subsystem = [] then [] else subsystem @ ''_'') @ name) all_names)"
    by code_simp
  then show ?thesis by (simp only: distinct_map)
qed

subsection \<open>Properties\<close>

lemma chosen_builtin:
  assumes "state_ok s" and "visits_names range_names" and "NewKasaCollector range_names filters s = (Inr cs, s')"
  shows "set cs \<subseteq> set builtin" and "distinct (map fst cs)"
proof -
  have n: "distinct (map fst cs)" "map_of cs = (\<lambda>n. if chosen s filters n then map_of builtin n else None)"
    using NewKasaCollector_ok [OF assms(1,2), of filters] by (simp_all add: assms(3))
  then show "distinct (map fst cs)" by blast
  show "set cs \<subseteq> set builtin"
  proof
    fix x assume "x \<in> set cs"
    then have "map_of cs (fst x) = Some (snd x)" using n(1) by simp
    then have "map_of builtin (fst x) = Some (snd x)" by (simp add: n(2) split: if_splits)
    then show "x \<in> set builtin" using map_of_SomeD by fastforce
  qed
qed

text \<open>C1. A scrape never sends a series twice: whichever collectors are enabled and asked for, in whatever
  order their goroutines send and Go ranges over its maps, no two metrics of a scrape have the same
  full name and labels, as long as the snapshot has one result per host and the outlets and paired
  devices of a device have distinct identifiers. Prometheus would reject the scrape otherwise.\<close>

theorem scrape_series_distinct:
  assumes "fq_documented build" and "visits_once range_keys" and "visits_names range_names"
    and "state_ok s" and "NewKasaCollector range_names filters s = (Inr cs, s')"
    and "snapshot_ok results" and "\<And>x r. x \<in> set results \<Longrightarrow> re_Reading x = Some r \<Longrightarrow> parts_distinct r"
    and "\<And>name. rn_snapshot (runs name) = Inr results" and "KasaCollector_Collect range_keys cs runs ms"
  shows "distinct (map (\<lambda>m. (build ''kasa'' (ds_subsystem (mt_desc m)) (ds_name (mt_desc m)), mt_labels m)) ms)"
proof -
  note b = chosen_builtin [OF assms(4,3,5)]
  note f = collected_facts [OF b assms(2,6-9)]
  let ?full = "\<lambda>n. build ''kasa'' (fst n) (snd n)"
  let ?join = "\<lambda>(subsystem, name). (if subsystem = [] then [] else subsystem @ ''_'') @ name"
  have "list_all (\<lambda>n. snd n \<noteq> []) all_names" by code_simp
  then have e: "?full n = ''kasa_'' @ ?join n" if "n \<in> set all_names" for n
    using that assms(1) by (cases n) (fastforce simp: fq_documented_def list_all_iff)
  have "inj_on ?full (set all_names)"
  proof (rule inj_onI)
    fix x y assume xy: "x \<in> set all_names" "y \<in> set all_names" "?full x = ?full y"
    then have "?join x = ?join y" using e [OF xy(1)] e [OF xy(2)] by (simp only: same_append_eq)
    then show "x = y" using inj_onD [OF full_names_distinct _ xy(1,2)] by blast
  qed
  then have i: "inj_on ?full (metric_name ` set ms)" by (rule inj_on_subset) (use f(2) in auto)
  have "inj_on (\<lambda>s. (?full (fst s), snd s)) (series ` set ms)"
    using i by (auto simp: inj_on_def series_def)
  then have "distinct (map (\<lambda>s. (?full (fst s), snd s)) (map series ms))" using f(1) by (subst distinct_map) simp
  then show ?thesis by (simp add: comp_def series_def metric_name_def)
qed

lemma sends_all: "\<exists>ms. sends qs ms"
proof (induction "sum_list (map length qs)" arbitrary: qs rule: less_induct)
  case less
  show ?case
  proof (cases "list_all (\<lambda>q. q = []) qs")
    case True
    then show ?thesis using all_sent by blast
  next
    case False
    then obtain i m q where i: "i < length qs" "qs ! i = m # q" by (auto simp: list_all_length neq_Nil_conv)
    have "sum_list (map length (qs[i := q])) < sum_list (map length qs)"
      using i by (simp add: map_update sum_list_update nth_map elem_le_sum_list less_le_trans [OF _ elem_le_sum_list [of i "map length qs"]])
    from less [OF this] show ?thesis using one_sends [OF i] by blast
  qed
qed

definition kasa_full_name :: "string \<Rightarrow> string \<Rightarrow> string \<Rightarrow> string" where
  "kasa_full_name namespace subsystem name = namespace @ ''_'' @ (if subsystem = [] then [] else subsystem @ ''_'') @ name"

definition plug_run :: run where
  "plug_run = \<lparr>rn_duration = 1500000000, rn_snapshot = Inr two_plugs\<rparr>"

lemma two_plugs_parts: "x \<in> set two_plugs \<Longrightarrow> re_Reading x = Some r \<Longrightarrow> parts_distinct r"
  by (auto simp: two_plugs_def parts_distinct_def blank_reading_def)

lemma no_filter: "\<exists>cs s'. NewKasaCollector rev [] initial_collectors = (Inr cs, s')
    \<and> map_of cs = (\<lambda>n. if chosen initial_collectors [] n then map_of builtin n else None)"
proof -
  have "visits_names rev" by (simp add: visits_names_def)
  from NewKasaCollector_ok [OF initial_state_ok this, of "[]"] show ?thesis
    by (auto split: prod.splits sum.splits)
qed

theorem scrape_series_distinct_witness:
  "\<exists>cs s' ms. NewKasaCollector rev [] initial_collectors = (Inr cs, s')
    \<and> KasaCollector_Collect rev cs (\<lambda>_. plug_run) ms
    \<and> distinct (map (\<lambda>m. (kasa_full_name ''kasa'' (ds_subsystem (mt_desc m)) (ds_name (mt_desc m)), mt_labels m)) ms)"
proof -
  have v: "fq_documented kasa_full_name" "visits_once rev" "visits_names rev"
    by (simp_all add: fq_documented_def kasa_full_name_def visits_once_def visits_names_def)
  obtain cs s' where n: "NewKasaCollector rev [] initial_collectors = (Inr cs, s')" using no_filter by blast
  obtain ms where c: "KasaCollector_Collect rev cs (\<lambda>_. plug_run) ms"
    unfolding KasaCollector_Collect_def using sends_all by blast
  have "distinct (map (\<lambda>m. (kasa_full_name ''kasa'' (ds_subsystem (mt_desc m)) (ds_name (mt_desc m)), mt_labels m)) ms)"
    by (rule scrape_series_distinct [OF v initial_state_ok n two_plugs_ok _ _ c])
      (simp_all add: two_plugs_parts plug_run_def)
  with n c show ?thesis by blast
qed

text \<open>C17. What a request is served by: asking for collectors by name fails exactly when one of them is
  unknown or disabled, naming it, and changes nothing; otherwise each enabled collector that was
  asked for, or each enabled one if none was, is there once, as the program built it, and stays
  the same for later requests.\<close>

theorem collectors_chosen:
  assumes "state_ok s" and "visits_names range_names"
  shows "case NewKasaCollector range_names filters s of
      (Inl e, s') \<Rightarrow> s' = s \<and> ((\<exists>f \<in> set filters. e = MissingCollector f \<and> f \<notin> set (map fst builtin))
        \<or> (\<exists>f \<in> set filters. e = Disabled f \<and> f \<in> set (map fst builtin) \<and> enabled s f = False))
    | (Inr cs, s') \<Rightarrow> list_all (enabled s) filters \<and> distinct (map fst cs)
        \<and> map_of cs = (\<lambda>n. if chosen s filters n then map_of builtin n else None)
        \<and> state_ok s' \<and> enabled s' = enabled s"
proof -
  note n = NewKasaCollector_ok [OF assms, of filters]
  show ?thesis
  proof (cases "NewKasaCollector range_names filters s")
    case (Pair r s')
    show ?thesis
    proof (cases r)
      case (Inl e)
      then have e: "s' = s" "check_filters s filters = Some e" using n Pair by simp_all
      show ?thesis
        using check_filters_Some [OF e(2)] unfolding Pair Inl e(1) state_names [OF assms(1), symmetric] by auto
    next
      case (Inr cs)
      have "enabled s' = enabled s" if "s' = s\<lparr>cs_initiated := i\<rparr>" for i
        by (simp add: that enabled_def fun_eq_iff split: option.split)
      then show ?thesis using n by (auto simp: Pair Inr)
    qed
  qed
qed

theorem collectors_chosen_witness:
  "(\<exists>cs s'. NewKasaCollector rev [''hub'', ''plug''] initial_collectors = (Inr cs, s')
     \<and> map_of cs ''plug'' = Some (PlugCollector NewPlugCollector) \<and> map_of cs ''strip'' = None)
   \<and> fst (NewKasaCollector rev [''plug'', ''fan''] initial_collectors) = Inl (MissingCollector ''fan'')"
proof -
  have v: "visits_names rev" by (simp add: visits_names_def)
  note c = collectors_chosen [OF initial_state_ok v]
  have e: "list_all (enabled initial_collectors) [''hub'', ''plug'']" by (simp add: initial_enabled builtin_def)
  then have "check_filters initial_collectors [''hub'', ''plug''] = None" by (simp only: check_filters_None)
  then obtain cs s' where n: "NewKasaCollector rev [''hub'', ''plug''] initial_collectors = (Inr cs, s')"
    using NewKasaCollector_ok [OF initial_state_ok v, of "[''hub'', ''plug'']"]
    by (cases "NewKasaCollector rev [''hub'', ''plug''] initial_collectors")
      (auto split: sum.splits)
  have m: "map_of cs ''plug'' = Some (PlugCollector NewPlugCollector)" "map_of cs ''strip'' = None"
    using c [of "[''hub'', ''plug'']"] by (simp_all add: n chosen_def initial_enabled) (simp_all add: builtin_def)
  have "list_all (enabled initial_collectors) [''plug'', ''fan''] = False" by (simp add: initial_enabled builtin_def)
  then have "\<exists>e. NewKasaCollector rev [''plug'', ''fan''] initial_collectors = (Inl e, initial_collectors)"
    using c [of "[''plug'', ''fan'']"] by (auto split: prod.splits sum.splits)
  then have "fst (NewKasaCollector rev [''plug'', ''fan''] initial_collectors) = Inl (MissingCollector ''fan'')"
    using c [of "[''plug'', ''fan'']"] initial_enabled [of "''plug''"] initial_enabled [of "''fan''"]
    by (auto simp: builtin_def)
  with n m show ?thesis by blast
qed

lemma initial_names:
  "map fst (cs_state initial_collectors) = map fst builtin" "sort (map fst builtin) = map fst builtin"
  "length (cs_state initial_collectors) = length builtin"
  "n \<in> set (map fst builtin) \<Longrightarrow> map_of (cs_defaults initial_collectors) n = Some True"
proof -
  show e: "map fst (cs_state initial_collectors) = map fst builtin"
    by (simp add: initial_collectors_def builtin_def no_collectors_def registerCollector_def)
  then show "length (cs_state initial_collectors) = length builtin" by (metis length_map)
  show "n \<in> set (map fst builtin) \<Longrightarrow> map_of (cs_defaults initial_collectors) n = Some True"
    by (auto simp: initial_collectors_def builtin_def no_collectors_def registerCollector_def)
  have "sorted (map fst builtin)" by code_simp
  then show "sort (map fst builtin) = map fst builtin" by (rule sorted_sort_id)
qed

text \<open>C8. What the command line decides: the flags are the program's collectors in order, each with its
  default, the same on every call; parsing writes a flag's cell, and the collectors enabled afterwards are those given as
  \<^verbatim>\<open>--collector.x\<close> and, unless defaults are disabled, those not mentioned and enabled by default.\<close>

theorem command_line_decides:
  assumes "Flags (None, initial_collectors) = (flags, once, s)"
    and "length cells = length (cs_cells s)"
    and "\<And>name a. map_of (cs_state s) name = Some a \<Longrightarrow> cells ! a = (case given name of None \<Rightarrow> True | Some v \<Rightarrow> v)"
    and "\<And>name. (Some (flag_prefix @ name), False) \<in> set path \<longleftrightarrow> given name \<noteq> None"
    and "parsed = MarkForcedCollectors path (s\<lparr>cs_cells := cells\<rparr>)"
  shows "map fst flags = map (\<lambda>name. toggleTag name True) (map fst builtin)
    \<and> map (\<lambda>name. map_of (cs_state s) name) (map fst builtin) = map (\<lambda>x. Some (snd x)) flags
    \<and> (\<forall>name. enabled parsed name \<longleftrightarrow> name \<in> set (map fst builtin) \<and> given name \<noteq> Some False)
    \<and> (\<forall>name. enabled (DisableDefaultCollectors parsed) name
          \<longleftrightarrow> name \<in> set (map fst builtin) \<and> given name = Some True)
    \<and> state_ok (DisableDefaultCollectors parsed)
    \<and> Flags (once, parsed) = (flags, once, parsed)"
proof -
  have new: "newToggles initial_collectors = (flags, s)" and again: "Flags (once, parsed) = (flags, once, parsed)"
    using assms(1) by (auto simp: Flags_def split: prod.splits)
  note t = newToggles_ok [OF initial_state_ok new, unfolded initial_names]
  define s1 where "s1 = s\<lparr>cs_cells := cells\<rparr>"
  have s1: "state_ok s1" using t(1) assms(2) by (simp add: state_ok_def s1_def)
  obtain forced where f: "parsed = s1\<lparr>cs_forced := forced\<rparr>" using mark_forced(2) assms(5) by (auto simp: s1_def)
  have p: "state_ok parsed" using s1 by (simp add: f state_ok_def)
  have en: "enabled parsed name \<longleftrightarrow> name \<in> set (map fst builtin) \<and> given name \<noteq> Some False" for name
  proof (cases "map_of (cs_state s) name")
    case None
    then show ?thesis using state_names [OF t(1), of name] by (auto simp: enabled_def f s1_def)
  next
    case (Some a)
    then show ?thesis
      using assms(3) [OF Some] state_names [OF t(1), of name]
      by (auto simp: enabled_def f s1_def split: option.splits)
  qed
  have "cs_forced initial_collectors = []"
    by (simp add: initial_collectors_def builtin_def no_collectors_def registerCollector_def)
  then have fo: "map_of (cs_forced parsed) name \<noteq> None \<longleftrightarrow> given name \<noteq> None \<and> name \<in> set (map fst builtin)" for name
    unfolding assms(5) mark_forced(1) assms(4) using t(3) state_names [OF t(1), of name] by simp
  have "enabled (DisableDefaultCollectors parsed) name \<longleftrightarrow> name \<in> set (map fst builtin) \<and> given name = Some True" for name
    using disable_ok(2) [OF p, of name] en [of name] fo [of name] by auto
  moreover have flags: "map fst flags = map (\<lambda>name. toggleTag name True) (map fst builtin)"
    unfolding t(4) by (rule map_cong [OF refl]) (simp add: initial_names(4))
  moreover have "map (\<lambda>name. map_of (cs_state s) name) (map fst builtin) = map (\<lambda>x. Some (snd x)) flags"
  proof (rule nth_equalityI)
    show l: "length (map (\<lambda>name. map_of (cs_state s) name) (map fst builtin)) = length (map (\<lambda>x. Some (snd x)) flags)"
      using arg_cong [OF flags, of length] by simp
    fix i assume "i < length (map (\<lambda>name. map_of (cs_state s) name) (map fst builtin))"
    then show "map (\<lambda>name. map_of (cs_state s) name) (map fst builtin) ! i = map (\<lambda>x. Some (snd x)) flags ! i"
      using t(5) [of i] l by simp
  qed
  ultimately show ?thesis using en disable_ok(1) [OF p] again by blast
qed

text \<open>\<^verbatim>\<open>--collector.plug --no-collector.hub --collector.disable-defaults\<close>\<close>

theorem command_line_decides_witness:
  "\<exists>flags once s cells parsed.
     Flags (None, initial_collectors) = (flags, once, s)
     \<and> parsed = MarkForcedCollectors [(None, False), (Some ''collector.plug'', False), (Some ''collector.hub'', False)] (s\<lparr>cs_cells := cells\<rparr>)
     \<and> enabled parsed ''strip'' \<and> \<not> enabled parsed ''hub''
     \<and> enabled (DisableDefaultCollectors parsed) ''plug'' \<and> \<not> enabled (DisableDefaultCollectors parsed) ''strip''"
proof -
  define given where "given = [''plug'' \<mapsto> True, ''hub'' \<mapsto> False]"
  define path where "path = [(None, False), (Some ''collector.plug'', False), (Some ''collector.hub'', False)]"
  obtain flags s where t0: "newToggles initial_collectors = (flags, s)" by fastforce
  have ok: "state_ok s" using newToggles_ok(1) [OF initial_state_ok t0] .
  have t: "Flags (None, initial_collectors) = (flags, Some flags, s)" by (simp add: Flags_def t0)
  define val_at where "val_at = (\<lambda>a. case given (fst (hd (filter (\<lambda>x. snd x = a) (cs_state s)))) of None \<Rightarrow> True | Some v \<Rightarrow> v)"
  define cells where "cells = map val_at [0..<length (cs_cells s)]"
  have c: "cells ! a = (case given name of None \<Rightarrow> True | Some v \<Rightarrow> v)" if "map_of (cs_state s) name = Some a" for name a
  proof -
    have "filter (\<lambda>x. snd x = a) (cs_state s) \<noteq> []" using map_of_SomeD [OF that] by (force simp: filter_empty_conv)
    then have "hd (filter (\<lambda>x. snd x = a) (cs_state s)) \<in> set (filter (\<lambda>x. snd x = a) (cs_state s))" by (rule hd_in_set)
    moreover obtain n a' where "hd (filter (\<lambda>x. snd x = a) (cs_state s)) = (n, a')" by fastforce
    ultimately have n: "hd (filter (\<lambda>x. snd x = a) (cs_state s)) = (n, a)" "(n, a) \<in> set (cs_state s)" by auto
    then have "map_of (cs_state s) n = Some a" using ok by (simp add: state_ok_def)
    then have "n = name" using state_cells(2) [OF ok _ that] by blast
    then show ?thesis using state_cells(1) [OF ok that] n(1) by (simp add: cells_def val_at_def)
  qed
  have p: "(Some (flag_prefix @ name), False) \<in> set path \<longleftrightarrow> given name \<noteq> None" for name
    by (auto simp: path_def flag_prefix_def given_def)
  have "enabled (MarkForcedCollectors path (s\<lparr>cs_cells := cells\<rparr>)) ''strip''
    \<and> \<not> enabled (MarkForcedCollectors path (s\<lparr>cs_cells := cells\<rparr>)) ''hub''
    \<and> enabled (DisableDefaultCollectors (MarkForcedCollectors path (s\<lparr>cs_cells := cells\<rparr>))) ''plug''
    \<and> \<not> enabled (DisableDefaultCollectors (MarkForcedCollectors path (s\<lparr>cs_cells := cells\<rparr>))) ''strip''"
    using command_line_decides [OF t _ c p refl] by (simp add: cells_def given_def builtin_def)
  then show ?thesis using t unfolding path_def by blast
qed

subsection \<open>Saving and restoring\<close>

lemma foldl_write:
  assumes "state_ok s" and "distinct (map fst bs)" and "length cells = length (cs_cells s)"
  defines "write \<equiv> \<lambda>cells (name, b). case map_of (cs_state s) name of None \<Rightarrow> cells | Some a \<Rightarrow> cells[a := b]"
  shows "length (foldl write cells bs) = length cells"
    and "map_of (cs_state s) name = Some a \<Longrightarrow>
      foldl write cells bs ! a = (case map_of bs name of None \<Rightarrow> cells ! a | Some b \<Rightarrow> b)"
proof -
  have l: "length (write cells x) = length cells" for cells x by (auto simp: write_def split: option.split prod.split)
  show "length (foldl write cells bs) = length cells" for cells by (induction bs arbitrary: cells) (simp_all add: l)
  show "map_of (cs_state s) name = Some a \<Longrightarrow>
      foldl write cells bs ! a = (case map_of bs name of None \<Rightarrow> cells ! a | Some b \<Rightarrow> b)"
    using assms(2,3)
  proof (induction bs arbitrary: cells)
    case (Cons x bs)
    obtain n b where x: "x = (n, b)" by fastforce
    have "write cells x ! a = (if n = name then b else cells ! a)"
    proof (cases "map_of (cs_state s) n")
      case None
      then show ?thesis using Cons.prems(1) by (auto simp: write_def x)
    next
      case (Some a')
      have "a' = a \<longleftrightarrow> n = name"
      proof
        show "a' = a \<Longrightarrow> n = name" using state_cells(2) [OF assms(1) Some] Cons.prems(1) by blast
        show "n = name \<Longrightarrow> a' = a" using Cons.prems(1) Some by simp
      qed
      then show ?thesis
        using Some state_cells(1) [OF assms(1) Some] Cons.prems(3) by (cases "n = name") (auto simp: write_def x)
    qed
    moreover have "foldl write (write cells x) bs ! a = (case map_of bs name of None \<Rightarrow> write cells x ! a | Some b \<Rightarrow> b)"
      using Cons.prems by (intro Cons.IH) (simp_all add: l)
    moreover have "map_of bs name = None" if "n = name"
      using Cons.prems(2) that by (simp add: x map_of_eq_None_iff)
    ultimately show ?case by (cases "n = name") (simp_all add: x split: option.split)
  qed simp
qed

text \<open>Restoring undoes everything that happened to the flags in between.\<close>

theorem restore_undoes:
  assumes "state_ok s" and "state_ok s'"
  shows "enabled (restore_states (save_states s) s') = enabled s"
    and "cs_forced (restore_states (save_states s) s') = cs_forced s"
proof -
  define bs where "bs = fst (save_states s)"
  have d: "distinct (map fst bs)" using assms(1) by (simp add: bs_def save_states_def state_ok_def case_prod_beta comp_def)
  have m: "map_of bs name = map_option (\<lambda>a. cs_cells s ! a) (map_of (cs_state s) name)" for name
    by (simp add: bs_def save_states_def map_of_map)
  note f = foldl_write(2) [OF assms(2) d refl]
  show "enabled (restore_states (save_states s) s') = enabled s"
  proof
    fix name
    show "enabled (restore_states (save_states s) s') name = enabled s name"
      using f [of name] state_names [OF assms(1), of name] state_names [OF assms(2), of name]
      by (auto simp: enabled_def restore_states_def bs_def [symmetric] m split: option.splits)
  qed
  show "cs_forced (restore_states (save_states s) s') = cs_forced s" by (simp add: restore_states_def save_states_def)
qed

end
