(* ===== verification/Mux.thy ===== *)
theory Mux
  imports Json
begin

text \<open>
  The routes of Go's \<^verbatim>\<open>http.ServeMux\<close>, as far as registering them goes: how a pattern is read, when two
  patterns conflict, and when a registration panics. The exporter hands it a pattern from its command
  line, so this is what the check of that pattern in \<^verbatim>\<open>kasa_exporter.go\<close> has to stand up to.
\<close>

subsection \<open>Reading a pattern\<close>

text \<open>A segment is text, or a wildcard with a name, which may stand for all the rest of the path.\<close>

datatype segment = Literal string | Wild string bool

record pattern =
  pt_method :: string
  pt_host :: string
  pt_segments :: "segment list"

text \<open>The characters of an HTTP token.\<close>

definition is_token :: "char \<Rightarrow> bool" where
  "is_token c \<longleftrightarrow> c \<in> set ''abcdefghijklmnopqrstuvwxyzABCDEFGHIJKLMNOPQRSTUVWXYZ0123456789!#$%&*+-.^_|~''
     \<or> c = CHR 0x27 \<or> c = CHR 0x60"

fun unescape :: "string \<Rightarrow> string option" where
  "unescape [] = Some []"
| "unescape (c # s) =
     (if c \<noteq> CHR 0x25 then map_option (Cons c) (unescape s)
      else
      case s of
        x # y # t \<Rightarrow>
          (case (hex_value x, hex_value y) of
             (Some i, Some j) \<Rightarrow> map_option (Cons (byte_char (16 * i + j))) (unescape t)
           | _ \<Rightarrow> None)
      | _ \<Rightarrow> None)"

definition path_unescape :: "string \<Rightarrow> string" where
  "path_unescape s = (case unescape s of None \<Rightarrow> s | Some t \<Rightarrow> t)"

fun split_slash :: "string \<Rightarrow> string list" where
  "split_slash [] = [[]]"
| "split_slash (c # s) =
     (case split_slash s of
        [] \<Rightarrow> [[c]]
      | p # ps \<Rightarrow> if c = CHR ''/'' then [] # p # ps else (c # p) # ps)"

fun join_slash :: "string list \<Rightarrow> string" where
  "join_slash [] = []"
| "join_slash [p] = p"
| "join_slash (p # ps) = p @ ''/'' @ join_slash ps"

fun clean_segments :: "string list \<Rightarrow> string list \<Rightarrow> string list" where
  "clean_segments done [] = rev done"
| "clean_segments done (p # ps) =
     (if p = [] \<or> p = ''.'' then clean_segments done ps
      else if p = ''..'' then clean_segments (tl done) ps
      else clean_segments (p # done) ps)"

text \<open>For a path that starts with a slash.\<close>

definition clean_path :: "string \<Rightarrow> string" where
  "clean_path p =
     (let np = ''/'' @ join_slash (clean_segments [] (split_slash (tl p))) in
      if last p = CHR ''/'' \<and> np \<noteq> ''/'' then np @ ''/'' else np)"

text \<open>
  The segments of a path, given the pieces between its slashes: \<open>named\<close> says whether a text is a Go
  identifier, which the name of a wildcard must be, and \<open>seen\<close> holds the names so far. An empty last
  piece is the trailing slash.
\<close>

fun parse_segments :: "(string \<Rightarrow> bool) \<Rightarrow> string list \<Rightarrow> string list \<Rightarrow> segment list option" where
  "parse_segments named seen [] = Some []"
| "parse_segments named seen (seg # rest) =
     (if seg = [] \<and> rest = [] then Some [Wild [] True]
      else if CHR ''{'' \<notin> set seg
      then map_option (Cons (Literal (path_unescape seg))) (parse_segments named seen rest)
      else if hd seg \<noteq> CHR ''{'' \<or> last seg \<noteq> CHR ''}'' then None
      else
      let name = butlast (tl seg) in
      if name = ''$'' then (if rest \<noteq> [] then None else Some [Literal ''/''])
      else
      let multi = (length name \<ge> 3 \<and> drop (length name - 3) name = ''...'');
          name = (if multi then take (length name - 3) name else name) in
      if multi \<and> rest \<noteq> [] then None
      else if name = [] \<or> \<not> named name \<or> name \<in> set seen then None
      else map_option (Cons (Wild name multi)) (parse_segments named (name # seen) rest))"

definition blank :: "char \<Rightarrow> bool" where
  "blank c \<longleftrightarrow> c = CHR '' '' \<or> c = CHR 0x09"

definition parse_pattern :: "(string \<Rightarrow> bool) \<Rightarrow> string \<Rightarrow> pattern option" where
  "parse_pattern named s =
     (let after = dropWhile (\<lambda>c. \<not> blank c) s;
          method = (if after = [] then [] else takeWhile (\<lambda>c. \<not> blank c) s);
          rest = (if after = [] then s else dropWhile blank (tl after));
          host = takeWhile (\<lambda>c. c \<noteq> CHR ''/'') rest;
          path = dropWhile (\<lambda>c. c \<noteq> CHR ''/'') rest in
      if \<not> list_all is_token method then None
      else if path = [] then None
      else if CHR ''{'' \<in> set host then None
      else if method \<noteq> [] \<and> method \<noteq> ''CONNECT'' \<and> path \<noteq> clean_path path then None
      else map_option (\<lambda>segments. \<lparr>pt_method = method, pt_host = host, pt_segments = segments\<rparr>)
        (parse_segments named [] (split_slash (tl path))))"

subsection \<open>Conflicts\<close>

datatype relationship = Equivalent | MoreGeneral | MoreSpecific | Disjoint | Overlaps

definition compare_methods :: "string \<Rightarrow> string \<Rightarrow> relationship" where
  "compare_methods m1 m2 =
     (if m1 = m2 then Equivalent
      else if m1 = [] then MoreGeneral
      else if m2 = [] then MoreSpecific
      else if m1 = ''GET'' \<and> m2 = ''HEAD'' then MoreGeneral
      else if m2 = ''GET'' \<and> m1 = ''HEAD'' then MoreSpecific
      else Disjoint)"

fun is_multi :: "segment \<Rightarrow> bool" where
  "is_multi (Literal s) = False"
| "is_multi (Wild s multi) = multi"

fun compare_segments :: "segment \<Rightarrow> segment \<Rightarrow> relationship" where
  "compare_segments (Wild _ True) (Wild _ True) = Equivalent"
| "compare_segments (Wild _ True) _ = MoreGeneral"
| "compare_segments _ (Wild _ True) = MoreSpecific"
| "compare_segments (Wild _ _) (Wild _ _) = Equivalent"
| "compare_segments (Wild _ _) (Literal s) = (if s = ''/'' then Disjoint else MoreGeneral)"
| "compare_segments (Literal s) (Wild _ _) = (if s = ''/'' then Disjoint else MoreSpecific)"
| "compare_segments (Literal s) (Literal t) = (if s = t then Equivalent else Disjoint)"

fun combine :: "relationship \<Rightarrow> relationship \<Rightarrow> relationship" where
  "combine Equivalent r = r"
| "combine Disjoint r = Disjoint"
| "combine Overlaps r = (if r = Disjoint then Disjoint else Overlaps)"
| "combine MoreGeneral r = (if r = Equivalent then MoreGeneral else if r = MoreSpecific then Overlaps else r)"
| "combine MoreSpecific r = (if r = Equivalent then MoreSpecific else if r = MoreGeneral then Overlaps else r)"

text \<open>The walk along two paths, and what is left of each; disjoint segments end it.\<close>

fun walk :: "relationship \<Rightarrow> segment list \<Rightarrow> segment list \<Rightarrow> relationship \<times> segment list \<times> segment list" where
  "walk rel (s # ss) (t # ts) =
     (let r = combine rel (compare_segments s t) in if r = Disjoint then (Disjoint, [], []) else walk r ss ts)"
| "walk rel ss ts = (rel, ss, ts)"

definition compare_paths :: "segment list \<Rightarrow> segment list \<Rightarrow> relationship" where
  "compare_paths ss ts =
     (if length ss \<noteq> length ts \<and> \<not> is_multi (last ss) \<and> \<not> is_multi (last ts) then Disjoint
      else
      case walk Equivalent ss ts of (rel, ss', ts') \<Rightarrow>
        if ss' = [] \<and> ts' = [] then rel
        else if length ss' < length ts' \<and> is_multi (last ss) then combine rel MoreGeneral
        else if length ts' < length ss' \<and> is_multi (last ts) then combine rel MoreSpecific
        else Disjoint)"

definition conflicts :: "pattern \<Rightarrow> pattern \<Rightarrow> bool" where
  "conflicts p q \<longleftrightarrow> pt_host p = pt_host q
     \<and> (let m = compare_methods (pt_method p) (pt_method q) in
        m \<noteq> Disjoint \<and> combine m (compare_paths (pt_segments p) (pt_segments q)) \<in> {Equivalent, Overlaps})"

text \<open>\<^verbatim>\<open>Handle\<close>: a pattern that cannot be read, or that conflicts with one already there, panics, which
  here is no mux.\<close>

definition mux_handle ::
  "(string \<Rightarrow> bool) \<Rightarrow> string \<Rightarrow> 'h \<Rightarrow> (string \<times> 'h) list option \<Rightarrow> (string \<times> 'h) list option" where
  "mux_handle named s target m =
     (case m of
        None \<Rightarrow> None
      | Some routes \<Rightarrow>
          (case parse_pattern named s of
             None \<Rightarrow> None
           | Some p \<Rightarrow>
               if list_ex (\<lambda>(t, _). case parse_pattern named t of None \<Rightarrow> False | Some q \<Rightarrow> conflicts p q) routes
               then None else Some (routes @ [(s, target)])))"

lemma mux_handle_None [simp]: "mux_handle named s target None = None"
  by (simp add: mux_handle_def)

subsection \<open>Patterns that are plain paths\<close>

lemma split_slash_neq [simp]: "split_slash s \<noteq> []"
  by (induction s) (auto split: list.split)

lemma split_slash_chars: "p \<in> set (split_slash s) \<Longrightarrow> set p \<subseteq> set s"
proof (induction s arbitrary: p)
  case (Cons c s)
  obtain q ps where q: "split_slash s = q # ps" by (meson neq_Nil_conv split_slash_neq)
  then have "set q \<subseteq> set s" "\<And>p. p \<in> set ps \<Longrightarrow> set p \<subseteq> set s" using Cons.IH by simp_all
  then show ?case using Cons.prems q by (auto split: if_splits)
qed simp

lemma unescape_plain: "CHR 0x25 \<notin> set s \<Longrightarrow> path_unescape s = s"
proof -
  assume "CHR 0x25 \<notin> set s"
  then have "unescape s = Some s" by (induction s) auto
  then show ?thesis by (simp add: path_unescape_def)
qed

lemma path_unescape_Nil [simp]: "path_unescape s = [] \<longleftrightarrow> s = []"
proof (cases s)
  case (Cons c t)
  have "unescape (c # t) \<noteq> Some []" by (simp split: list.split option.split)
  then show ?thesis by (simp only: Cons path_unescape_def) (auto simp del: unescape.simps split: option.split)
qed (simp add: path_unescape_def)

fun plain :: "string list \<Rightarrow> segment list" where
  "plain [] = []"
| "plain [p] = (if p = [] then [Wild [] True] else [Literal p])"
| "plain (p # q # ps) = Literal p # plain (q # ps)"

lemma parse_segments_plain:
  "\<forall>p \<in> set ps. CHR ''{'' \<notin> set p \<Longrightarrow> parse_segments named seen ps = Some (plain (map path_unescape ps))"
  by (induction ps rule: plain.induct) auto

text \<open>What a plain path comes to: its decoded pieces.\<close>

definition pieces :: "string \<Rightarrow> string list" where
  "pieces path = map path_unescape (split_slash (tl path))"

definition plain_path :: "string \<Rightarrow> bool" where
  "plain_path path \<longleftrightarrow> path \<noteq> [] \<and> hd path = CHR ''/'' \<and> list_all (\<lambda>c. \<not> blank c \<and> c \<noteq> CHR ''{'') path"

lemma parse_plain:
  assumes "plain_path path"
  shows "parse_pattern named path = Some \<lparr>pt_method = [], pt_host = [], pt_segments = plain (pieces path)\<rparr>"
proof -
  obtain s where s: "path = CHR ''/'' # s" using assms by (cases path) (auto simp: plain_path_def)
  have "dropWhile (\<lambda>c. \<not> blank c) path = []" using assms by (auto simp: plain_path_def list_all_iff)
  moreover have "CHR ''{'' \<notin> set s" using assms by (auto simp: plain_path_def list_all_iff s)
  then have "\<forall>p \<in> set (split_slash s). CHR ''{'' \<notin> set p" using split_slash_chars by blast
  ultimately show ?thesis by (simp add: parse_pattern_def Let_def s parse_segments_plain pieces_def)
qed

lemma plain_neq [simp]: "ps \<noteq> [] \<Longrightarrow> plain ps \<noteq> []"
  by (cases ps rule: plain.cases) simp_all

lemma compare_paths_Cons:
  assumes "ss \<noteq> []" and "ts \<noteq> []"
  shows "compare_paths (Literal p # ss) (Literal q # ts) = (if p = q then compare_paths ss ts else Disjoint)"
  using assms by (simp add: compare_paths_def split: prod.split)

lemma plain_related: "\<lbrakk>ps \<noteq> []; qs \<noteq> []\<rbrakk> \<Longrightarrow> compare_paths (plain ps) (plain qs) \<in> {Equivalent, Overlaps} \<longleftrightarrow> ps = qs"
proof (induction ps arbitrary: qs rule: plain.induct)
  case (2 p)
  then show ?case by (cases qs rule: plain.cases) (simp_all add: compare_paths_def)
next
  case (3 p q ps)
  show ?case
  proof (cases qs rule: plain.cases)
    case (2 r)
    then show ?thesis using 3 by (simp add: compare_paths_def)
  next
    case (3 r t ts)
    then show ?thesis using "3.IH" [of "t # ts"] by (simp add: compare_paths_Cons)
  qed (use 3 in simp)
qed simp

lemma plain_conflicts:
  assumes "plain_path s" and "plain_path t"
  shows "(\<exists>p q. parse_pattern named s = Some p \<and> parse_pattern named t = Some q \<and> conflicts p q) \<longleftrightarrow> pieces s = pieces t"
  using plain_related [of "pieces s" "pieces t"]
  by (simp add: parse_plain [OF assms(1)] parse_plain [OF assms(2)] conflicts_def compare_methods_def pieces_def)

text \<open>Among plain paths, registering one panics just when its pieces are those of one already there.\<close>

lemma handle_plain:
  assumes "plain_path s" and "list_all plain_path (map fst routes)"
  shows "mux_handle named s target (Some routes)
    = (if pieces s \<in> set (map (pieces \<circ> fst) routes) then None else Some (routes @ [(s, target)]))"
proof -
  have "(case r of (t, _) \<Rightarrow> case parse_pattern named t of None \<Rightarrow> False
        | Some q \<Rightarrow> conflicts \<lparr>pt_method = [], pt_host = [], pt_segments = plain (pieces s)\<rparr> q)
      \<longleftrightarrow> pieces s = pieces (fst r)" if "r \<in> set routes" for r
  proof -
    have "plain_path (fst r)" using assms(2) that by (auto simp: list_all_iff)
    then show ?thesis using plain_conflicts [OF assms(1), of "fst r" named] by (cases r) (simp add: parse_plain assms(1))
  qed
  then have "list_ex (\<lambda>(t, _). case parse_pattern named t of None \<Rightarrow> False
        | Some q \<Rightarrow> conflicts \<lparr>pt_method = [], pt_host = [], pt_segments = plain (pieces s)\<rparr> q) routes
      \<longleftrightarrow> (\<exists>r \<in> set routes. pieces s = pieces (fst r))"
    unfolding list_ex_iff by (rule bex_cong [OF refl])
  then show ?thesis by (auto simp: mux_handle_def parse_plain [OF assms(1)] image_iff)
qed

text \<open>A pattern that starts with a slash and holds a blank names a method that is none.\<close>

lemma blank_panics:
  assumes "hd s = CHR ''/''" and "s \<noteq> []" and "\<exists>c \<in> set s. blank c"
  shows "mux_handle named s target m = None"
proof -
  obtain t where s: "s = CHR ''/'' # t" using assms(1,2) by (cases s) auto
  have "dropWhile (\<lambda>c. \<not> blank c) s \<noteq> []" using assms(3) by auto
  moreover have "\<not> blank (CHR ''/'')" "\<not> is_token (CHR ''/'')" by (simp_all add: blank_def is_token_def)
  ultimately have "parse_pattern named s = None" using assms(3) by (auto simp: parse_pattern_def Let_def s)
  then show ?thesis by (simp add: mux_handle_def split: option.split)
qed

text \<open>Wildcards that are not whole segments, or are not closed, panic too.\<close>

lemma wildcard_panics:
  "mux_handle named ''/metrics{'' target m = None" "mux_handle named ''/{}'' target m = None"
  "mux_handle named ''/{a}/{a}'' target m = None" "mux_handle named ''/{$}/metrics'' target m = None"
  by (simp_all add: mux_handle_def parse_pattern_def blank_def Let_def split: option.split)

text \<open>Patterns of which neither is the more specific panic as well.\<close>

lemma overlap_panics:
  assumes "named ''x''"
  shows "mux_handle named ''/{x}/b'' target (Some [(''/a/{x}'', other)]) = None"
  using assms by (simp add: mux_handle_def parse_pattern_def blank_def path_unescape_def conflicts_def compare_methods_def
      compare_paths_def Let_def)

lemma more_specific_allowed:
  "mux_handle named ''/a/b'' target (Some [(''/a/'', other)]) = Some [(''/a/'', other), (''/a/b'', target)]"
  by (simp add: handle_plain plain_path_def blank_def pieces_def path_unescape_def)

end
