(* ===== verification/Handler.thy ===== *)
theory Handler
  imports Collector Mux
begin

text \<open>
  The program itself, \<^verbatim>\<open>kasa_exporter.go\<close>: the handler of the metrics endpoint and its filters, the
  routes, the command line, and the start-up.
\<close>

subsection \<open>The metrics handler\<close>

text \<open>What \<^verbatim>\<open>promhttp.HandlerFor\<close> is given: the collectors registered, whether the exporter's own
  metrics are gathered and counted too, and the limit on requests.\<close>

record inner =
  in_collectors :: "(string \<times> collector) list"
  in_exporterMetrics :: bool
  in_maxRequests :: int

record handler =
  hn_unfiltered :: "inner option"
  hn_enabledCollectors :: "string list"
  hn_once :: bool
  hn_includeExporterMetrics :: bool
  hn_maxRequests :: int

datatype handler_error = CreateFailed create_error | RegisterFailed

text \<open>
  \<open>range_names\<close> is Go's order over a map, \<open>registers\<close> whether the fresh registry accepts the
  collector.
\<close>

definition innerHandler ::
  "(string list \<Rightarrow> string list) \<Rightarrow> bool \<Rightarrow> string list \<Rightarrow> handler \<times> collectors
     \<Rightarrow> (handler_error + inner) \<times> handler \<times> collectors" where
  "innerHandler range_names registers filters hs =
     (case hs of (h, s) \<Rightarrow>
      case NewKasaCollector range_names filters s of
        (Inl e, s) \<Rightarrow> (Inl (CreateFailed e), h, s)
      | (Inr nc, s) \<Rightarrow>
          let h = (if filters = [] \<and> \<not> hn_once h
                then h\<lparr>hn_once := True,
                       hn_enabledCollectors := sort (hn_enabledCollectors h @ range_names (map fst nc))\<rparr>
                else h) in
          if \<not> registers then (Inl RegisterFailed, h, s)
          else (Inr \<lparr>in_collectors = nc, in_exporterMetrics = hn_includeExporterMetrics h,
                  in_maxRequests = hn_maxRequests h\<rparr>, h, s))"

definition newHandler ::
  "(string list \<Rightarrow> string list) \<Rightarrow> bool \<Rightarrow> bool \<Rightarrow> int \<Rightarrow> collectors \<Rightarrow> (handler_error + handler) \<times> collectors" where
  "newHandler range_names registers includeExporterMetrics maxRequests s =
     (let h = \<lparr>hn_unfiltered = None, hn_enabledCollectors = [], hn_once = False,
               hn_includeExporterMetrics = includeExporterMetrics, hn_maxRequests = maxRequests\<rparr> in
      case innerHandler range_names registers [] (h, s) of
        (Inl e, h, s) \<Rightarrow> (Inl e, s)
      | (Inr i, h, s) \<Rightarrow> (Inr (h\<lparr>hn_unfiltered := Some i\<rparr>), s))"

text \<open>What a request is answered with: the metrics of a handler, or status 400 and a reason.\<close>

datatype bad_request = CombinedQueries | AllExcluded | FilterFailed handler_error

datatype response = Served "inner option" | BadRequest bad_request

definition ServeHTTP ::
  "(string list \<Rightarrow> string list) \<Rightarrow> bool \<Rightarrow> string list \<Rightarrow> string list \<Rightarrow> handler \<times> collectors
     \<Rightarrow> response \<times> handler \<times> collectors" where
  "ServeHTTP range_names registers collects excludes hs =
     (case hs of (h, s) \<Rightarrow>
      if collects = [] \<and> excludes = [] then (Served (hn_unfiltered h), h, s)
      else if collects \<noteq> [] \<and> excludes \<noteq> [] then (BadRequest CombinedQueries, h, s)
      else
      let filters = (if excludes = [] then collects
            else filter (\<lambda>c. c \<notin> set excludes) (hn_enabledCollectors h)) in
      if excludes \<noteq> [] \<and> filters = [] then (BadRequest AllExcluded, h, s)
      else
      case innerHandler range_names registers filters (h, s) of
        (Inl e, h, s) \<Rightarrow> (BadRequest (FilterFailed e), h, s)
      | (Inr i, h, s) \<Rightarrow> (Served (Some i), h, s))"

subsection \<open>Routes\<close>

definition pprofPrefix :: string where "pprofPrefix = ''/debug/pprof/''"

datatype path_error = EmptyPath | NoSlash | Whitespace | Wildcard | PprofConflict

definition contains_any :: "string \<Rightarrow> string \<Rightarrow> bool" where
  "contains_any s chars \<longleftrightarrow> list_ex (\<lambda>c. c \<in> set chars) s"

definition validateMetricsPath :: "string \<Rightarrow> bool \<Rightarrow> path_error option" where
  "validateMetricsPath metricsPath enablePprof =
     (if metricsPath = [] then Some EmptyPath
      else if \<not> has_prefix metricsPath ''/'' then Some NoSlash
      else if contains_any metricsPath [CHR '' '', CHR 0x09, CHR 0x0D, CHR 0x0A] then Some Whitespace
      else if contains_any metricsPath ''{}'' then Some Wildcard
      else if enablePprof \<and> has_prefix metricsPath pprofPrefix then Some PprofConflict
      else None)"

datatype route = MetricsRoute | PprofIndex | PprofCmdline | PprofProfile | PprofSymbol | PprofTrace | LandingRoute

type_synonym mux = "(string \<times> route) list"

record landing_config =
  ld_Profiling :: string
  ld_Address :: string

datatype mux_error = BadPath path_error | LandingFailed

text \<open>\<open>landing_page\<close> says whether the toolkit builds the landing page, \<open>named\<close> which texts Go takes for
  identifiers. The outcome is nothing when a registration panics.\<close>

definition buildMux :: "(string \<Rightarrow> bool) \<Rightarrow> (landing_config \<Rightarrow> bool) \<Rightarrow> string \<Rightarrow> bool \<Rightarrow> (mux_error + mux) option" where
  "buildMux named landing_page metricsPath enablePprof =
     (case validateMetricsPath metricsPath enablePprof of
        Some e \<Rightarrow> Some (Inl (BadPath e))
      | None \<Rightarrow>
          let m = mux_handle named metricsPath MetricsRoute (Some []);
              m = (if enablePprof then
                     mux_handle named ''/debug/pprof/trace'' PprofTrace
                       (mux_handle named ''/debug/pprof/symbol'' PprofSymbol
                         (mux_handle named ''/debug/pprof/profile'' PprofProfile
                           (mux_handle named ''/debug/pprof/cmdline'' PprofCmdline
                             (mux_handle named pprofPrefix PprofIndex m))))
                   else m) in
          if metricsPath = ''/'' then map_option Inr m
          else if m = None then None
          else if \<not> landing_page \<lparr>ld_Profiling = (if enablePprof then ''true'' else ''false''), ld_Address = metricsPath\<rparr>
          then Some (Inl LandingFailed)
          else map_option Inr (mux_handle named ''/'' LandingRoute m))"

subsection \<open>Starting\<close>

datatype run_error = MissingWebFlags | HandlerFailed handler_error | MuxFailed mux_error | ListenFailed

text \<open>
  \<^verbatim>\<open>run\<close> up to the listener: \<open>listens\<close> is the outcome of \<^verbatim>\<open>listenAndServe\<close> on the handler and the
  routes. Nothing is the panic of the routes.
\<close>

definition run_exporter ::
  "(string list \<Rightarrow> string list) \<Rightarrow> bool \<Rightarrow> (string \<Rightarrow> bool) \<Rightarrow> (landing_config \<Rightarrow> bool) \<Rightarrow> (handler \<Rightarrow> mux \<Rightarrow> bool)
     \<Rightarrow> string \<Rightarrow> bool \<Rightarrow> int \<Rightarrow> bool \<Rightarrow> bool \<Rightarrow> 'toolkit option \<Rightarrow> collectors
     \<Rightarrow> ((run_error + handler \<times> mux) \<times> collectors) option" where
  "run_exporter range_names registers named landing_page listens metricsPath disableExporterMetrics maxRequests
      disableDefaultCollectors enablePprof toolkitFlags s =
     (if toolkitFlags = None then Some (Inl MissingWebFlags, s)
      else
      let s = (if disableDefaultCollectors then DisableDefaultCollectors s else s) in
      case newHandler range_names registers (\<not> disableExporterMetrics) maxRequests s of
        (Inl e, s) \<Rightarrow> Some (Inl (HandlerFailed e), s)
      | (Inr h, s) \<Rightarrow>
          (case buildMux named landing_page metricsPath enablePprof of
             None \<Rightarrow> None
           | Some (Inl e) \<Rightarrow> Some (Inl (MuxFailed e), s)
           | Some (Inr m) \<Rightarrow> Some (if listens h m then Inr (h, m) else Inl ListenFailed, s)))"

subsection \<open>The command line\<close>

text \<open>
  What the command line sets, with kong's defaults. The flags of the devices and of the collectors
  are those of \<^verbatim>\<open>Config\<close> and \<^verbatim>\<open>Collector\<close>.
\<close>

record flags =
  fl_MetricsPath :: string
  fl_DisableExporterMetrics :: bool
  fl_MaxRequests :: int
  fl_DisableDefaultCollectors :: bool
  fl_MaxProcs :: int
  fl_EnablePprof :: bool
  fl_WebListenAddresses :: "string list"
  fl_WebConfigFile :: string
  fl_LogLevel :: string
  fl_LogFormat :: string
  fl_WebSystemdSocket :: bool

definition default_flags :: flags where
  "default_flags = \<lparr>fl_MetricsPath = ''/metrics'', fl_DisableExporterMetrics = False, fl_MaxRequests = 40,
     fl_DisableDefaultCollectors = False, fl_MaxProcs = 1, fl_EnablePprof = False,
     fl_WebListenAddresses = ['':9498''], fl_WebConfigFile = [], fl_LogLevel = ''info'', fl_LogFormat = ''logfmt'',
     fl_WebSystemdSocket = False\<rparr>"

text \<open>
  The environment is a map; \<open>unsets\<close> says whether a variable can be unset. kong's parse reads the
  environment and the arguments, writes the flags and the toggles of the collectors, and gives the
  path of what it saw.
\<close>

type_synonym environment = "string \<rightharpoonup> string"

fun unset_empty :: "(string \<Rightarrow> bool) \<Rightarrow> string list \<Rightarrow> environment \<Rightarrow> bool \<times> environment" where
  "unset_empty unsets [] env = (True, env)"
| "unset_empty unsets (name # names) env =
     (if env name = Some [] then
        if unsets name then unset_empty unsets names (env(name := None)) else (False, env)
      else unset_empty unsets names env)"

type_synonym 'args parser =
  "environment \<Rightarrow> 'args \<Rightarrow> flags \<times> collectors \<Rightarrow> (string option \<times> bool) list option \<times> flags \<times> collectors"

definition parseFlags ::
  "(string \<Rightarrow> bool) \<Rightarrow> string list \<Rightarrow> 'args parser \<Rightarrow> 'args \<Rightarrow> environment \<times> flags \<times> collectors
     \<Rightarrow> bool \<times> environment \<times> flags \<times> collectors" where
  "parseFlags unsets names parse args es =
     (case es of (env, f, s) \<Rightarrow>
      case unset_empty unsets names env of
        (False, env) \<Rightarrow> (False, env, f, s)
      | (True, env) \<Rightarrow>
          (case parse env args (f, s) of
             (None, f, s) \<Rightarrow> (False, env, f, s)
           | (Some path, f, s) \<Rightarrow> (True, env, f, MarkForcedCollectors path s)))"

text \<open>\<open>level\<close> and \<open>format\<close> are promslog's readings of the two flags.\<close>

definition logConfig :: "(string \<Rightarrow> 'level option) \<Rightarrow> (string \<Rightarrow> 'format option) \<Rightarrow> flags \<Rightarrow> ('level \<times> 'format) option" where
  "logConfig level format f =
     (case level (fl_LogLevel f) of
        None \<Rightarrow> None
      | Some l \<Rightarrow> (case format (fl_LogFormat f) of None \<Rightarrow> None | Some m \<Rightarrow> Some (l, m)))"

record web_flags =
  wf_WebListenAddresses :: "string list"
  wf_WebSystemdSocket :: bool
  wf_WebConfigFile :: string

definition webFlags :: "flags \<Rightarrow> web_flags" where
  "webFlags f = \<lparr>wf_WebListenAddresses = fl_WebListenAddresses f, wf_WebSystemdSocket = fl_WebSystemdSocket f,
     wf_WebConfigFile = fl_WebConfigFile f\<rparr>"

text \<open>
  \<^verbatim>\<open>main\<close>: the exit status of the process, once the listener has returned. Go ends a process that
  panics with status 2.
\<close>

definition main_exit ::
  "(string \<Rightarrow> bool) \<Rightarrow> string list \<Rightarrow> 'args parser \<Rightarrow> (string \<Rightarrow> 'level option) \<Rightarrow> (string \<Rightarrow> 'format option)
     \<Rightarrow> (string list \<Rightarrow> string list) \<Rightarrow> bool \<Rightarrow> (string \<Rightarrow> bool) \<Rightarrow> (landing_config \<Rightarrow> bool) \<Rightarrow> (web_flags \<Rightarrow> handler \<Rightarrow> mux \<Rightarrow> bool)
     \<Rightarrow> 'args \<Rightarrow> environment \<times> flags \<times> collectors \<Rightarrow> int" where
  "main_exit unsets names parse level format range_names registers named landing_page listens args es =
     (case parseFlags unsets names parse args es of
        (False, _) \<Rightarrow> 1
      | (True, _, f, s) \<Rightarrow>
          (case logConfig level format f of
             None \<Rightarrow> 1
           | Some _ \<Rightarrow>
               (case run_exporter range_names registers named landing_page (listens (webFlags f))
                   (fl_MetricsPath f) (fl_DisableExporterMetrics f) (fl_MaxRequests f)
                   (fl_DisableDefaultCollectors f) (fl_EnablePprof f) (Some (webFlags f)) s of
                  None \<Rightarrow> 2
                | Some (Inl _, _) \<Rightarrow> 1
                | Some (Inr _, _) \<Rightarrow> 0)))"

definition gitTag :: "string \<Rightarrow> string" where
  "gitTag version =
     (let v = trim_space version in
      if v = [] \<or> v = ''unknown'' then ''unknown''
      else if has_prefix v ''v'' then v
      else CHR ''v'' # v)"

text \<open>What the version package knows of the build.\<close>

record build_info =
  bi_Version :: string
  bi_Branch :: string
  bi_Revision :: string
  bi_BuildUser :: string
  bi_BuildDate :: string
  bi_GoVersion :: string
  bi_GoOS :: string
  bi_GoArch :: string
  bi_Tags :: string

definition versionString :: "build_info \<Rightarrow> string \<Rightarrow> string" where
  "versionString b program =
     program @ '', version '' @ bi_Version b @ '' (branch: '' @ bi_Branch b @ '', revision: '' @ bi_Revision b @ '')''
     @ [CHR 0x0A] @ ''  build user:       '' @ bi_BuildUser b
     @ [CHR 0x0A] @ ''  build date:       '' @ bi_BuildDate b
     @ [CHR 0x0A] @ ''  go version:       '' @ bi_GoVersion b
     @ [CHR 0x0A] @ ''  platform:         '' @ bi_GoOS b @ ''/'' @ bi_GoArch b
     @ [CHR 0x0A] @ ''  tags:             git='' @ gitTag (bi_Version b) @ '', go='' @ bi_Tags b"

subsection \<open>Facts of the handler\<close>

lemma enabled_builtin: "state_ok s \<Longrightarrow> enabled s n \<Longrightarrow> n \<in> set (map fst builtin)"
  using state_names [of s n] by (auto simp: enabled_def split: option.splits)

lemma innerHandler_ok:
  assumes "state_ok s" and "visits_names range_names"
  shows "case innerHandler range_names True filters (h, s) of
      (Inl e, h', s') \<Rightarrow> h' = h \<and> s' = s \<and> (\<exists>x. e = CreateFailed x \<and> check_filters s filters = Some x)
    | (Inr i, h', s') \<Rightarrow> list_all (enabled s) filters \<and> distinct (map fst (in_collectors i))
        \<and> map_of (in_collectors i) = (\<lambda>n. if chosen s filters n then map_of builtin n else None)
        \<and> state_ok s' \<and> enabled s' = enabled s
        \<and> in_exporterMetrics i = hn_includeExporterMetrics h \<and> in_maxRequests i = hn_maxRequests h
        \<and> h' = (if filters = [] \<and> \<not> hn_once h
            then h\<lparr>hn_once := True,
                   hn_enabledCollectors := sort (hn_enabledCollectors h @ range_names (map fst (in_collectors i)))\<rparr>
            else h)"
proof -
  note n = NewKasaCollector_ok [OF assms, of filters]
  have en: "enabled (s\<lparr>cs_initiated := i\<rparr>) = enabled s" for i
    by (simp add: enabled_def fun_eq_iff split: option.split)
  show ?thesis
    using n by (cases "NewKasaCollector range_names filters s"; cases "fst (NewKasaCollector range_names filters s)")
      (auto simp: innerHandler_def Let_def en)
qed

text \<open>The handler of a program that started: its collectors are those enabled at the start.\<close>

definition started :: "handler \<Rightarrow> collectors \<Rightarrow> bool" where
  "started h s \<longleftrightarrow> state_ok s \<and> hn_once h \<and> set (hn_enabledCollectors h) = {n. enabled s n}
     \<and> (\<exists>i. hn_unfiltered h = Some i \<and> distinct (map fst (in_collectors i))
          \<and> map_of (in_collectors i) = (\<lambda>n. if enabled s n then map_of builtin n else None))"

lemma newHandler_started:
  assumes "state_ok s" and "visits_names range_names"
  obtains h s' where "newHandler range_names True inc maxRequests s = (Inr h, s')" and "started h s'" and "enabled s' = enabled s"
proof -
  let ?h = "\<lparr>hn_unfiltered = None, hn_enabledCollectors = [], hn_once = False, hn_includeExporterMetrics = inc,
    hn_maxRequests = maxRequests\<rparr>"
  note i = innerHandler_ok [OF assms, of ?h "[]"]
  have "\<exists>x h' s'. innerHandler range_names True [] (?h, s) = (Inr x, h', s')"
    using i by (cases "innerHandler range_names True [] (?h, s)"; cases "fst (innerHandler range_names True [] (?h, s))") auto
  then obtain x h' s' where r: "innerHandler range_names True [] (?h, s) = (Inr x, h', s')" by blast
  have x: "distinct (map fst (in_collectors x))" "map_of (in_collectors x) = (\<lambda>n. if enabled s n then map_of builtin n else None)"
      "state_ok s'" "enabled s' = enabled s"
      "h' = ?h\<lparr>hn_once := True, hn_enabledCollectors := sort (range_names (map fst (in_collectors x)))\<rparr>"
    using i by (simp_all add: r chosen_def)
  have "set (range_names (map fst (in_collectors x))) = set (map fst (in_collectors x))"
    using assms(2) mset_eq_setD unfolding visits_names_def by blast
  also have "\<dots> = dom (map_of (in_collectors x))" by (simp add: dom_map_of_conv_image_fst)
  also have "\<dots> = {n. enabled s n}"
    using enabled_builtin [OF assms(1)] map_of_eq_None_iff [of builtin] by (fastforce simp: x(2) dom_def)
  finally have "started (h'\<lparr>hn_unfiltered := Some x\<rparr>) s'" using x by (simp add: started_def)
  then show ?thesis using r x(4) by (intro that [of "h'\<lparr>hn_unfiltered := Some x\<rparr>" s']) (simp_all add: newHandler_def)
qed

lemma ServeHTTP_started:
  assumes "started h s" and "visits_names range_names"
  shows "case ServeHTTP range_names True collects excludes (h, s) of
      (Served i, h', s') \<Rightarrow> h' = h \<and> started h s' \<and> enabled s' = enabled s
        \<and> (\<exists>x. i = Some x \<and> distinct (map fst (in_collectors x)) \<and> map_of (in_collectors x) =
             (\<lambda>n. if enabled s n \<and> (collects = [] \<or> n \<in> set collects) \<and> n \<notin> set excludes then map_of builtin n else None))
        \<and> (excludes = [] \<or> {n. enabled s n} - set excludes \<noteq> {})
    | (BadRequest reason, h', s') \<Rightarrow> h' = h \<and> s' = s \<and>
        (reason = CombinedQueries \<and> collects \<noteq> [] \<and> excludes \<noteq> []
         \<or> reason = AllExcluded \<and> {n. enabled s n} \<subseteq> set excludes \<and> excludes \<noteq> []
         \<or> (\<exists>n \<in> set collects. reason = FilterFailed (CreateFailed (MissingCollector n)) \<and> n \<notin> set (map fst builtin))
         \<or> (\<exists>n \<in> set collects. reason = FilterFailed (CreateFailed (Disabled n)) \<and> n \<in> set (map fst builtin) \<and> \<not> enabled s n))"
proof -
  have ok: "state_ok s" and once: "hn_once h" and en: "set (hn_enabledCollectors h) = {n. enabled s n}"
    using assms(1) by (auto simp: started_def)
  define filters where "filters = (if excludes = [] then collects else filter (\<lambda>c. c \<notin> set excludes) (hn_enabledCollectors h))"
  note i = innerHandler_ok [OF ok assms(2), of h filters]
  consider "collects = []" "excludes = []" | "collects \<noteq> []" "excludes \<noteq> []" | "excludes \<noteq> []" "collects = []" "filters = []"
    | "collects = [] \<longleftrightarrow> excludes \<noteq> []" "filters \<noteq> []" by (cases "collects = []"; cases "excludes = []"; cases "filters = []") (auto simp: filters_def)
  then show ?thesis
  proof cases
    case 1
    then show ?thesis using assms(1) by (auto simp: ServeHTTP_def started_def)
  next
    case 2
    then show ?thesis by (simp add: ServeHTTP_def)
  next
    case 3
    then have "{n. enabled s n} \<subseteq> set excludes" using en by (auto simp: filters_def filter_empty_conv)
    then show ?thesis using 3 filters_def by (simp add: ServeHTTP_def Let_def)
  next
    case 4
    have sv: "ServeHTTP range_names True collects excludes (h, s) =
        (case innerHandler range_names True filters (h, s) of
           (Inl e, h, s) \<Rightarrow> (BadRequest (FilterFailed e), h, s) | (Inr i, h, s) \<Rightarrow> (Served (Some i), h, s))"
      using 4 filters_def by (auto simp: ServeHTTP_def Let_def)
    obtain r h' s' where r: "innerHandler range_names True filters (h, s) = (r, h', s')" by (metis prod.collapse)
    show ?thesis
    proof (cases r)
      case (Inl e)
      then obtain x where x: "h' = h" "s' = s" "e = CreateFailed x" "check_filters s filters = Some x" using i r by auto
      have "excludes = []"
      proof (rule ccontr)
        assume "excludes \<noteq> []"
        then have "list_all (enabled s) filters" using en by (auto simp: filters_def list_all_iff)
        then show False using x(4) check_filters_None [of s filters] by simp
      qed
      then have f: "filters = collects" by (simp add: filters_def)
      have e: "ServeHTTP range_names True collects excludes (h, s) = (BadRequest (FilterFailed (CreateFailed x)), h, s)"
        by (simp add: sv r Inl x(1-3))
      show ?thesis
        using check_filters_Some [OF x(4)] unfolding e f state_names [OF ok, symmetric] by auto
    next
      case (Inr x)
      then have x: "h' = h" "state_ok s'" "enabled s' = enabled s" "distinct (map fst (in_collectors x))"
          "map_of (in_collectors x) = (\<lambda>n. if chosen s filters n then map_of builtin n else None)"
        using i r 4(2) by auto
      have "chosen s filters n \<longleftrightarrow> enabled s n \<and> (collects = [] \<or> n \<in> set collects) \<and> n \<notin> set excludes" for n
        using 4 en by (cases "excludes = []") (auto simp: chosen_def filters_def)
      moreover have "started h s'" using assms(1) x(2,3) by (simp add: started_def)
      moreover have "excludes = [] \<or> {n. enabled s n} - set excludes \<noteq> {}"
        using 4(2) en by (auto simp: filters_def filter_empty_conv split: if_splits)
      ultimately show ?thesis using x by (simp add: sv r Inr)
    qed
  qed
qed

subsection \<open>Facts of the routes\<close>

definition pprof_routes :: mux where
  "pprof_routes = [(''/debug/pprof/'', PprofIndex), (''/debug/pprof/cmdline'', PprofCmdline),
     (''/debug/pprof/profile'', PprofProfile), (''/debug/pprof/symbol'', PprofSymbol), (''/debug/pprof/trace'', PprofTrace)]"

text \<open>The paths the check is there to let through, and those that name a profiling route once their
  escapes are decoded.\<close>

definition fit_path :: "string \<Rightarrow> bool \<Rightarrow> bool" where
  "fit_path path enablePprof \<longleftrightarrow> path \<noteq> [] \<and> hd path = CHR ''/''
     \<and> set path \<inter> {CHR '' '', CHR 0x09, CHR 0x0D, CHR 0x0A, CHR ''{'', CHR ''}''} = {}
     \<and> \<not> (enablePprof \<and> take 13 path = ''/debug/pprof/'')"

definition clashing :: "string \<Rightarrow> bool" where
  "clashing path \<longleftrightarrow> pieces path \<in> set (map (\<lambda>x. [''debug'', ''pprof'', x]) [[], ''cmdline'', ''profile'', ''symbol'', ''trace''])"

lemma path_tests:
  "has_prefix path ''/'' \<longleftrightarrow> path \<noteq> [] \<and> hd path = CHR ''/''"
  "has_prefix path pprofPrefix \<longleftrightarrow> take 13 path = ''/debug/pprof/''"
  "contains_any path cs \<longleftrightarrow> set path \<inter> set cs \<noteq> {}"
proof -
  show "has_prefix path ''/'' \<longleftrightarrow> path \<noteq> [] \<and> hd path = CHR ''/''" by (cases path) (auto simp: has_prefix_def)
  have "length pprofPrefix = 13" by (simp add: pprofPrefix_def)
  then show "has_prefix path pprofPrefix \<longleftrightarrow> take 13 path = ''/debug/pprof/''"
    by (simp only: has_prefix_def) (simp only: pprofPrefix_def)
  show "contains_any path cs \<longleftrightarrow> set path \<inter> set cs \<noteq> {}" by (auto simp: contains_any_def list_ex_iff)
qed

lemma validate_fit: "validateMetricsPath path enablePprof = None \<longleftrightarrow> fit_path path enablePprof"
  unfolding validateMetricsPath_def fit_path_def path_tests by auto

lemma fit_plain: "fit_path path enablePprof \<Longrightarrow> plain_path path"
  by (auto simp: fit_path_def plain_path_def blank_def list_all_iff)

lemma pprof_plain: "list_all plain_path (''/'' # map fst pprof_routes)"
  by (simp add: pprof_routes_def plain_path_def blank_def)

lemma pprof_pieces:
  "pieces ''/debug/pprof/'' = [''debug'', ''pprof'', []]" "pieces ''/debug/pprof/cmdline'' = [''debug'', ''pprof'', ''cmdline'']"
  "pieces ''/debug/pprof/profile'' = [''debug'', ''pprof'', ''profile'']" "pieces ''/debug/pprof/symbol'' = [''debug'', ''pprof'', ''symbol'']"
  "pieces ''/debug/pprof/trace'' = [''debug'', ''pprof'', ''trace'']" "pieces ''/'' = [[]]"
  by (simp_all add: pieces_def unescape_plain)

lemma root_pieces: "plain_path path \<Longrightarrow> pieces path = [[]] \<longleftrightarrow> path = ''/''"
proof -
  assume "plain_path path"
  then obtain s where s: "path = CHR ''/'' # s" by (cases path) (auto simp: plain_path_def)
  have "split_slash s = [[]] \<longleftrightarrow> s = []" by (cases s) (auto split: list.splits if_splits)
  then show ?thesis by (auto simp: pieces_def s map_eq_Cons_conv)
qed

lemma pprof_map:
  "map (pieces \<circ> fst) pprof_routes = map (\<lambda>x. [''debug'', ''pprof'', x]) [[], ''cmdline'', ''profile'', ''symbol'', ''trace'']"
  by (simp add: pprof_routes_def pprof_pieces)

lemma handle_all:
  "\<lbrakk>plain_path path; list_all plain_path (map fst rs); distinct (map (pieces \<circ> fst) rs)\<rbrakk>
    \<Longrightarrow> fold (\<lambda>(s, t). mux_handle named s t) rs (Some [(path, target)])
      = (if pieces path \<in> set (map (pieces \<circ> fst) rs) then None else Some ((path, target) # rs))"
proof (induction rs rule: rev_induct)
  case (snoc r rs)
  obtain s t where r: "r = (s, t)" by fastforce
  show ?case using snoc by (auto simp: r handle_plain)
qed simp

lemma pprof_handled:
  assumes "plain_path path"
  shows "mux_handle named ''/debug/pprof/trace'' PprofTrace (mux_handle named ''/debug/pprof/symbol'' PprofSymbol
       (mux_handle named ''/debug/pprof/profile'' PprofProfile (mux_handle named ''/debug/pprof/cmdline'' PprofCmdline
         (mux_handle named pprofPrefix PprofIndex (Some [(path, MetricsRoute)])))))
    = (if clashing path then None else Some ((path, MetricsRoute) # pprof_routes))"
proof -
  have "distinct (map (pieces \<circ> fst) pprof_routes)" by (simp add: pprof_map)
  then have "fold (\<lambda>(s, t). mux_handle named s t) pprof_routes (Some [(path, MetricsRoute)])
      = (if clashing path then None else Some ((path, MetricsRoute) # pprof_routes))"
    using handle_all [OF assms, of pprof_routes named MetricsRoute] pprof_plain unfolding clashing_def pprof_map by simp
  then show ?thesis unfolding pprof_routes_def pprofPrefix_def by simp
qed

lemma buildMux_fit:
  "buildMux named landing_page path enablePprof =
     (case validateMetricsPath path enablePprof of
        Some e \<Rightarrow> Some (Inl (BadPath e))
      | None \<Rightarrow>
          if enablePprof \<and> clashing path then None
          else Some (if path = ''/'' then Inr ((path, MetricsRoute) # (if enablePprof then pprof_routes else []))
            else if landing_page \<lparr>ld_Profiling = (if enablePprof then ''true'' else ''false''), ld_Address = path\<rparr>
            then Inr ((path, MetricsRoute) # (if enablePprof then pprof_routes else []) @ [(''/'', LandingRoute)])
            else Inl LandingFailed))"
proof (cases "validateMetricsPath path enablePprof")
  case None
  then have v: "plain_path path" by (simp add: validate_fit fit_plain)
  have first: "mux_handle named path MetricsRoute (Some []) = Some [(path, MetricsRoute)]" by (simp add: handle_plain v)
  let ?rest = "if enablePprof then pprof_routes else []"
  let ?m = "(path, MetricsRoute) # ?rest"
  have "list_all plain_path (map fst ?m)" "plain_path ''/''" using pprof_plain v by simp_all
  note last = handle_plain [OF this(2,1)]
  have "pieces ''/'' \<notin> set (map (pieces \<circ> fst) ?m)" if "path \<noteq> ''/''"
  proof -
    have "pieces path \<noteq> [[]]" using that root_pieces [OF v] by blast
    moreover have "[[]] \<notin> set (map (pieces \<circ> fst) pprof_routes)" unfolding pprof_map by simp
    ultimately show ?thesis by (simp only: pprof_pieces) (cases enablePprof, auto)
  qed
  then have "mux_handle named ''/'' LandingRoute (Some ?m) = Some (?m @ [(''/'', LandingRoute)])" if "path \<noteq> ''/''"
    using that unfolding last by (simp only: if_False not_False_eq_True simp_thms)
  note last = this
  show ?thesis
    unfolding buildMux_def None option.case Let_def first pprof_handled [OF v]
    using last by (cases "path = ''/''"; cases enablePprof; cases "clashing path") simp_all
qed (simp add: buildMux_def)

text \<open>A path can only clash by an escape.\<close>

lemma join_split_slash: "join_slash (split_slash s) = s"
proof (induction s)
  case (Cons c s)
  obtain p ps where p: "split_slash s = p # ps" by (meson neq_Nil_conv split_slash_neq)
  have "join_slash ((c # p) # ps) = c # join_slash (p # ps)" by (cases ps) simp_all
  then show ?case using Cons p by simp
qed simp

lemma clash_escaped:
  assumes "fit_path path True" and "clashing path"
  shows "CHR 0x25 \<in> set path"
proof (rule ccontr)
  assume "CHR 0x25 \<notin> set path"
  then have "pieces path = split_slash (tl path)"
    using split_slash_chars by (cases path) (auto simp: pieces_def intro!: map_idI unescape_plain)
  then obtain x where "split_slash (tl path) = [''debug'', ''pprof'', x]"
    using assms(2) by (auto simp: clashing_def)
  then have "tl path = ''debug/pprof/'' @ x" using join_split_slash [of "tl path"] by simp
  then show False using assms(1) by (cases path) (auto simp: fit_path_def)
qed

lemma buildMux_escaped:
  "validateMetricsPath ''/debug/%70prof/'' True = None \<and> clashing ''/debug/%70prof/''"
proof -
  have "path_unescape ''%70prof'' = ''pprof''" by code_simp
  then show ?thesis
    by (simp add: validateMetricsPath_def contains_any_def has_prefix_def pprofPrefix_def clashing_def pieces_def unescape_plain)
qed

text \<open>Emptied variables count as unset: what kong sees of the environment.\<close>

lemma unset_empty_env:
  "unset_empty unsets names env = (True, env') \<Longrightarrow>
    env' = (\<lambda>n. if n \<in> set names \<and> env n = Some [] then None else env n)"
  by (induction names arbitrary: env) (auto simp: fun_eq_iff split: if_splits)

lemma gitTag_form: "gitTag version = ''unknown'' \<or> has_prefix (gitTag version) ''v''"
  by (simp add: gitTag_def Let_def has_prefix_def)

lemma run_exporter_started:
  assumes "state_ok s" and "visits_names range_names"
    and "run_exporter range_names True named landing_page listens metricsPath disableExporterMetrics maxRequests
      disableDefaultCollectors enablePprof toolkit s = Some (Inr (h, m), s1)"
  shows "started h s1" and "enabled s1 = enabled (if disableDefaultCollectors then DisableDefaultCollectors s else s)"
proof -
  let ?s = "if disableDefaultCollectors then DisableDefaultCollectors s else s"
  have "state_ok ?s" using assms(1) disable_ok(1) by simp
  then obtain h' s' where h: "newHandler range_names True (\<not> disableExporterMetrics) maxRequests ?s = (Inr h', s')"
      "started h' s'" "enabled s' = enabled ?s"
    using newHandler_started [OF _ assms(2)] by metis
  then have "h = h'" "s1 = s'"
    using assms(3) unfolding run_exporter_def Let_def
    by (auto split: if_splits option.splits sum.splits)
  then show "started h s1" "enabled s1 = enabled ?s" using h by simp_all
qed

text \<open>The whole start, once the command line is read.\<close>

lemma mark_ok: "state_ok s \<Longrightarrow> state_ok (MarkForcedCollectors path s)"
proof -
  assume "state_ok s"
  then have "state_ok (s\<lparr>cs_forced := forced\<rparr>)" for forced by (simp add: state_ok_def)
  then show ?thesis using mark_forced(2) [of path s] by metis
qed

lemma main_started:
  assumes "unset_empty unsets names env = (True, env')" and "parse env' args (f0, s0) = (Some path, f, s)"
    and "state_ok s" and "visits_names range_names"
  obtains h s1 where "started h s1"
    and "enabled s1 = enabled (if fl_DisableDefaultCollectors f then DisableDefaultCollectors (MarkForcedCollectors path s)
           else MarkForcedCollectors path s)"
    and "main_exit unsets names parse level format range_names True named landing_page listens args (env, f0, s0) =
      (if logConfig level format f = None \<or> \<not> fit_path (fl_MetricsPath f) (fl_EnablePprof f) then 1
       else if fl_EnablePprof f \<and> clashing (fl_MetricsPath f) then 2
       else if (fl_MetricsPath f = ''/'' \<or> landing_page \<lparr>ld_Profiling = (if fl_EnablePprof f then ''true'' else ''false''),
              ld_Address = fl_MetricsPath f\<rparr>)
         \<and> listens (webFlags f) h ((fl_MetricsPath f, MetricsRoute) # (if fl_EnablePprof f then pprof_routes else [])
              @ (if fl_MetricsPath f = ''/'' then [] else [(''/'', LandingRoute)]))
       then 0 else 1)"
proof -
  let ?p = "MarkForcedCollectors path s"
  let ?s = "if fl_DisableDefaultCollectors f then DisableDefaultCollectors ?p else ?p"
  have "state_ok ?s" using mark_ok [OF assms(3)] disable_ok(1) by simp
  then obtain h s1 where n: "newHandler range_names True (\<not> fl_DisableExporterMetrics f) (fl_MaxRequests f) ?s = (Inr h, s1)"
      "started h s1" "enabled s1 = enabled ?s"
    using newHandler_started [OF _ assms(4)] by metis
  have pf: "parseFlags unsets names parse args (env, f0, s0) = (True, env', f, ?p)"
    by (simp add: parseFlags_def assms(1,2))
  have run: "run_exporter range_names True named landing_page (listens (webFlags f)) (fl_MetricsPath f) (fl_DisableExporterMetrics f)
      (fl_MaxRequests f) (fl_DisableDefaultCollectors f) (fl_EnablePprof f) (Some (webFlags f)) ?p
    = (case buildMux named landing_page (fl_MetricsPath f) (fl_EnablePprof f) of
         None \<Rightarrow> None
       | Some (Inl e) \<Rightarrow> Some (Inl (MuxFailed e), s1)
       | Some (Inr m) \<Rightarrow> Some (if listens (webFlags f) h m then Inr (h, m) else Inl ListenFailed, s1))"
    unfolding run_exporter_def Let_def n(1) by simp
  have "main_exit unsets names parse level format range_names True named landing_page listens args (env, f0, s0) =
      (if logConfig level format f = None \<or> \<not> fit_path (fl_MetricsPath f) (fl_EnablePprof f) then 1
       else if fl_EnablePprof f \<and> clashing (fl_MetricsPath f) then 2
       else if (fl_MetricsPath f = ''/'' \<or> landing_page \<lparr>ld_Profiling = (if fl_EnablePprof f then ''true'' else ''false''),
              ld_Address = fl_MetricsPath f\<rparr>)
         \<and> listens (webFlags f) h ((fl_MetricsPath f, MetricsRoute) # (if fl_EnablePprof f then pprof_routes else [])
              @ (if fl_MetricsPath f = ''/'' then [] else [(''/'', LandingRoute)]))
       then 0 else 1)"
    unfolding main_exit_def pf prod.case bool.case run buildMux_fit validate_fit [symmetric]
    by (cases "logConfig level format f"; cases "validateMetricsPath (fl_MetricsPath f) (fl_EnablePprof f)") simp_all
  then show ?thesis by (rule that [OF n(2,3)])
qed

subsection \<open>Properties\<close>

text \<open>C6. A request gets what it asks for: once the exporter runs, a request is served by exactly the
  enabled collectors that \<^verbatim>\<open>collect[]\<close> names, or all without it, less those \<^verbatim>\<open>exclude[]\<close> names. It is
  refused only for using both, for excluding every enabled collector (never served everything
  instead) or for naming one that is unknown or disabled, and no request changes what the next is
  served.\<close>

theorem request_served_exactly:
  assumes "state_ok s" and "visits_names range_names"
    and "run_exporter range_names True named landing_page listens metricsPath disableExporterMetrics maxRequests
      disableDefaultCollectors enablePprof toolkit s = Some (Inr (h, m), s1)"
  defines "on \<equiv> enabled (if disableDefaultCollectors then DisableDefaultCollectors s else s)"
  shows "case ServeHTTP range_names True collects excludes (h, s1) of
      (Served i, h', s') \<Rightarrow> h' = h \<and> started h s' \<and> enabled s' = on
        \<and> (\<exists>x. i = Some x \<and> distinct (map fst (in_collectors x)) \<and> map_of (in_collectors x) =
             (\<lambda>n. if on n \<and> (collects = [] \<or> n \<in> set collects) \<and> n \<notin> set excludes then map_of builtin n else None))
        \<and> (excludes = [] \<or> {n. on n} - set excludes \<noteq> {})
    | (BadRequest reason, h', s') \<Rightarrow> h' = h \<and> s' = s1 \<and>
        (reason = CombinedQueries \<and> collects \<noteq> [] \<and> excludes \<noteq> []
         \<or> reason = AllExcluded \<and> {n. on n} \<subseteq> set excludes \<and> excludes \<noteq> []
         \<or> (\<exists>n \<in> set collects. reason = FilterFailed (CreateFailed (MissingCollector n)) \<and> n \<notin> set (map fst builtin))
         \<or> (\<exists>n \<in> set collects. reason = FilterFailed (CreateFailed (Disabled n)) \<and> n \<in> set (map fst builtin) \<and> \<not> on n))"
  using ServeHTTP_started [OF run_exporter_started(1) [OF assms(1-3)] assms(2), of collects excludes]
  unfolding on_def run_exporter_started(2) [OF assms(1-3)] .

text \<open>C38. The routes, for every metrics path: one that is empty, does not start with a slash, holds a
  blank or line break, holds a brace or lies below the profiling routes when they are enabled is reported
  as just that; any other gives the metrics at that path, the profiling routes when enabled, and the
  landing page at the root unless the metrics are there. The start panics in one case only, which the
  check misses: profiling is enabled and the path names a profiling route by percent escapes, as
  \<^verbatim>\<open>/debug/%70prof/\<close> does.\<close>

theorem routes_built:
  "buildMux named landing_page path enablePprof =
     (if path = [] then Some (Inl (BadPath EmptyPath))
      else if hd path \<noteq> CHR ''/'' then Some (Inl (BadPath NoSlash))
      else if set path \<inter> {CHR '' '', CHR 0x09, CHR 0x0D, CHR 0x0A} \<noteq> {} then Some (Inl (BadPath Whitespace))
      else if set path \<inter> {CHR ''{'', CHR ''}''} \<noteq> {} then Some (Inl (BadPath Wildcard))
      else if enablePprof \<and> take 13 path = ''/debug/pprof/'' then Some (Inl (BadPath PprofConflict))
      else if enablePprof \<and> clashing path then None
      else if path = ''/'' then Some (Inr ((path, MetricsRoute) # (if enablePprof then pprof_routes else [])))
      else if landing_page \<lparr>ld_Profiling = (if enablePprof then ''true'' else ''false''), ld_Address = path\<rparr>
      then Some (Inr ((path, MetricsRoute) # (if enablePprof then pprof_routes else []) @ [(''/'', LandingRoute)]))
      else Some (Inl LandingFailed))
   \<and> buildMux named landing_page ''/debug/%70prof/'' True = None"
proof
  show "buildMux named landing_page ''/debug/%70prof/'' True = None"
    using buildMux_escaped by (simp add: buildMux_fit)
  show "buildMux named landing_page path enablePprof =
     (if path = [] then Some (Inl (BadPath EmptyPath))
      else if hd path \<noteq> CHR ''/'' then Some (Inl (BadPath NoSlash))
      else if set path \<inter> {CHR '' '', CHR 0x09, CHR 0x0D, CHR 0x0A} \<noteq> {} then Some (Inl (BadPath Whitespace))
      else if set path \<inter> {CHR ''{'', CHR ''}''} \<noteq> {} then Some (Inl (BadPath Wildcard))
      else if enablePprof \<and> take 13 path = ''/debug/pprof/'' then Some (Inl (BadPath PprofConflict))
      else if enablePprof \<and> clashing path then None
      else if path = ''/'' then Some (Inr ((path, MetricsRoute) # (if enablePprof then pprof_routes else [])))
      else if landing_page \<lparr>ld_Profiling = (if enablePprof then ''true'' else ''false''), ld_Address = path\<rparr>
      then Some (Inr ((path, MetricsRoute) # (if enablePprof then pprof_routes else []) @ [(''/'', LandingRoute)]))
      else Some (Inl LandingFailed))"
    unfolding buildMux_fit validateMetricsPath_def path_tests by simp
qed

theorem routes_built_witness:
  "buildMux (\<lambda>_. True) (\<lambda>_. True) ''/metrics'' False = Some (Inr [(''/metrics'', MetricsRoute), (''/'', LandingRoute)])
   \<and> buildMux (\<lambda>_. True) (\<lambda>_. True) ''/me trics'' False = Some (Inl (BadPath Whitespace))
   \<and> buildMux (\<lambda>_. True) (\<lambda>_. True) ''/{metrics'' False = Some (Inl (BadPath Wildcard))"
  using routes_built [of "\<lambda>_. True" "\<lambda>_. True" "''/metrics''" False]
    routes_built [of "\<lambda>_. True" "\<lambda>_. True" "''/me trics''" False]
    routes_built [of "\<lambda>_. True" "\<lambda>_. True" "''/{metrics''" False]
  by simp

theorem request_served_exactly_witness:
  "\<exists>h m s1. run_exporter rev True (\<lambda>_. True) (\<lambda>_. True) (\<lambda>_ _. True) ''/metrics'' False 40 False False (Some ()) initial_collectors
      = Some (Inr (h, m), s1)
    \<and> fst (ServeHTTP rev True [] (map fst builtin) (h, s1)) = BadRequest AllExcluded
    \<and> (\<exists>i. fst (ServeHTTP rev True [] [''hub''] (h, s1)) = Served (Some i)
         \<and> map_of (in_collectors i) ''hub'' = None \<and> map_of (in_collectors i) ''plug'' = Some (PlugCollector NewPlugCollector))"
proof -
  have v: "visits_names rev" by (simp add: visits_names_def)
  obtain h s1 where n: "newHandler rev True True 40 initial_collectors = (Inr h, s1)"
    using newHandler_started [OF initial_state_ok v] by metis
  have "\<exists>m. buildMux (\<lambda>_. True) (\<lambda>_. True) ''/metrics'' False = Some (Inr m)"
    by (simp add: buildMux_fit validateMetricsPath_def contains_any_def has_prefix_def)
  then obtain m where r: "run_exporter rev True (\<lambda>_. True) (\<lambda>_. True) (\<lambda>_ _. True) ''/metrics'' False 40 False False (Some ()) initial_collectors
      = Some (Inr (h, m), s1)"
    by (auto simp: run_exporter_def n)
  note q = request_served_exactly [OF initial_state_ok v r]
  have en: "enabled (if False then DisableDefaultCollectors initial_collectors else initial_collectors) k \<longleftrightarrow> k \<in> set (map fst builtin)" for k
    by (simp add: initial_enabled)
  have ne: "builtin \<noteq> []" by (simp add: builtin_def)
  have all: "fst (ServeHTTP rev True [] (map fst builtin) (h, s1)) = BadRequest AllExcluded"
    using q [of "[]" "map fst builtin"] ne unfolding en
    by (auto split: prod.splits response.splits)
  have two: "\<not> fst ` set builtin \<subseteq> {''hub''}" by (simp add: builtin_def)
  obtain i where i: "fst (ServeHTTP rev True [] [''hub''] (h, s1)) = Served (Some i)"
      "map_of (in_collectors i) = (\<lambda>k. if k \<in> set (map fst builtin) \<and> ([] = [] \<or> k \<in> set []) \<and> k \<notin> set [''hub''] then map_of builtin k else None)"
    using q [of "[]" "[''hub'']"] two unfolding en
    by (auto split: prod.splits response.splits)
  have "map_of (in_collectors i) ''hub'' = None" "map_of (in_collectors i) ''plug'' = Some (PlugCollector NewPlugCollector)"
    by (simp_all add: i(2) builtin_def)
  with r all i(1) show ?thesis by blast
qed

text \<open>C18. The exit status, with a command line kong accepts: 1 when the log settings cannot be read or the
  metrics path is unfit (empty, without its slash, with a blank, a line break or a brace, or below the
  enabled profiling routes); 2, Go's status after a panic, exactly when profiling is enabled and the path
  is an escaped profiling route; 0 when otherwise the landing page is built and the listener, started on
  the handler of the collectors then enabled and on the routes, returns without an error; and 1 when one
  of these fails, as when the command line is rejected.\<close>

theorem program_exit:
  assumes "unset_empty unsets names env = (True, env')" and "parse env' args (f0, s0) = (Some path, f, s)"
    and "state_ok s" and "visits_names range_names"
  shows "\<exists>h s1. started h s1
    \<and> enabled s1 = enabled (if fl_DisableDefaultCollectors f then DisableDefaultCollectors (MarkForcedCollectors path s)
         else MarkForcedCollectors path s)
    \<and> main_exit unsets names parse level format range_names True named landing_page listens args (env, f0, s0) =
      (if logConfig level format f = None \<or> \<not> fit_path (fl_MetricsPath f) (fl_EnablePprof f) then 1
       else if fl_EnablePprof f \<and> clashing (fl_MetricsPath f) then 2
       else if (fl_MetricsPath f = ''/'' \<or> landing_page \<lparr>ld_Profiling = (if fl_EnablePprof f then ''true'' else ''false''),
              ld_Address = fl_MetricsPath f\<rparr>)
         \<and> listens (webFlags f) h ((fl_MetricsPath f, MetricsRoute) # (if fl_EnablePprof f then pprof_routes else [])
              @ (if fl_MetricsPath f = ''/'' then [] else [(''/'', LandingRoute)]))
       then 0 else 1)
    \<and> main_exit unsets names (\<lambda>e a fs. (None, fs)) level format range_names True named landing_page listens args (env, f0, s0) = 1"
proof -
  have "parseFlags unsets names (\<lambda>e a fs. (None, fs)) args (env, f0, s0) = (False, env', f0, s0)"
    by (simp add: parseFlags_def assms(1))
  then have "main_exit unsets names (\<lambda>e a fs. (None, fs)) level format range_names True named landing_page listens args (env, f0, s0) = 1"
    by (simp add: main_exit_def)
  moreover note main_started [where parse = parse and args = args and level = level and format = format and named = named
        and landing_page = landing_page and listens = listens, OF assms]
  ultimately show ?thesis by blast
qed

theorem program_exit_witness:
  "let parse = (\<lambda>env args fs. (if env ''GOMAXPROCS'' = None then Some [] else None, fs));
       exit_with = (\<lambda>f. main_exit (\<lambda>_. True) [''GOMAXPROCS''] parse Some Some rev True (\<lambda>_. True) (\<lambda>_. True) (\<lambda>_ _ _. True) []
         (Map.empty(''GOMAXPROCS'' \<mapsto> []), f, initial_collectors)) in
   exit_with default_flags = 0
   \<and> exit_with (default_flags\<lparr>fl_MetricsPath := ''/me trics''\<rparr>) = 1
   \<and> exit_with (default_flags\<lparr>fl_MetricsPath := ''/{metrics''\<rparr>) = 1
   \<and> exit_with (default_flags\<lparr>fl_MetricsPath := ''/debug/%70prof/'', fl_EnablePprof := True\<rparr>) = 2"
proof -
  have v: "visits_names rev" by (simp add: visits_names_def)
  have u: "unset_empty (\<lambda>_. True) [''GOMAXPROCS''] (Map.empty(''GOMAXPROCS'' \<mapsto> [])) = (True, Map.empty)"
    by (simp add: fun_eq_iff)
  let ?parse = "\<lambda>env args fs. (if env ''GOMAXPROCS'' = None then Some [] else None, fs)"
  have p: "?parse Map.empty [] (f, initial_collectors) = (Some [], f, initial_collectors)" for f :: flags
    by simp
  note q = program_exit [where parse = ?parse, OF u p initial_state_ok v,
      where args = "[]" and level = Some and format = Some and landing_page = "\<lambda>_. True" and listens = "\<lambda>_ _ _. True"
        and named = "\<lambda>_. True"]
  have e: "main_exit (\<lambda>_. True) [''GOMAXPROCS''] ?parse Some Some rev True (\<lambda>_. True) (\<lambda>_. True) (\<lambda>_ _ _. True) []
         (Map.empty(''GOMAXPROCS'' \<mapsto> []), f, initial_collectors)
      = (if \<not> fit_path (fl_MetricsPath f) (fl_EnablePprof f) then 1
         else if fl_EnablePprof f \<and> clashing (fl_MetricsPath f) then 2 else 0)" for f
    using q [of f] by (auto simp: logConfig_def)
  show ?thesis
    unfolding Let_def e using buildMux_escaped by (simp add: default_flags_def fit_path_def)
qed

end
