(* ===== verification/Text.thy ===== *)
theory Text
  imports Metrics
begin

text \<open>
  The texts the exporter shows: every string decoded from a device is valid UTF-8, a reading holds
  only such strings, and so does every snapshot of a running fleet. A scrape therefore builds
  metrics that \<^verbatim>\<open>MustNewConstMetric\<close> accepts.
\<close>

subsection \<open>Valid texts\<close>

lemma valid_utf8_append: "valid_utf8 a \<Longrightarrow> valid_utf8 b \<Longrightarrow> valid_utf8 (a @ b)"
proof (induction a rule: valid_utf8.induct)
  case (2 c s)
  obtain r w where d: "decode_rune (c # s) = Some (r, w)" and v: "valid_utf8 (drop (w - 1) s)"
    using 2(2) by (auto split: option.splits)
  have w: "1 \<le> w" "w - 1 \<le> length s" using decode_rune_width [OF d] by auto
  have "take w (c # s) @ drop w (c # s) @ b = c # s @ b" by (metis append_Cons append_assoc append_take_drop_id)
  then have "decode_rune (c # s @ b) = Some (r, w)" using decode_rune_local [OF d] by metis
  then show ?case using 2(1) [OF d refl v 2(3)] w by simp
qed simp

lemma valid_encode_rune [simp]: "valid_utf8 (encode_rune r)"
proof -
  define q where "q = (if 0x10FFFF < r \<or> (0xD800 \<le> r \<and> r \<le> 0xDFFF) then replacement else r)"
  have q: "q \<le> 0x10FFFF" "\<not> (0xD800 \<le> q \<and> q \<le> 0xDFFF)" by (auto simp: q_def replacement_def)
  then have e: "encode_rune r = encode_rune q" unfolding encode_rune_def q_def Let_def by simp
  have d: "decode_rune (encode_rune q) = Some (q, length (encode_rune q))" using decode_encode [OF q, of "[]"] by simp
  then obtain c s where "encode_rune q = c # s" by (cases "encode_rune q") (auto simp: decode_rune_def)
  then show ?thesis using d by (simp add: e)
qed

lemma valid_rune_text: "decode_rune s = Some (r, w) \<Longrightarrow> valid_utf8 (take w s)"
  by (simp add: decode_rune_canonical)

lemma valid_ascii: "(of_char c :: nat) < 0x80 \<Longrightarrow> valid_utf8 [c]"
  by (intro ascii_valid) simp

lemma prepend_valid:
  assumes "prepend x u = Some (v, rest)" and "valid_utf8 x" and "\<And>y. u = Some (y, rest) \<Longrightarrow> valid_utf8 y"
  shows "valid_utf8 v"
  using assms by (cases u) (auto simp: prepend_def valid_utf8_append)

lemma simple_escape_ascii: "simple_escape e = Some d \<Longrightarrow> (of_char d :: nat) < 0x80"
  by (auto simp: simple_escape_def split: if_splits)

lemma unquote_valid: "unquote s = Some (v, rest) \<Longrightarrow> valid_utf8 v"
proof (induction s arbitrary: v rest rule: measure_induct_rule [of length])
  case (less s)
  obtain c t where s: "s = c # t" using less.prems by (cases s) auto
  have IH: "valid_utf8 y" if "unquote u = Some (y, rest)" "length u < length s" for u y
    using less.IH [OF that(2,1)] .
  note prems = less.prems [unfolded s unquote.simps(2)]
  show ?case
  proof (cases "c = bslash")
    case True
    then show ?thesis
      using prems IH
      by (auto simp: s split: list.splits if_splits option.splits elim!: prepend_valid
          intro!: valid_ascii dest: simple_escape_ascii)
  next
    case False
    then show ?thesis
      using prems IH
      by (auto simp: s split: if_splits option.splits elim!: prepend_valid
          intro!: valid_ascii valid_rune_text)
  qed
qed

subsection \<open>Decoded values\<close>

fun utf8_json :: "json \<Rightarrow> bool" where
  "utf8_json (JStr s) = valid_utf8 s"
| "utf8_json (JArr js) = list_all utf8_json js"
| "utf8_json (JObj ms) = list_all (\<lambda>(k, v). valid_utf8 k \<and> utf8_json v) ms"
| "utf8_json _ = True"

lemma literal_text: "literal word j s = Some (j', rest) \<Longrightarrow> utf8_json j \<Longrightarrow> utf8_json j'"
  by (auto simp: literal_def split: if_splits)

lemma pval_text:
  assumes "pval (Suc k) d s = Some (j, rest)"
    and "\<And>d s ms rest. pmembers k d s = Some (ms, rest) \<Longrightarrow> list_all (\<lambda>(key, v). valid_utf8 key \<and> utf8_json v) ms"
    and "\<And>d s js rest. pelems k d s = Some (js, rest) \<Longrightarrow> list_all utf8_json js"
  shows "utf8_json j"
  using assms(1) by (auto split: list.splits if_splits dest: assms(2,3) unquote_valid literal_text)

lemma pelems_text:
  assumes "pelems (Suc k) d s = Some (js, rest)"
    and "\<And>d s j rest. pval k d s = Some (j, rest) \<Longrightarrow> utf8_json j"
    and "\<And>d s js rest. pelems k d s = Some (js, rest) \<Longrightarrow> list_all utf8_json js"
  shows "list_all utf8_json js"
  using assms(1) by (auto split: list.splits if_splits option.splits) (erule assms(2) assms(3))+

lemma pmembers_text:
  assumes "pmembers (Suc k) d s = Some (ms, rest)"
    and "\<And>d s j rest. pval k d s = Some (j, rest) \<Longrightarrow> utf8_json j"
    and "\<And>d s ms rest. pmembers k d s = Some (ms, rest) \<Longrightarrow> list_all (\<lambda>(key, v). valid_utf8 key \<and> utf8_json v) ms"
  shows "list_all (\<lambda>(key, v). valid_utf8 key \<and> utf8_json v) ms"
  using assms(1) by (auto split: list.splits if_splits option.splits) (erule assms(2) assms(3) unquote_valid)+

lemma parsed_text:
  "pval k d s = Some (j, rest) \<Longrightarrow> utf8_json j"
  "pelems k d s = Some (js, rest) \<Longrightarrow> list_all utf8_json js"
  "pmembers k d s = Some (ms, rest) \<Longrightarrow> list_all (\<lambda>(key, v). valid_utf8 key \<and> utf8_json v) ms"
proof (induction k arbitrary: d s j js ms rest)
  case (Suc k)
  {
    case 1
    then show ?case by (rule pval_text) (fact Suc)+
  next
    case 2
    then show ?case by (rule pelems_text) (fact Suc)+
  next
    case 3
    then show ?case by (rule pmembers_text) (fact Suc)+
  }
qed simp_all

lemma parse_json_text:
  assumes "parse_json s = Some j" shows "utf8_json j"
proof -
  obtain rest where "pval (2 * length s + 1) maxNestingDepth s = Some (j, rest)"
    using assms unfolding parse_json_def by (auto simp del: pval.simps split: option.splits if_splits)
  then show ?thesis by (rule parsed_text(1))
qed

text \<open>A decoder keeps a condition on what it fills, given a value of valid strings.\<close>

definition keeps :: "('a \<Rightarrow> bool) \<Rightarrow> 'a decoder \<Rightarrow> bool" where
  "keeps P d \<longleftrightarrow> (\<forall>j old x. utf8_json j \<longrightarrow> P old \<longrightarrow> d j old = Some x \<longrightarrow> P x)"

lemma keepsD: "keeps P d \<Longrightarrow> utf8_json j \<Longrightarrow> P old \<Longrightarrow> d j old = Some x \<Longrightarrow> P x"
  by (simp add: keeps_def)

lemma keeps_True [simp]: "keeps (\<lambda>_. True) d"
  by (simp add: keeps_def)

lemma keeps_string [simp]: "keeps valid_utf8 dec_string"
  by (auto simp: keeps_def dec_string_def split: json.splits)

lemma keeps_raw [simp]: "keeps (pred_option utf8_json) dec_raw"
  by (simp add: keeps_def dec_raw_def)

lemma keeps_ptr: "keeps P d \<Longrightarrow> P zero \<Longrightarrow> keeps (pred_option P) (dec_ptr zero d)"
  by (subst keeps_def) (auto simp: dec_ptr_def split: json.splits option.splits dest: keepsD)

lemma keeps_elems:
  "keeps P d \<Longrightarrow> P zero \<Longrightarrow> list_all utf8_json js \<Longrightarrow> list_all P old \<Longrightarrow> dec_elems zero d js old = Some xs \<Longrightarrow> list_all P xs"
proof (induction js arbitrary: old xs)
  case (Cons j js)
  obtain v vs where v: "d j (case old of [] \<Rightarrow> zero | v # _ \<Rightarrow> v) = Some v" "dec_elems zero d js (drop 1 old) = Some vs" "xs = v # vs"
    using Cons.prems(5) by (auto split: option.splits)
  have "P (case old of [] \<Rightarrow> zero | v # _ \<Rightarrow> v)" "list_all P (drop 1 old)"
    using Cons.prems(2,4) by (cases old; simp)+
  moreover from this v(1) have "P v" using keepsD [OF Cons.prems(1)] Cons.prems(3) by (metis list.pred_inject(2))
  ultimately show ?case using Cons.IH [OF Cons.prems(1,2)] Cons.prems(3) v by simp
qed simp

lemma keeps_slice: "keeps P d \<Longrightarrow> P zero \<Longrightarrow> keeps (list_all P) (dec_slice zero d)"
  by (subst keeps_def) (auto simp: dec_slice_def split: json.splits intro: keeps_elems)

lemma find_field_mem: "find_field fs key = Some f \<Longrightarrow> f \<in> set fs"
  by (auto simp: find_field_def find_Some_iff split: option.splits) (metis nth_mem)+

lemma keeps_members:
  assumes "list_all (\<lambda>f. keeps P (snd f)) fs"
  shows "list_all (\<lambda>(k, v). valid_utf8 k \<and> utf8_json v) ms \<Longrightarrow> P old \<Longrightarrow> dec_members fs ms old = Some x \<Longrightarrow> P x"
proof (induction ms arbitrary: old)
  case (Cons m ms)
  obtain key j where m: "m = (key, j)" by (cases m)
  show ?case
  proof (cases "find_field fs key")
    case None
    then show ?thesis using Cons by (simp add: m)
  next
    case (Some f)
    then have k: "keeps P (snd f)" using find_field_mem assms by (fastforce simp: list_all_iff)
    obtain v where v: "snd f j old = Some v" "dec_members fs ms v = Some x"
      using Cons.prems(3) Some by (cases f) (auto simp: m split: option.splits)
    have "P v" using keepsD [OF k _ Cons.prems(2) v(1)] Cons.prems(1) by (simp add: m)
    then show ?thesis using Cons.IH v(2) Cons.prems(1) by (simp add: m)
  qed
qed simp

lemma keeps_struct: "list_all (\<lambda>f. keeps P (snd f)) fs \<Longrightarrow> keeps P (dec_struct fs)"
  by (subst keeps_def) (auto simp: dec_struct_def split: json.splits intro: keeps_members)

lemma keeps_field:
  assumes "keeps Q d" and "\<And>v. P v \<Longrightarrow> Q (get v)" and "\<And>x v. P v \<Longrightarrow> Q x \<Longrightarrow> P (upd (\<lambda>_. x) v)"
  shows "keeps P (field_dec d get upd)"
  using assms unfolding keeps_def field_dec_def by fastforce

text \<open>A field that the condition is not about.\<close>

lemma keeps_other: "(\<And>x v. P v \<Longrightarrow> P (upd (\<lambda>_. x) v)) \<Longrightarrow> keeps P (field_dec d get upd)"
  by (rule keeps_field [where Q = "\<lambda>_. True"]) simp_all

lemma unmarshal_keeps: "keeps P d \<Longrightarrow> P zero \<Longrightarrow> unmarshal d zero s = Some x \<Longrightarrow> P x"
  by (auto simp: unmarshal_def split: option.splits dest: parse_json_text keepsD)

subsection \<open>The IOT dialect\<close>

definition iotChild_text :: "iotChild \<Rightarrow> bool" where
  "iotChild_text c \<longleftrightarrow> list_all valid_utf8 [ic_ID c, ic_Alias c]"

definition sysinfo_text :: "iotSysinfo \<Rightarrow> bool" where
  "sysinfo_text s \<longleftrightarrow>
     list_all valid_utf8 [is_SWVer s, is_HWVer s, is_Model s, is_DeviceID s, is_Alias s, is_MAC s,
        is_MicMAC s, is_Type s, is_MicType s, is_Feature s]
     \<and> list_all iotChild_text (is_Children s)"

definition response_text :: "iotResponse \<Rightarrow> bool" where
  "response_text r \<longleftrightarrow> pred_option (pred_option sysinfo_text) (ir_System r)"

lemma keeps_iotChild: "keeps iotChild_text dec_iotChild"
  unfolding dec_iotChild_def
  by (rule keeps_struct)
    (simp; intro conjI; (rule keeps_field [OF keeps_string] | rule keeps_other); simp add: iotChild_text_def)

lemma keeps_sysinfo: "keeps sysinfo_text dec_iotSysinfo"
proof -
  have c: "keeps (list_all iotChild_text) (dec_slice zero_iotChild dec_iotChild)"
    by (rule keeps_slice [OF keeps_iotChild]) (simp add: iotChild_text_def zero_iotChild_def)
  show ?thesis
    unfolding dec_iotSysinfo_def
    by (rule keeps_struct)
      (simp; intro conjI;
       (rule keeps_field [OF c] | rule keeps_field [OF keeps_string, where P = sysinfo_text] | rule keeps_other);
       simp add: sysinfo_text_def)
qed

lemma keeps_response: "keeps response_text dec_iotResponse"
proof -
  have z: "sysinfo_text zero_iotSysinfo" by (simp add: sysinfo_text_def zero_iotSysinfo_def)
  have "keeps (pred_option (pred_option sysinfo_text)) (dec_ptr None (dec_struct
         [(''get_sysinfo'', dec_ptr zero_iotSysinfo dec_iotSysinfo)]))"
    by (intro keeps_ptr keeps_struct) (simp_all add: keeps_ptr [OF keeps_sysinfo z])
  note s = keeps_field [OF this, where P = response_text]
  show ?thesis
    unfolding dec_iotResponse_def
    by (rule keeps_struct) (simp; intro conjI; (rule s | rule keeps_other); simp add: response_text_def)
qed

lemma iot_query_text:
  assumes "iot_query Q q request w = (Inr response, q', w')" shows "response_text response"
proof -
  obtain raw where "unmarshal dec_iotResponse zero_iotResponse (string_of raw) = Some response"
    using assms by (auto simp: iot_query_def Let_def split: prod.splits sum.splits option.splits)
  from unmarshal_keeps [OF keeps_response _ this] show ?thesis
    by (simp add: response_text_def zero_iotResponse_def)
qed

text \<open>A reading before its host is filled in: every text of it but the host, which is empty, came from the device.\<close>

lemma reading_text_update [simp]:
  "reading_text (r\<lparr>rd_Energy := e\<rparr>) = reading_text r"
  "reading_text (r\<lparr>rd_On := o1\<rparr>) = reading_text r"
  "reading_text (r\<lparr>rd_Brightness := o2\<rparr>) = reading_text r"
  "reading_text (r\<lparr>rd_Hue := o2, rd_Saturation := o3, rd_ColorTempKelvin := o4\<rparr>) = reading_text r"
  by (simp_all add: reading_text_def)

lemma reading_text_light [simp]: "reading_text (applyLightState r l) = reading_text r"
  by (simp add: applyLightState_def Let_def split: option.split)

lemma iotReading_text:
  assumes "sysinfo_text s" shows "reading_text (iotReading s)"
  using assms
  by (simp add: iotReading_def sysinfo_text_def Let_def empty_reading_def iot_mac_def split: option.split)
    (simp add: reading_text_def)

lemma itoa_ascii: "valid_utf8 (itoa i)"
proof -
  have "list_all is_digit (nat_to_string \<bar>i\<bar>)" by (rule digits_nat_to_string) simp
  moreover have "(of_char c :: nat) < 128" if "is_digit c" for c
  proof -
    have "(of_char c :: int) < 128" using that by (simp add: is_digit_def Let_def)
    then show ?thesis by (metis of_nat_of_char of_nat_less_iff of_nat_numeral)
  qed
  ultimately have "list_all (\<lambda>c. (of_char c :: nat) < 128) (itoa i)"
    by (auto simp: itoa_def list_all_iff)
  then show ?thesis by (intro ascii_valid) (simp add: list_all_iff)
qed

lemma socket_text_fields [simp]:
  "socket_text \<lparr>so_ID = i, so_Alias = a, so_On = on, so_UptimeSeconds = up, so_Energy = e\<rparr> \<longleftrightarrow> valid_utf8 i \<and> valid_utf8 a"
  by (simp add: socket_text_def)

lemma sockets_loop_text:
  "sockets_loop Q q s i children ta w = (ta', q', w') \<Longrightarrow> list_all iotChild_text children \<Longrightarrow>
    list_all socket_text (ta_sockets ta) \<Longrightarrow> list_all socket_text (ta_sockets ta')"
proof (induction children arbitrary: q i ta w)
  case (Cons child children)
  obtain r q1 w1 where r: "readSocketEnergy Q q s child w = (r, q1, w1)" by (metis prod.collapse)
  have "list_all socket_text (ta_sockets (tally_socket i child r ta))"
    using Cons.prems(2,3)
    by (simp add: tally_socket_def itoa_ascii iotChild_text_def Let_def split: sum.split option.split)
  then show ?case using Cons.IH Cons.prems(1,2) by (simp add: r)
qed simp

lemma readSockets_text:
  assumes "readSockets Q q s reading w = (Inr r, q', w')" and "sysinfo_text s" and "reading_text reading"
  shows "reading_text r"
proof (cases "is_Children s = []")
  case False
  obtain ta q1 w1 where l: "sockets_loop Q q s 0 (is_Children s) (start_tally (rd_Sockets reading)) w = (ta, q1, w1)"
    by (metis prod.collapse)
  have "list_all socket_text (ta_sockets ta)"
    using sockets_loop_text [OF l] assms(2,3) by (simp add: sysinfo_text_def start_tally_def reading_text_def)
  then have "reading_text (reading\<lparr>rd_Sockets := ta_sockets ta\<rparr>)" using assms(3) by (simp add: reading_text_def)
  then show ?thesis
    using assms(1) False l by (auto simp: readSockets_def finish_sockets_def Let_def split: if_splits)
qed (use assms in \<open>simp add: readSockets_def\<close>)

lemma iot_read_text:
  assumes "iot_read Q q w = (Inr r, q', w')" shows "reading_text r"
proof -
  obtain response q1 w1 where a: "iot_query Q q (state_request q) w = (Inr response, q1, w1)"
    using assms by (auto simp: iot_read_def split: prod.splits sum.splits)
  obtain s where s: "ir_System response = Some (Some s)" "\<not> failed (is_ErrCode s)"
    using assms by (auto simp: iot_read_def a split: option.splits if_splits bind_splits)
  have t: "sysinfo_text s" using iot_query_text [OF a] s(1) by (simp add: response_text_def)
  show ?thesis
  proof (cases "rd_Type (iotReading s) = TypeStrip")
    case True
    then show ?thesis
      using assms readSockets_text [OF _ t iotReading_text [OF t]] by (simp add: iot_read_def a s)
  next
    case False
    then show ?thesis
      using assms iotReading_text [OF t]
      by (auto simp: iot_read_def a s Let_def split: option.splits if_splits prod.splits)
  qed
qed

subsection \<open>The SMART dialect\<close>

definition info_text :: "smartDeviceInfo \<Rightarrow> bool" where
  "info_text i \<longleftrightarrow>
     list_all valid_utf8 [di_DeviceID i, di_Model i, di_Type i, di_HWVer i, di_FWVer i, di_MAC i, di_Nickname i,
       di_Category i, di_Status i, di_TempUnit i]"

lemma info_text_zero: "info_text zero_smartDeviceInfo"
  by (simp add: info_text_def zero_smartDeviceInfo_def)

lemma keeps_info: "keeps info_text dec_smartDeviceInfo"
  unfolding dec_smartDeviceInfo_def
  by (rule keeps_struct)
    (simp; intro conjI; (rule keeps_field [OF keeps_string] | rule keeps_other); simp add: info_text_def)

lemma keeps_children: "keeps (list_all info_text) dec_smartChildList"
  unfolding dec_smartChildList_def
  by (intro keeps_struct) (simp add: keeps_slice [OF keeps_info info_text_zero])

definition envelope_text :: "smartEnvelope \<Rightarrow> bool" where
  "envelope_text v \<longleftrightarrow> pred_option utf8_json (sv_Result v)"

lemma keeps_envelope: "keeps envelope_text dec_smartEnvelope"
  unfolding dec_smartEnvelope_def
  by (rule keeps_struct)
    (simp; intro conjI; (rule keeps_field [OF keeps_raw] | rule keeps_other); simp add: envelope_text_def)

definition answer_text :: "smartBatchResponse \<Rightarrow> bool" where
  "answer_text r \<longleftrightarrow> pred_option utf8_json (br_Result r)"

lemma keeps_answer: "keeps answer_text dec_smartBatchResponse"
  unfolding dec_smartBatchResponse_def
  by (rule keeps_struct)
    (simp; intro conjI; (rule keeps_field [OF keeps_raw] | rule keeps_other); simp add: answer_text_def)

lemma smart_query_text:
  assumes "smart_query Q q request w = (Inr (Some j), q', w')" shows "utf8_json j"
proof -
  obtain raw v where "unmarshal dec_smartEnvelope \<lparr>sv_ErrorCode = 0, sv_Result = None\<rparr> (string_of raw) = Some v" "sv_Result v = Some j"
    using assms by (auto simp: smart_query_def Let_def split: prod.splits sum.splits option.splits if_splits)
  with unmarshal_keeps [OF keeps_envelope _ this(1)] show ?thesis by (simp add: envelope_text_def)
qed

definition results_text :: "results \<Rightarrow> bool" where
  "results_text results \<longleftrightarrow> (\<forall>m j. results m = Some j \<longrightarrow> utf8_json j)"

lemma batch_results_text: "list_all answer_text responses \<Longrightarrow> results_text (batch_results responses)"
proof (induction responses rule: rev_induct)
  case (snoc r responses)
  then have "results_text (batch_results responses)" "answer_text r" by simp_all
  then show ?case
    by (auto simp: batch_results_def results_text_def answer_text_def split: option.split)
qed (simp add: batch_results_def results_text_def)

lemma smart_batch_text:
  assumes "smart_batch Q S q methods w = (Inr results, q', w')" shows "results_text results"
proof -
  obtain request j q1 w1 responses where "smart_query Q q request w1 = (Inr (Some j), q', w')"
    and d: "dec_struct [(''responses'', dec_slice zero_smartBatchResponse dec_smartBatchResponse)] j [] = Some responses"
    and r: "results = batch_results responses"
    using assms by (auto simp: smart_batch_def split: prod.splits sum.splits option.splits bind_splits)
  then have j: "utf8_json j" by (auto dest: smart_query_text)
  have k: "keeps (list_all answer_text) (dec_struct [(''responses'', dec_slice zero_smartBatchResponse dec_smartBatchResponse)])"
    by (intro keeps_struct) (simp add: keeps_slice [OF keeps_answer] answer_text_def zero_smartBatchResponse_def)
  have "list_all answer_text responses" by (rule keepsD [OF k j _ d]) simp
  then show ?thesis unfolding r by (rule batch_results_text)
qed

lemma smart_alias_text: "info_text i \<Longrightarrow> valid_utf8 (smart_alias i)"
  by (simp add: smart_alias_def info_text_def isPrintable_def split: option.split)

lemma smartReading_text: "info_text i \<Longrightarrow> reading_text (smartReading i)"
  using smart_alias_text [of i] by (simp add: smartReading_def info_text_def reading_text_def empty_reading_def)

lemma smartSockets_text: "list_all info_text children \<Longrightarrow> list_all socket_text (smartSockets children)"
proof -
  have "list_all info_text children \<Longrightarrow> list_all socket_text (smart_sockets_from i children)" for i
    by (induction children arbitrary: i) (auto simp: smart_socket_def itoa_ascii smart_alias_text split: option.split)
  then show "list_all info_text children \<Longrightarrow> ?thesis" by (simp add: smartSockets_def)
qed

lemma smartChildren_text: "list_all info_text children \<Longrightarrow> list_all child_text (smartChildren children)"
  by (auto simp: smartChildren_def list_all_iff child_text_def smart_child_def smart_alias_text)
    (simp_all add: info_text_def)

lemma applyChildren_text:
  assumes "reading_text r" and "utf8_json raw" shows "reading_text (applyChildren r raw)"
proof (cases "dec_smartChildList raw []")
  case (Some children)
  then have "list_all info_text children" using keepsD [OF keeps_children assms(2) _ Some] by simp
  then show ?thesis
    using assms(1) smartChildren_text [of children] smartSockets_text [of children]
    by (auto simp: applyChildren_def Some reading_text_def split: list.split)
qed (use assms in \<open>simp add: applyChildren_def\<close>)

lemma smart_assemble_text:
  assumes "smart_assemble results rawInfo q = (Inr r, q')" and "results_text results" and "pred_option utf8_json rawInfo"
  shows "reading_text r"
proof -
  obtain j info where j: "rawInfo = Some j" "dec_smartDeviceInfo j zero_smartDeviceInfo = Some info"
    using assms(1) by (auto simp: smart_assemble_def split: option.splits bind_splits)
  then have "info_text info" using keepsD [OF keeps_info _ info_text_zero j(2)] assms(3) by simp
  then have t: "reading_text (smartReading info)" by (rule smartReading_text)
  obtain energy q1 where e: "readEnergy results q = (energy, q1)" by (metis prod.collapse)
  have a: "utf8_json raw" if "results smartGetChildDeviceList = Some raw" for raw
    using assms(2) that by (simp add: results_text_def)
  show ?thesis
    using assms(1) t applyChildren_text [OF _ a]
    by (cases "results smartGetChildDeviceList") (auto simp: smart_assemble_def j e Let_def)
qed

lemma smart_read_text:
  assumes "smart_read Q S q w = (Inr r, q', w')" shows "reading_text r"
proof -
  obtain results q1 w1 where b: "smart_batch Q S q (wanted_methods q) w = (Inr results, q1, w1)"
    using assms by (auto simp: smart_read_def split: prod.splits sum.splits)
  note t = smart_batch_text [OF b]
  show ?thesis
  proof (cases "results smartGetDeviceInfo")
    case (Some rawInfo)
    then have "pred_option utf8_json (Some rawInfo)" using t by (simp add: results_text_def)
    moreover obtain q2 where "smart_assemble results (Some rawInfo) q1 = (Inr r, q2)"
      using assms by (auto simp: smart_read_def b Some split: prod.splits)
    ultimately show ?thesis using smart_assemble_text t by blast
  next
    case None
    obtain request w2 rawInfo q3 w3 q4 where "smart_query Q q1 request w2 = (Inr rawInfo, q3, w3)"
      and a: "smart_assemble results rawInfo q3 = (Inr r, q4)"
      using assms by (auto simp: smart_read_def b None split: prod.splits sum.splits)
    then have "pred_option utf8_json rawInfo" by (cases rawInfo) (auto dest: smart_query_text)
    then show ?thesis using smart_assemble_text [OF a t] by simp
  qed
qed

subsection \<open>Devices and discovery\<close>

definition device_text :: "device \<Rightarrow> bool" where
  "device_text d \<longleftrightarrow> valid_utf8 (dv_host d) \<and> valid_utf8 (dv_alias d)"

definition found_text :: "discoveryResult \<Rightarrow> bool" where
  "found_text r \<longleftrightarrow> valid_utf8 (dr_Host r) \<and> valid_utf8 (dr_Alias r)"

definition result_text :: "scrape_result \<Rightarrow> bool" where
  "result_text x \<longleftrightarrow> valid_utf8 (re_Host x) \<and> valid_utf8 (re_Alias x)
     \<and> pred_option (\<lambda>r. reading_text r \<and> rd_Host r = re_Host x) (re_Reading x)"

text \<open>What is assumed of the network: the source address of a datagram, which Go writes in digits, is
  valid UTF-8.\<close>

definition sources_text :: "('k, 'w) kasa_env \<Rightarrow> bool" where
  "sources_text K \<longleftrightarrow> (\<forall>w host port data w'. udp_receive (ke_udp K) w = (Some (host, port, data), w') \<longrightarrow> valid_utf8 host)"

lemma querier_read_text: "querier_read K c q w = (Inr r, q', w') \<Longrightarrow> reading_text r"
  by (cases q) (auto split: prod.splits dest: iot_read_text smart_read_text)

lemma device_read_text:
  assumes "device_read K c d w = Some (x, d', w')" and "device_text d"
  shows "device_text d'" and "result_text (result_of d' x)"
proof -
  have "device_text d' \<and> (case x of Inl _ \<Rightarrow> True | Inr r \<Rightarrow> reading_text r \<and> rd_Host r = dv_host d')"
  proof (cases x)
    case (Inl e)
    then show ?thesis
      using assms by (auto simp: device_read_def device_text_def Let_def split: option.splits sum.splits prod.splits)
  next
    case (Inr r)
    obtain q w1 r0 q1 w2 where q: "querier_read K c q w1 = (Inr r0, q1, w2)" and r: "r = r0\<lparr>rd_Host := dv_host d\<rparr>"
      and d: "dv_host d' = dv_host d" "dv_alias d' = (if rd_Alias r0 \<noteq> [] then rd_Alias r0 else dv_alias d)"
      using assms(1) Inr by (auto simp: device_read_def Let_def split: option.splits sum.splits prod.splits)
    show ?thesis
      using querier_read_text [OF q] assms(2) by (simp add: Inr r d device_text_def reading_text_def)
  qed
  then show "device_text d'" "result_text (result_of d' x)"
    by (auto simp: result_text_def result_of_def device_text_def device_Alias_def split: sum.splits)
qed

definition announced_text :: "smartDiscoveryResult \<Rightarrow> bool" where
  "announced_text r \<longleftrightarrow>
     list_all valid_utf8 [sd_DeviceID r, sd_DeviceType r, sd_DeviceModel r, sd_Alias r, sd_IP r, sd_MAC r]"

lemma keeps_reply: "keeps (\<lambda>a. announced_text (sr_Result a)) dec_smartDiscoveryReply"
proof -
  have k: "keeps announced_text dec_smartDiscoveryResult"
    unfolding dec_smartDiscoveryResult_def
    by (rule keeps_struct)
      (simp; intro conjI; (rule keeps_field [OF keeps_string] | rule keeps_other); simp add: announced_text_def)
  show ?thesis
    unfolding dec_smartDiscoveryReply_def
    by (rule keeps_struct) (simp; intro conjI; (rule keeps_field [OF k] | rule keeps_other); simp)
qed

lemma parseDiscoveryReply_text:
  assumes "parseDiscoveryReply host port data = Some r" and "valid_utf8 host" shows "found_text r"
proof -
  have "found_text r" if i: "parseIOTDiscovery host data = Some r"
  proof -
    obtain a s where a: "unmarshal dec_iotResponse zero_iotResponse (string_of (xorDecrypt data)) = Some a"
      and s: "ir_System a = Some (Some s)" "dr_Host r = host" "dr_Alias r = is_Alias s"
      using i by (auto simp: parseIOTDiscovery_def split: option.splits)
    have "response_text a" by (rule unmarshal_keeps [OF keeps_response _ a]) (simp add: response_text_def zero_iotResponse_def)
    then show ?thesis using s assms(2) by (simp add: response_text_def sysinfo_text_def found_text_def)
  qed
  moreover have "found_text r" if i: "parseSMARTDiscovery host data = Some r"
  proof -
    obtain a where a: "unmarshal dec_smartDiscoveryReply zero_smartDiscoveryReply (string_of (drop discoveryHeaderSMART data)) = Some a"
      and s: "dr_Host r = host" "dr_Alias r = sd_Alias (sr_Result a)"
      using i by (auto simp: parseSMARTDiscovery_def Let_def split: option.splits if_splits)
    have "announced_text (sr_Result a)"
      by (rule unmarshal_keeps [OF keeps_reply _ a]) (simp add: announced_text_def zero_smartDiscoveryReply_def)
    then show ?thesis using s assms(2) by (simp add: announced_text_def found_text_def)
  qed
  ultimately show ?thesis using assms(1) by (auto simp: parseDiscoveryReply_def split: if_splits)
qed

lemma record_reply_text:
  assumes "\<And>h r. map_of found h = Some r \<Longrightarrow> found_text r" and "valid_utf8 host"
    and "map_of (record_reply (host, port, data) found) h = Some r"
  shows "found_text r"
  using assms parseDiscoveryReply_text [OF _ assms(2)]
  by (auto simp: map_of_record_reply split: option.splits if_splits)

lemma collect_text:
  assumes "collect (ke_udp K) deadline found w = Some (found', w')" and "sources_text K"
    and "\<And>h r. map_of found h = Some r \<Longrightarrow> found_text r"
  shows "map_of found' h = Some r \<Longrightarrow> found_text r"
proof -
  have "(\<forall>h r. map_of found h = Some r \<longrightarrow> found_text r) \<longrightarrow> (\<forall>h r. map_of (fst (found', w')) h = Some r \<longrightarrow> found_text r)"
  proof (rule collect.raw_induct [OF _ assms(1), where
        P = "\<lambda>E _ found _ y. E = ke_udp K \<longrightarrow> (\<forall>h r. map_of found h = Some r \<longrightarrow> found_text r) \<longrightarrow>
          (\<forall>h r. map_of (fst y) h = Some r \<longrightarrow> found_text r)", THEN mp [OF _ refl]], intro impI allI, goal_cases)
    case (1 go E deadline found w y h r)
    obtain ok w1 where d: "udp_set_deadline E deadline w = (ok, w1)" by (metis prod.collapse)
    obtain x w2 where x: "udp_receive E w1 = (x, w2)" by (metis prod.collapse)
    show ?case
    proof (cases "ok \<and> x \<noteq> None")
      case False
      then have "fst y = found" using 1(2) by (auto simp: d x split: option.splits if_splits)
      then show ?thesis using 1 by simp
    next
      case True
      then obtain host port data where hp: "x = Some (host, port, data)" by (cases x) auto
      have "valid_utf8 host" using assms(2) x 1(3) unfolding hp sources_text_def by blast
      moreover have "go E deadline (record_reply (host, port, data) found) w2 = Some y" using 1(2) True by (simp add: d x hp)
      ultimately show ?thesis using 1(1,3,4,5) record_reply_text [of found host port data] by blast
    qed
  qed
  then show "map_of found' h = Some r \<Longrightarrow> found_text r" using assms(3) by simp
qed

lemma discover_devices_text:
  assumes "discover_devices K c target timeout packets creds dt w = Some (Inr ds, w')" and "sources_text K"
  shows "list_all device_text ds"
proof -
  obtain results w1 where d: "discover (ke_udp K) c target timeout packets w = Some (Inr results, w1)"
    and ds: "ds = map (discovered_device creds dt) results"
    using assms(1) by (auto simp: discover_devices_def split: option.splits sum.splits)
  obtain deadline w2 found w3 hosts where "collect (ke_udp K) deadline [] w2 = Some (found, w3)"
    and r: "results = List.map_filter (map_of found) hosts"
    using d by (auto simp: discover_def Let_def split: option.splits sum.splits prod.splits if_splits)
  then have "found_text r" if "map_of found h = Some r" for h r
    using collect_text assms(2) that by fastforce
  then show ?thesis
    by (auto simp: ds r list_all_iff List.map_filter_def discovered_device_def device_text_def found_text_def)
qed

end
