(* ===== verification/Labels.thy ===== *)
theory Labels
  imports Text Collector
begin

text \<open>
  From the network to the metrics: the texts of a running fleet stay valid UTF-8 through every step
  of the registry, so each snapshot it publishes gives metrics that can be built.
\<close>

subsection \<open>The fleet\<close>

lemma close_all_all:
  assumes "list_all P heap" and "\<And>d. P d \<Longrightarrow> P (device_close d)" shows "list_all P (close_all ps heap)"
  using assms close_all_nth [of ps heap] by (auto simp: list_all_length)

lemma reconcile_all:
  assumes "devices_ok (rg_devices r) heap" and "reconcile found (r, heap) = (r', heap')"
    and "list_all P heap" and "list_all P found" and "\<And>d. P d \<Longrightarrow> P (device_close d)"
  shows "list_all P heap'"
proof -
  obtain devices new where a: "add_found found (rg_devices r, heap) = (devices, heap @ new)" "set new \<subseteq> set found"
    using add_found_ok [OF assms(1)] by blast
  have "list_all P (heap @ new)" using assms(3,4) a(2) unfolding list_all_iff set_append by blast
  then show ?thesis
    using assms(2) close_all_all [of P "heap @ new"] assms(5) by (auto simp: reconcile_def a(1) Let_def split: if_splits)
qed

lemma device_text_close: "device_text d \<Longrightarrow> device_text (device_close d)"
  by (simp add: device_text_def device_close_def)

definition task_text :: "task \<Rightarrow> bool" where
  "task_text t \<longleftrightarrow> (case t of Finished p x \<Rightarrow> result_text x | _ \<Rightarrow> True)"

definition fleet_text :: "'w fleet \<Rightarrow> bool" where
  "fleet_text s \<longleftrightarrow> list_all device_text (fl_heap s)
     \<and> pred_option (list_all result_text) (rg_snapshot (fl_reg s))
     \<and> (case fl_phase s of Found (Inr ds) \<Rightarrow> list_all device_text ds | _ \<Rightarrow> True)
     \<and> (case fl_scrape s of ReadAll c tasks \<Rightarrow> list_all task_text tasks | _ \<Rightarrow> True)"

lemma settle_text:
  assumes "settle outcome (r, heap) = (r', heap')" and "devices_ok (rg_devices r) heap"
    and "list_all device_text heap" and "\<And>ds. outcome = Inr ds \<Longrightarrow> list_all device_text ds"
  shows "list_all device_text heap'" and "rg_snapshot r' = rg_snapshot r"
proof -
  have "list_all device_text heap' \<and> rg_snapshot r' = rg_snapshot r"
  proof (cases outcome)
    case (Inr found)
    have f: "reconcile found (r, heap) = (r', heap')" using assms(1) Inr by (simp add: settle_def)
    have "rg_snapshot r' = rg_snapshot r" by (subst reconcile_ok(3) [OF assms(2) f]) simp
    then show ?thesis
      using reconcile_all [OF assms(2) f assms(3) assms(4) [OF Inr] device_text_close] by simp
  qed (use assms in \<open>auto simp: settle_def\<close>)
  then show "list_all device_text heap'" "rg_snapshot r' = rg_snapshot r" by simp_all
qed

lemma list_all_update: "list_all P xs \<Longrightarrow> P x \<Longrightarrow> list_all P (xs[i := x])"
  by (auto simp: list_all_iff dest!: subsetD [OF set_update_subset_insert])

lemma finished_text: "finished_results tasks = Some results \<Longrightarrow> list_all task_text tasks \<Longrightarrow> list_all result_text results"
proof (induction tasks arbitrary: results)
  case (Cons t tasks)
  obtain p x rest where t: "t = Finished p x" "finished_results tasks = Some rest" "results = x # rest"
    using Cons.prems(1) by (auto simp: finished_results_def split: task.splits option.splits)
  then show ?case using Cons.IH [OF t(2)] Cons.prems(2) by (simp add: task_text_def)
qed (simp add: finished_results_def)

lemma fleet_text_step:
  assumes "step K s s'" and "sources_text K" and "fleet_ok K opts s" and "fleet_text s"
  shows "fleet_text s'"
  using assms(1)
proof cases
  case (snapshot_no_sweep r c)
  then show ?thesis
    using assms(4) refreshDevices_frame [OF snapshot_no_sweep(4)] by (auto simp: fleet_text_def)
next
  case (snapshot_inline_sweep r c)
  then show ?thesis
    using assms(4) refreshDevices_frame [OF snapshot_inline_sweep(4)] by (auto simp: fleet_text_def)
next
  case (snapshot_background_sweep r c)
  then show ?thesis
    using assms(4) refreshDevices_frame [OF snapshot_background_sweep(4)] by (auto simp: fleet_text_def)
next
  case (sweep_discovers co opts outcome w')
  have "list_all device_text ds" if "outcome = Inr ds" for ds
    using discover_devices_text [OF sweep_discovers(4) [unfolded that] assms(2)] .
  then show ?thesis
    using assms(4) sweep_discovers(1) by (auto simp: fleet_text_def split: sum.split scrape.split)
next
  case (sweep_settles outcome r' heap')
  have o: "list_all device_text ds" if "outcome = Inr ds" for ds
    using assms(4) sweep_settles(2) that by (simp add: fleet_text_def)
  have "devices_ok (rg_devices (fl_reg s)) (fl_heap s)" "list_all device_text (fl_heap s)"
    using assms(3,4) by (simp_all add: fleet_ok_def registry_ok_def fleet_text_def)
  from settle_text [OF sweep_settles(3) this o] show ?thesis
    using assms(4) sweep_settles(1) by (auto simp: fleet_text_def split: scrape.split)
next
  case sweep_ends
  then show ?thesis using assms(4) by (auto simp: fleet_text_def after_sweep_def split: scrape.split)
next
  case (list_devices c hosts w')
  then show ?thesis
    using assms(4) by (auto simp: fleet_text_def list_tasks_def list_all_iff task_text_def)
next
  case (acquire c tasks i p)
  then show ?thesis
    using assms(4) by (auto simp: fleet_text_def task_text_def intro!: list_all_update)
next
  case (read_device c tasks i p x d' w')
  have "tasks_ok (op_Concurrency (rg_opts (fl_reg s))) (fl_heap s) tasks"
    using assms(3) read_device(2) by (simp add: fleet_ok_def)
  then have "p < length (fl_heap s)"
    using nth_mem [OF read_device(3)] unfolding read_device(4) by (auto simp: tasks_ok_def)
  then have "device_text (fl_heap s ! p)" using assms(4) by (simp add: fleet_text_def list_all_length)
  from device_read_text [OF read_device(5) this] show ?thesis
    using assms(4) read_device(1,2) by (auto simp: fleet_text_def task_text_def intro!: list_all_update)
next
  case (snapshot_done c tasks results)
  have "list_all result_text results"
    using finished_text [OF snapshot_done(3)] assms(4) snapshot_done(2) by (simp add: fleet_text_def)
  then have "list_all result_text (sort_key re_Host results)" by (simp add: list_all_iff)
  then show ?thesis using assms(4) snapshot_done(1) by (simp add: fleet_text_def publish_def)
next
  case close
  then show ?thesis
    using assms(4) close_all_all [of device_text "fl_heap s"] device_text_close
    by (auto simp: fleet_text_def registry_close_def split: scrape.splits)
qed (use assms in simp)

lemma fleet_text_initial:
  assumes "list_all valid_utf8 (op_Hosts opts)" shows "fleet_text (initial opts w)"
proof -
  have "list_all device_text (snd (foldl (\<lambda>dh host. add_device (connect_device host creds timeout) dh) dh hosts))"
    if "list_all valid_utf8 hosts" "list_all device_text (snd dh)" for creds timeout dh hosts
    using that
    by (induction hosts arbitrary: dh)
      (auto simp: add_device_def device_text_def connect_device_def split: prod.splits)
  from this [OF assms, of "([], [])"] show ?thesis
    by (auto simp: initial_def NewRegistry_def fleet_text_def Let_def split: prod.split) (metis snd_conv)+
qed

lemma reachable_text:
  assumes "reachable K opts s" and "ranges_once K" and "sources_text K" and "list_all valid_utf8 (op_Hosts opts)"
  shows "fleet_text s"
  using assms(1)
proof induction
  case (onward s s')
  then show ?case using fleet_text_step [OF _ assms(3) reachable_fleet_ok [OF _ assms(2)]] by blast
qed (rule fleet_text_initial [OF assms(4)])

lemma published_text:
  assumes "reachable K opts s" and "ranges_once K" and "sources_text K" and "list_all valid_utf8 (op_Hosts opts)"
    and "rg_snapshot (fl_reg s) = Some results"
  shows "snapshot_text results" and "snapshot_ok results"
proof -
  have t: "list_all result_text results"
    using reachable_text [OF assms(1-4)] assms(5) by (simp add: fleet_text_def)
  then show "snapshot_text results"
    by (auto simp: snapshot_text_def list_all_iff result_text_def split: option.split)
  have "sorted_wrt (<) (map re_Host results)"
    using reachable_fleet_ok [OF assms(1,2)] assms(5) by (simp add: fleet_ok_def registry_ok_def)
  then have "distinct (map re_Host results)" by (simp add: strict_sorted_iff)
  then show "snapshot_ok results"
    using t by (auto simp: snapshot_ok_def list_all_iff result_text_def split: option.split)
qed

text \<open>A device that cannot be read is still counted under its host.\<close>

lemma invalid_host: "valid_utf8 (dv_host d) \<or> list_ex (\<lambda>m. \<not> metric_ok m) (device_emit NewDeviceCollector (result_of d (Inl e)))"
  by (simp add: device_emit_def metric_ok_def gauge_def result_of_def)

subsection \<open>Properties\<close>

text \<open>C4. The metrics of a scrape are well typed: with configured addresses and datagram sources in valid
  UTF-8, every snapshot the running registry ever publishes has one result per host with only valid
  texts in it, whatever bytes the devices sent, and every metric a scrape makes of it has one value
  for each of its labels, all valid UTF-8, which is what \<^verbatim>\<open>MustNewConstMetric\<close> demands lest it panic
  and take the exporter down. The condition on the addresses is needed: a device that cannot be read, under
  an address that is not valid UTF-8, has a metric that panics.\<close>

theorem scrape_well_typed:
  assumes "reachable K opts s" and "ranges_once K" and "sources_text K" and "list_all valid_utf8 (op_Hosts opts)"
    and "rg_snapshot (fl_reg s) = Some results"
    and "visits_once range_keys" and "visits_names range_names"
    and "state_ok state" and "NewKasaCollector range_names filters state = (Inr cs, state')"
    and "\<And>name. rn_snapshot (runs name) = Inr results" and "KasaCollector_Collect range_keys cs runs ms"
  shows "snapshot_ok results \<and> snapshot_text results \<and> list_all metric_ok ms
    \<and> (valid_utf8 (dv_host d) \<or> list_ex (\<lambda>m. \<not> metric_ok m) (device_emit NewDeviceCollector (result_of d (Inl e))))"
proof -
  note p = published_text [OF assms(1-5)]
  have "list_all metric_ok ms"
    using collected_ok [OF chosen_builtin(1) [OF assms(8,7,9)] assms(6) p(2,1) assms(10,11)] by (simp add: list_all_iff)
  with p show ?thesis using invalid_host [of d e] by blast
qed

lemma fridge_sources: "sources_text fridge_world"
  by (simp add: sources_text_def fridge_world_def klap_world_def)

lemma fridge_published:
  "\<exists>(s :: klap_device fleet) results. reachable fridge_world two_hosts s \<and> rg_snapshot (fl_reg s) = Some results"
proof -
  obtain s c tasks where s: "reachable fridge_world two_hosts s" "fl_scrape s = ReadAll c tasks"
    using two_hosts_reading by blast
  have "1 \<le> op_Concurrency (rg_opts (fl_reg s))"
    using reachable_fleet_ok [OF s(1) fridge_ranges_once] NewRegistry_opts [of two_hosts] by (simp add: fleet_ok_def registry_ok_def)
  from scrape_runs [OF fridge_reads this s(2)] obtain s' tasks' results where
    s': "(step fridge_world)\<^sup>*\<^sup>* s s'" "fl_scrape s' = ReadAll c tasks'" "finished_results tasks' = Some results"
    by blast
  have "reachable fridge_world two_hosts s'"
    using s'(1) s(1) by induction (auto intro: onward)
  from onward [OF this snapshot_done [OF s'(2,3)]] show ?thesis by (auto simp: publish_def)
qed

theorem scrape_well_typed_witness:
  "\<exists>(s :: klap_device fleet) results runs cs s' ms. reachable fridge_world two_hosts s \<and> rg_snapshot (fl_reg s) = Some results
    \<and> NewKasaCollector rev [] initial_collectors = (Inr cs, s') \<and> KasaCollector_Collect rev cs runs ms \<and> list_all metric_ok ms"
proof -
  obtain s :: "klap_device fleet" and results where s: "reachable fridge_world two_hosts s" "rg_snapshot (fl_reg s) = Some results"
    using fridge_published by blast
  have v: "visits_once rev" "visits_names rev" by (simp_all add: visits_once_def visits_names_def)
  have h: "list_all valid_utf8 (op_Hosts two_hosts)" by (simp add: two_hosts_def decode_rune_def)
  obtain cs s' where n: "NewKasaCollector rev [] initial_collectors = (Inr cs, s')" using no_filter by blast
  define runs where "runs = (\<lambda>_ :: string. plug_run\<lparr>rn_snapshot := Inr results\<rparr>)"
  obtain ms where c: "KasaCollector_Collect rev cs runs ms"
    unfolding KasaCollector_Collect_def using sends_all by blast
  have "\<And>name. rn_snapshot (runs name) = Inr results" by (simp add: runs_def)
  from scrape_well_typed [OF s(1) fridge_ranges_once fridge_sources h s(2) v initial_state_ok n this c] s n c
  show ?thesis by blast
qed

end
