(* ===== verification/Spec2Isabelle.thy ===== *)
theory Spec2Isabelle
  imports Xor Klap Device Iot Smart Registry Handler Labels
begin

text \<open>
  \<^bold>\<open>A model of \<^verbatim>\<open>kasa_exporter\<close>, a Prometheus exporter for TP-Link Kasa and Tapo devices.\<close>

  \<^bold>\<open>The program.\<close> \<^verbatim>\<open>kasa_exporter.go\<close> reads the command line, builds the routes and serves the metrics
  endpoint. A request makes a \<^verbatim>\<open>KasaCollector\<close> (\<^verbatim>\<open>collector/collector.go\<close>) of the collectors it asks
  for; a scrape runs them concurrently, each over the same snapshot of the fleet. The snapshot comes
  from the registry (\<^verbatim>\<open>kasa/registry.go\<close>), built once from the settings (\<^verbatim>\<open>config/kasa.go\<close>), which
  keeps the devices, looks for new ones (\<^verbatim>\<open>kasa/discover.go\<close>) and reads all of them under a limit on
  concurrency. A device (\<^verbatim>\<open>kasa/device.go\<close>) keeps a connection, chosen in \<^verbatim>\<open>kasa/connect.go\<close>: a
  dialect (\<^verbatim>\<open>kasa/iot.go\<close> or \<^verbatim>\<open>kasa/smart.go\<close>) over a transport (\<^verbatim>\<open>kasa/xor.go\<close>, \<^verbatim>\<open>kasa/klap.go\<close> or
  \<^verbatim>\<open>kasa/aes.go\<close>).

  \<^bold>\<open>How it is modelled.\<close> A Go struct is a record, an interface value a datatype of its implementations, a
  nil pointer \<^term>\<open>None\<close>, an error a value of \<^typ>\<open>kasa_error\<close> on the left of a sum, a byte an 8-bit word
  and the sequence numbers and request counter words of their width. Go strings are lists of bytes
  (\<^typ>\<open>string\<close>); Go maps are association lists, and the order in which Go ranges over one is a function
  constrained only to visit each key once. Everything outside the repository is a parameter over an
  abstract world: sockets, the HTTP client, the clock, the random source, Go's digests, AES and RSA,
  kong, promslog, the exporter toolkit. Operations with a lock are atomic; the registry, whose
  operations interleave, is the step relation \<^const>\<open>step\<close> whose steps are its critical sections, the
  search of a sweep on the network and the reads of single devices (the steps of a sweep, undisturbed,
  are shown to be \<^verbatim>\<open>runDiscovery\<close>), and the goroutines of a scrape interleave by \<^const>\<open>sends\<close>.

  \<^bold>\<open>Theories.\<close>
  \<^item> \<^verbatim>\<open>Prelude\<close>, \<^verbatim>\<open>Float64\<close>, \<^verbatim>\<open>Utf8\<close>, \<^verbatim>\<open>Json\<close>, \<^verbatim>\<open>Base64\<close>, \<^verbatim>\<open>Http\<close>: the parts of Go and its library the code
    relies on: bytes and decimals, the error values, binary64 arithmetic with rounding, UTF-8 and the
    rune functions, \<^verbatim>\<open>encoding/json\<close> with its scanner, struct decoding and round trip, base64, HTTP
    responses with the limit on their size.
  \<^item> \<^verbatim>\<open>Transport\<close>: the interface between dialects and transports, a locale interpreted by each
    transport.
  \<^item> \<^verbatim>\<open>Xor\<close>: \<^verbatim>\<open>xor.go\<close>. The cipher is a bijection; a query against a conforming device returns its reply;
    dial and close are paired on every path.
  \<^item> \<^verbatim>\<open>Cipher\<close>, \<^verbatim>\<open>Klap\<close>: the padding and CBC, and \<^verbatim>\<open>klap.go\<close>. Handshake, session keys, messages, the
    one retry; what the handshake proves and reveals, how many posts a query makes, and that it gets
    through to a device bound to the same account, forgotten sessions included.
  \<^item> \<^verbatim>\<open>Aes\<close>: \<^verbatim>\<open>aes.go\<close>. Key exchange, login, passthrough; sessions are complete, answers exact, posts bounded.
  \<^item> \<^verbatim>\<open>Device\<close>: the data of \<^verbatim>\<open>device.go\<close> and the classification of models.
  \<^item> \<^verbatim>\<open>Iot\<close>, \<^verbatim>\<open>Smart\<close>: the dialects. Which requests a read sends, the reading they make of the answers, the
    strip loop against its closed description, the names, the conversion of temperatures.
  \<^item> \<^verbatim>\<open>Discover\<close>: \<^verbatim>\<open>discover.go\<close>. Probing, the collection of replies, which reply is kept.
  \<^item> \<^verbatim>\<open>Connect\<close>: \<^verbatim>\<open>connect.go\<close> and \<^verbatim>\<open>Device\<close>. Choice of transport and dialect, negotiation, the device
    that keeps its connection; the dialects are \<^verbatim>\<open>reader\<close>s over every transport.
  \<^item> \<^verbatim>\<open>Registry\<close>: \<^verbatim>\<open>registry.go\<close>. The invariant of every reachable state, reconciliation, completion of a
    scrape, the distance between sweeps.
  \<^item> \<^verbatim>\<open>Config\<close>: \<^verbatim>\<open>config/kasa.go\<close>. Addresses, checks, the shared registry.
  \<^item> \<^verbatim>\<open>Metrics\<close>, \<^verbatim>\<open>Kinds\<close>: \<^verbatim>\<open>collector/metrics.go\<close> and the collectors of \<^verbatim>\<open>device.go\<close>, \<^verbatim>\<open>plug.go\<close>,
    \<^verbatim>\<open>wallswitch.go\<close>, \<^verbatim>\<open>bulb.go\<close>, \<^verbatim>\<open>dimmer.go\<close>, \<^verbatim>\<open>lightstrip.go\<close>, \<^verbatim>\<open>strip.go\<close> and \<^verbatim>\<open>hub.go\<close>; the locale
    \<^verbatim>\<open>kind_collector\<close> states what a collector of one kind of device owes and each is interpreted.
  \<^item> \<^verbatim>\<open>Collector\<close>: \<^verbatim>\<open>collector/collector.go\<close>. Toggles and forced collectors, the choice of collectors, the
    scrape; its series are distinct.
  \<^item> \<^verbatim>\<open>Mux\<close>: how \<^verbatim>\<open>http.ServeMux\<close> reads a pattern (method, host, wildcards, percent escapes), when two
    patterns conflict and when a registration panics; plain paths conflict just when they decode alike.
  \<^item> \<^verbatim>\<open>Handler\<close>: \<^verbatim>\<open>kasa_exporter.go\<close>. Filters of a request, routes, start-up, command line, exit status.
  \<^item> \<^verbatim>\<open>Text\<close>, \<^verbatim>\<open>Labels\<close>: across all of these, from the bytes of a device to the labels of a metric: only
    valid UTF-8 gets through, so no metric panics.

  \<^bold>\<open>Bounds and fuel.\<close> The JSON scanner recurses with fuel twice the length of its input and one, enough
  because every two calls consume a character (the round trip of \<^verbatim>\<open>Json\<close> holds with it); the nesting
  limit is Go's 10000. A light state is decoded to the depth of the value it comes from. The attempts of
  a KLAP and an AES query are the two of the code's loop. The reading loop of discovery, which ends
  only with its deadline, is a partial function, and its end is proved from a socket that delivers
  finitely many datagrams; a scrape of the registry is shown to be able to end from every reachable
  state in its reading phase.

  \<^bold>\<open>Approximations.\<close> \<open>to_upper\<close> maps the letters of ASCII and the two runes whose upper case is one of
    them, and leaves other runes as they are, where \<^verbatim>\<open>strings.ToUpper\<close> maps those too: a difference only
    for models, families and encryption names no case of the code matches. \<open>dec_elems\<close> decodes into the
    elements a slice holds, not into those left in its spare capacity after a key of the same object was
    read a second time with a shorter array. Collectors are values, so that reusing an initiated one
    cannot be told from building it anew. Whether a text is a Go identifier, which \<^verbatim>\<open>ServeMux\<close> asks of a
    wildcard's name, is a parameter.

  \<^bold>\<open>Not modelled.\<close> \<^verbatim>\<open>socket_unix.go\<close> and \<^verbatim>\<open>socket_windows.go\<close>, one socket option each; \<^verbatim>\<open>userAgent\<close>, a header
  text; log messages, help texts and the wording of errors; \<^verbatim>\<open>newParser\<close>, which hands kong its options;
  \<^verbatim>\<open>GOMAXPROCS\<close> and the warning about running as root; \<^verbatim>\<open>config.Flags\<close>, \<^verbatim>\<open>Device.Host\<close> and the pointer
  helpers, which give out a field; the third-party packages.
\<close>

end
